(* ===== verification/Prelude.thy ===== *)
theory Prelude
  imports Main Complex_Main "HOL-Library.Multiset" "HOL-Library.AList"
begin

text \<open>
  Shared vocabulary of the development: Python exceptions as values, the outcome of a stateful
  operation (a mutated state together with either an exception or a returned value), the Python
  string and integer conventions the sources use, and the list lemmas several components share.
\<close>

subsection \<open>Exceptions and outcomes\<close>

datatype py_error =
    KeyError
  | IndexError
  | TypeError
  | ValueError
  | AssertionError
  | StopIteration
  | FileNotFoundError
  | OSError
  | NameError
  | RuntimeError
  | ZeroDivisionError
  | AttributeError
  | OverflowError
  | SystemExit
  | Exception

text \<open>
  A Python method that mutates its object and may raise: the state it leaves behind (mutations made
  before a raise persist) and the exception (\<open>Inl\<close>) or the returned value (\<open>Inr\<close>).
\<close>

type_synonym ('s, 'a) outcome = "'s \<times> (py_error + 'a)"

text \<open>Sequencing: the second operation runs on the state the first one left, unless it raised.\<close>

definition obind :: "('s, 'a) outcome \<Rightarrow> ('s \<Rightarrow> 'a \<Rightarrow> ('s, 'b) outcome) \<Rightarrow> ('s, 'b) outcome" where
  "obind r f = (case r of (s, Inl e) \<Rightarrow> (s, Inl e) | (s, Inr x) \<Rightarrow> f s x)"

lemma obind_simps [simp]:
  "obind (s, Inl e) f = (s, Inl e)"
  "obind (s, Inr x) f = f s x"
  by (simp_all add: obind_def)

abbreviation returns :: "('s, 'a) outcome \<Rightarrow> 'a \<Rightarrow> bool" where
  "returns r x \<equiv> snd r = Inr x"

abbreviation raises :: "('s, 'a) outcome \<Rightarrow> py_error \<Rightarrow> bool" where
  "raises r e \<equiv> snd r = Inl e"

text \<open>Pure code that may raise: sequencing, and a comprehension that stops at the first raise.\<close>

definition ebind :: "py_error + 'a \<Rightarrow> ('a \<Rightarrow> py_error + 'b) \<Rightarrow> py_error + 'b" where
  "ebind r f = (case r of Inl e \<Rightarrow> Inl e | Inr x \<Rightarrow> f x)"

lemma ebind_simps [simp]:
  "ebind (Inl e) f = Inl e"
  "ebind (Inr x) f = f x"
  by (simp_all add: ebind_def)

lemma ebind_Inr_iff: "ebind r f = Inr y \<longleftrightarrow> (\<exists>x. r = Inr x \<and> f x = Inr y)"
  by (cases r) simp_all

lemma ebind_cong [fundef_cong]:
  "r = r' \<Longrightarrow> (\<And>x. r' = Inr x \<Longrightarrow> f x = f' x) \<Longrightarrow> ebind r f = ebind r' f'"
  by (cases r') (simp_all add: ebind_def)

fun traverse :: "('a \<Rightarrow> py_error + 'b) \<Rightarrow> 'a list \<Rightarrow> py_error + 'b list" where
  "traverse f [] = Inr []"
| "traverse f (x # xs) = ebind (f x) (\<lambda>y. ebind (traverse f xs) (\<lambda>ys. Inr (y # ys)))"

lemma traverse_total: "(\<And>x. x \<in> set xs \<Longrightarrow> f x = Inr (g x)) \<Longrightarrow> traverse f xs = Inr (map g xs)"
  by (induction xs) simp_all

lemma traverse_tagged:
  "(\<And>x. x \<in> set xs \<Longrightarrow> \<exists>y. f x = Inr y) \<Longrightarrow>
   traverse (\<lambda>x. ebind (f x) (\<lambda>y. Inr (x, y))) xs = Inr (map (\<lambda>x. (x, projr (f x))) xs)"
proof (induction xs)
  case (Cons x xs)
  then obtain y where "f x = Inr y" by auto
  with Cons show ?case by simp
qed simp

lemma traverse_length: "traverse f xs = Inr ys \<Longrightarrow> length ys = length xs"
  by (induction xs arbitrary: ys) (auto simp: ebind_Inr_iff)

subsection \<open>Collections of rewrite rules\<close>

named_theorems job_defs \<open>definitions of the batch job manager\<close>
named_theorems sched_defs \<open>definitions of the batch scheduler\<close>
named_theorems store_defs \<open>definitions of the batch storage\<close>
named_theorems reward_defs \<open>definitions of the reward functions\<close>
named_theorems flt_defs \<open>floating point operations\<close>

subsection \<open>Python indexing\<close>

text \<open>\<open>xs[k]\<close>: counted from the front, or from the end when negative; outside the list it raises.\<close>

definition py_index :: "'a list \<Rightarrow> int \<Rightarrow> py_error + 'a" where
  "py_index xs k =
     (if nat k < length xs \<and> k \<ge> 0 then Inr (xs ! nat k)
      else if k < 0 \<and> nat (- k) \<le> length xs then Inr (xs ! (length xs - nat (- k)))
      else Inl IndexError)"

lemma py_index_nat [simp]:
  "i < length xs \<Longrightarrow> py_index xs (int i) = Inr (xs ! i)"
  "\<not> i < length xs \<Longrightarrow> py_index xs (int i) = Inl IndexError"
  by (auto simp: py_index_def)

lemma py_index_last [simp]: "xs \<noteq> [] \<Longrightarrow> py_index xs (-1) = Inr (last xs)"
  by (cases "length xs") (auto simp: py_index_def last_conv_nth)

text \<open>\<open>xs[a:b]\<close>: negative bounds count from the end, bounds out of range are clipped.\<close>

definition slice_bound :: "nat \<Rightarrow> int \<Rightarrow> nat" where
  "slice_bound n i = (if i < 0 then nat (max 0 (int n + i)) else min n (nat i))"

definition py_slice :: "'a list \<Rightarrow> int \<Rightarrow> int \<Rightarrow> 'a list" where
  "py_slice xs a b =
     (let i = slice_bound (length xs) a; j = slice_bound (length xs) b in take (j - i) (drop i xs))"

lemma py_slice_nonneg:
  "0 \<le> a \<Longrightarrow> a \<le> b \<Longrightarrow> py_slice xs a b = take (nat (b - a)) (drop (nat a) xs)"
  by (cases "nat a \<le> length xs")
    (auto simp: py_slice_def slice_bound_def Let_def min_def nat_diff_distrib)

text \<open>The last \<open>k\<close> elements (\<open>xs[-k:]\<close> for a positive \<open>k\<close>, pandas' \<open>tail\<close>).\<close>

definition last_n :: "nat \<Rightarrow> 'a list \<Rightarrow> 'a list" where
  "last_n k xs = drop (length xs - k) xs"

lemma length_last_n [simp]: "length (last_n k xs) = min k (length xs)"
  by (simp add: last_n_def)

lemma last_n_all [simp]: "length xs \<le> k \<Longrightarrow> last_n k xs = xs"
  by (simp add: last_n_def)

lemma set_last_n: "set (last_n k xs) \<subseteq> set xs"
  by (simp add: last_n_def set_drop_subset)

lemma last_n_split: "take (length xs - k) xs @ last_n k xs = xs"
  by (simp add: last_n_def)

lemma last_n_snoc: "0 < k \<Longrightarrow> last_n k (xs @ [x]) = last_n (k - 1) xs @ [x]"
  by (auto simp: last_n_def)

lemma last_n_mono: "j \<le> k \<Longrightarrow> set (last_n j xs) \<subseteq> set (last_n k xs)"
  by (simp add: last_n_def set_drop_subset_set_drop diff_le_mono2)

lemma update_new: "k \<notin> fst ` set al \<Longrightarrow> AList.update k v al = al @ [(k, v)]"
  by (induction al) auto

text \<open>A dict built from a sequence of assignments: a later one replaces the value of an earlier one.\<close>

definition dict_from :: "('k \<times> 'v) list \<Rightarrow> ('k \<times> 'v) list" where
  "dict_from kvs = foldl (\<lambda>d kv. AList.update (fst kv) (snd kv) d) [] kvs"

lemma foldl_update_map_of:
  "map_of (foldl (\<lambda>d kv. AList.update (fst kv) (snd kv) d) d kvs) = map_of d ++ map_of (rev kvs)"
  by (induction kvs arbitrary: d) (auto simp: update_conv' fun_eq_iff map_add_def split: option.splits)

lemma dict_from_distinct: "distinct (map fst kvs) \<Longrightarrow> dict_from kvs = kvs"
proof (induction kvs rule: rev_induct)
  case (snoc kv kvs)
  then show ?case
    by (cases kv) (simp add: dict_from_def update_new)
qed (simp add: dict_from_def)

lemma dict_from_map_of: "map_of (dict_from kvs) = map_of (rev kvs)"
  by (simp add: dict_from_def foldl_update_map_of)

subsection \<open>Counting set flags\<close>

definition count_true :: "bool list \<Rightarrow> nat" where
  "count_true bs = length (filter (\<lambda>b. b) bs)"

lemma count_true_simps [simp]:
  "count_true [] = 0"
  "count_true (b # bs) = (if b then Suc (count_true bs) else count_true bs)"
  "count_true (replicate n False) = 0"
  by (simp_all add: count_true_def)

lemma count_true_le [simp]: "count_true bs \<le> length bs"
  by (simp add: count_true_def)

lemma count_true_set:
  "i < length bs \<Longrightarrow> \<not> bs ! i \<Longrightarrow> count_true (bs[i := True]) = Suc (count_true bs)"
  by (induction bs arbitrary: i) (auto split: nat.splits)

lemma count_true_all: "count_true bs = length bs \<longleftrightarrow> (\<forall>i < length bs. bs ! i)"
proof (induction bs)
  case (Cons b bs)
  have "count_true bs \<noteq> Suc (length bs)"
    using count_true_le [of bs] by linarith
  with Cons show ?case
    by (auto simp: nth_Cons split: nat.splits)
qed simp

lemma count_true_less: "count_true bs < length bs \<longleftrightarrow> (\<exists>i < length bs. \<not> bs ! i)"
  using count_true_all [of bs] count_true_le [of bs] by (auto simp: le_less)

end
