(* ===== verification/RW_Lock.thy ===== *)
theory RW_Lock
  imports Prelude
begin

text \<open>
  The read-write lock that guards the routing agent's model (\<^verbatim>\<open>agent_codes/rwlock.py\<close>, class
  \<open>RWLock\<close>). The three counters are a record; the two condition variables are the sets of threads
  that wait on them, read off the program counters of the threads. Every method body runs under
  \<open>self._lock\<close>, so a method is atomic up to a \<open>wait()\<close>: a thread that is notified runs the test
  of its \<^verbatim>\<open>while\<close> loop again as a further atomic step. Which waiting writer \<open>notify()\<close> wakes is not
  determined, so the steps are a relation.
\<close>

subsection \<open>State\<close>

record rwlock =
  readers :: int
  writers :: int
  waiting_writers :: int

definition rwlock_init :: rwlock where
  "rwlock_init = \<lparr>readers = 0, writers = 0, waiting_writers = 0\<rparr>"

text \<open>
  Where a thread is: outside, blocked in \<open>_read_ready.wait()\<close> or \<open>_write_ready.wait()\<close>, notified
  but not yet past the test of its loop, or inside the critical section.
\<close>

datatype pc = Outside | RWaiting | RNotified | Reading | WWaiting | WNotified | Writing

record rw_sys =
  lock :: rwlock
  pcs :: "pc list"

definition rw_init :: "nat \<Rightarrow> rw_sys" where
  "rw_init n = \<lparr>lock = rwlock_init, pcs = replicate n Outside\<rparr>"

subsection \<open>Operations\<close>

text \<open>\<open>_write_ready.notify()\<close> with the thread it chooses, and \<open>_read_ready.notify_all()\<close>.\<close>

definition notify_writer :: "nat option \<Rightarrow> pc list \<Rightarrow> pc list" where
  "notify_writer w ps = (case w of None \<Rightarrow> ps | Some j \<Rightarrow> ps[j := WNotified])"

definition notify_choice :: "pc list \<Rightarrow> nat option \<Rightarrow> bool" where
  "notify_choice ps w =
     (case w of None \<Rightarrow> WWaiting \<notin> set ps | Some j \<Rightarrow> j < length ps \<and> ps ! j = WWaiting)"

definition notify_all_readers :: "pc list \<Rightarrow> pc list" where
  "notify_all_readers ps = map (\<lambda>p. if p = RWaiting then RNotified else p) ps"

text \<open>
  \<open>read_acquire\<close>, from the test of its loop on: the first entry and the entry after a
  notification run the same code.
\<close>

definition read_acquire :: "nat \<Rightarrow> rw_sys \<Rightarrow> rw_sys" where
  "read_acquire i s =
     (let l = lock s in
      if writers l > 0 \<or> waiting_writers l > 0
      then s\<lparr>pcs := (pcs s)[i := RWaiting]\<rparr>
      else s\<lparr>lock := l\<lparr>readers := readers l + 1\<rparr>, pcs := (pcs s)[i := Reading]\<rparr>)"

definition read_release :: "nat \<Rightarrow> nat option \<Rightarrow> rw_sys \<Rightarrow> rw_sys" where
  "read_release i w s =
     (let l = (lock s)\<lparr>readers := readers (lock s) - 1\<rparr>;
          ps = (pcs s)[i := Outside] in
      if readers l = 0
      then \<lparr>lock = l, pcs = notify_writer w ps\<rparr>
      else \<lparr>lock = l, pcs = ps\<rparr>)"

text \<open>The loop of \<open>write_acquire\<close> and what follows it.\<close>

definition write_test :: "nat \<Rightarrow> rw_sys \<Rightarrow> rw_sys" where
  "write_test i s =
     (let l = lock s in
      if readers l > 0 \<or> writers l > 0
      then s\<lparr>pcs := (pcs s)[i := WWaiting]\<rparr>
      else s\<lparr>lock := l\<lparr>waiting_writers := waiting_writers l - 1, writers := 1\<rparr>,
             pcs := (pcs s)[i := Writing]\<rparr>)"

definition write_acquire :: "nat \<Rightarrow> rw_sys \<Rightarrow> rw_sys" where
  "write_acquire i s =
     write_test i (s\<lparr>lock := (lock s)\<lparr>waiting_writers := waiting_writers (lock s) + 1\<rparr>\<rparr>)"

definition write_release :: "nat \<Rightarrow> nat option \<Rightarrow> rw_sys \<Rightarrow> rw_sys" where
  "write_release i w s =
     \<lparr>lock = (lock s)\<lparr>writers := 0\<rparr>,
      pcs = notify_all_readers (notify_writer w ((pcs s)[i := Outside]))\<rparr>"

definition get_stats :: "rw_sys \<Rightarrow> int \<times> int \<times> int" where
  "get_stats s = (readers (lock s), writers (lock s), waiting_writers (lock s))"

text \<open>
  The context managers \<open>read()\<close> and \<open>write()\<close> pair an acquire with the release of the same
  thread: a thread releases only what it holds.
\<close>

inductive rw_step :: "rw_sys \<Rightarrow> rw_sys \<Rightarrow> bool" where
  read_enter: "i < length (pcs s) \<Longrightarrow> pcs s ! i \<in> {Outside, RNotified} \<Longrightarrow>
     rw_step s (read_acquire i s)"
| read_exit: "i < length (pcs s) \<Longrightarrow> pcs s ! i = Reading \<Longrightarrow>
     notify_choice ((pcs s)[i := Outside]) w \<Longrightarrow> rw_step s (read_release i w s)"
| write_enter: "i < length (pcs s) \<Longrightarrow> pcs s ! i = Outside \<Longrightarrow>
     rw_step s (write_acquire i s)"
| write_retry: "i < length (pcs s) \<Longrightarrow> pcs s ! i = WNotified \<Longrightarrow>
     rw_step s (write_test i s)"
| write_exit: "i < length (pcs s) \<Longrightarrow> pcs s ! i = Writing \<Longrightarrow>
     notify_choice ((pcs s)[i := Outside]) w \<Longrightarrow> rw_step s (write_release i w s)"

inductive rw_reachable :: "nat \<Rightarrow> rw_sys \<Rightarrow> bool" for n where
  rw_start: "rw_reachable n (rw_init n)"
| rw_next: "rw_reachable n s \<Longrightarrow> rw_step s t \<Longrightarrow> rw_reachable n t"

text \<open>
  \<open>RWLockCompat\<close> forwards its lock methods (\<open>__enter__\<close>, \<open>acquire\<close>) to the write lock.
\<close>

definition compat_acquire :: "nat \<Rightarrow> rw_sys \<Rightarrow> rw_sys" where
  "compat_acquire i s = write_acquire i s"

definition compat_release :: "nat \<Rightarrow> nat option \<Rightarrow> rw_sys \<Rightarrow> rw_sys" where
  "compat_release i w s = write_release i w s"

subsection \<open>Counting threads\<close>

definition num :: "pc \<Rightarrow> pc list \<Rightarrow> int" where
  "num p ps = int (count_list ps p)"

lemma num_nonneg: "0 \<le> num p ps"
  by (simp add: num_def)

lemma num_mem: "0 < num p ps \<longleftrightarrow> p \<in> set ps"
  using count_list_0_iff [of ps p] by (auto simp: num_def)

lemma num_at: "i < length ps \<Longrightarrow> 0 < num (ps ! i) ps"
  by (simp add: num_mem)

lemma num_simps [simp]:
  "num p [] = 0"
  "num p (q # ps) = (if q = p then 1 + num p ps else num p ps)"
  "p \<noteq> q \<Longrightarrow> num p (replicate n q) = 0"
  by (simp_all add: num_def count_list_0_iff)

lemma num_update:
  "i < length ps \<Longrightarrow>
   num p (ps[i := q]) = num p ps - (if ps ! i = p then 1 else 0) + (if q = p then 1 else 0)"
  by (induction ps arbitrary: i) (auto split: nat.splits)

lemma num_notify_all:
  "p \<noteq> RWaiting \<Longrightarrow> p \<noteq> RNotified \<Longrightarrow> num p (notify_all_readers ps) = num p ps"
  "num RWaiting (notify_all_readers ps) = 0"
  by (induction ps) (auto simp: notify_all_readers_def)

lemma num_notify_writer:
  "notify_choice ps w \<Longrightarrow>
   num p (notify_writer w ps) =
     num p ps
     + (if w \<noteq> None \<and> p = WNotified then 1 else 0) - (if w \<noteq> None \<and> p = WWaiting then 1 else 0)"
  by (auto simp: notify_choice_def notify_writer_def num_update split: option.splits)

lemma num_notify_choice:
  "notify_choice ps w \<Longrightarrow> w = None \<longleftrightarrow> num WWaiting ps = 0"
  using num_mem [of WWaiting ps] num_nonneg [of WWaiting ps]
  by (auto simp: notify_choice_def split: option.splits dest: nth_mem)

lemmas num_facts = num_update num_notify_all num_notify_writer

subsection \<open>Invariant\<close>

text \<open>
  The counters count the threads; a writer excludes everybody else; a blocked writer with nobody
  inside has a notified colleague; a blocked reader has a writer to wait for.
\<close>

definition rw_inv :: "rw_sys \<Rightarrow> bool" where
  "rw_inv s \<longleftrightarrow>
     (let n = (\<lambda>p. num p (pcs s)) in
      readers (lock s) = n Reading \<and> writers (lock s) = n Writing \<and>
      waiting_writers (lock s) = n WWaiting + n WNotified \<and>
      n Writing \<le> 1 \<and> (n Writing = 0 \<or> n Reading = 0) \<and>
      (n WWaiting > 0 \<and> n Reading = 0 \<and> n Writing = 0 \<longrightarrow> n WNotified > 0) \<and>
      (n RWaiting > 0 \<longrightarrow> n Writing > 0 \<or> n WWaiting + n WNotified > 0))"

lemma rw_inv_init: "rw_inv (rw_init n)"
  by (simp add: rw_inv_def rw_init_def rwlock_init_def)

lemma rw_inv_read_acquire:
  assumes "rw_inv s" "i < length (pcs s)" "pcs s ! i \<in> {Outside, RNotified}"
  shows "rw_inv (read_acquire i s)"
  using assms num_nonneg [of WWaiting "pcs s"] num_nonneg [of WNotified "pcs s"]
    num_nonneg [of Writing "pcs s"]
  by (auto simp: rw_inv_def read_acquire_def Let_def num_facts)

lemma rw_inv_write_test:
  assumes "rw_inv s" "i < length (pcs s)" "pcs s ! i = WNotified"
  shows "rw_inv (write_test i s)"
  using assms num_nonneg [of Reading "pcs s"] num_nonneg [of Writing "pcs s"]
    num_nonneg [of WWaiting "pcs s"]
  by (auto simp: rw_inv_def write_test_def Let_def num_facts)

lemma rw_inv_write_acquire:
  assumes "rw_inv s" "i < length (pcs s)" "pcs s ! i = Outside"
  shows "rw_inv (write_acquire i s)"
  using assms num_nonneg [of Reading "pcs s"] num_nonneg [of Writing "pcs s"]
    num_nonneg [of WWaiting "pcs s"] num_nonneg [of WNotified "pcs s"]
  by (auto simp: rw_inv_def write_acquire_def write_test_def Let_def num_facts)

lemma rw_inv_read_release:
  assumes "rw_inv s" "i < length (pcs s)" "pcs s ! i = Reading"
    and w: "notify_choice ((pcs s)[i := Outside]) w"
  shows "rw_inv (read_release i w s)"
  using assms num_notify_choice [OF w] num_nonneg [of WNotified "pcs s"]
    num_nonneg [of WWaiting "pcs s"] num_at [OF assms(2)]
  by (auto simp: rw_inv_def read_release_def Let_def num_facts)

lemma rw_inv_write_release:
  assumes "rw_inv s" "i < length (pcs s)" "pcs s ! i = Writing"
    and w: "notify_choice ((pcs s)[i := Outside]) w"
  shows "rw_inv (write_release i w s)"
  using assms num_notify_choice [OF w] num_nonneg [of WNotified "pcs s"]
    num_nonneg [of WWaiting "pcs s"] num_at [OF assms(2)]
  by (auto simp: rw_inv_def write_release_def Let_def num_facts)

lemma rw_step_inv: "rw_step s t \<Longrightarrow> rw_inv s \<Longrightarrow> rw_inv t"
  by (induction rule: rw_step.induct)
    (blast intro: rw_inv_read_acquire rw_inv_write_test rw_inv_write_acquire
      rw_inv_read_release rw_inv_write_release)+

lemma rw_reachable_inv: "rw_reachable n s \<Longrightarrow> rw_inv s"
  by (induction rule: rw_reachable.induct) (blast intro: rw_inv_init rw_step_inv)+


lemma rw_step_length: "rw_step s t \<Longrightarrow> length (pcs t) = length (pcs s)"
  by (induction rule: rw_step.induct)
    (auto simp: read_acquire_def read_release_def write_acquire_def write_test_def write_release_def
      notify_all_readers_def notify_writer_def Let_def split: option.splits)

lemma num_two:
  assumes "i < length ps" "j < length ps" "i \<noteq> j" "ps ! i = p" "ps ! j = p"
  shows "2 \<le> num p ps"
proof -
  have "num p ps = num p (ps[i := (if p = Outside then Reading else Outside)]) + 1"
    using assms by (simp add: num_update)
  moreover have "0 < num p (ps[i := (if p = Outside then Reading else Outside)])"
    using num_at [of j "ps[i := (if p = Outside then Reading else Outside)]"] assms by simp
  ultimately show ?thesis by linarith
qed

subsection \<open>Properties\<close>

text \<open>
  C1. Mutual exclusion: in every reachable state of any number of threads, while one thread is
  inside the write lock no other thread is inside the read lock or the write lock.
\<close>

theorem rw_mutual_exclusion:
  assumes "rw_reachable n s" "i < length (pcs s)" "j < length (pcs s)" "i \<noteq> j"
    and "pcs s ! i = Writing"
  shows "pcs s ! j \<noteq> Writing \<and> pcs s ! j \<noteq> Reading"
proof -
  have inv: "rw_inv s" by (rule rw_reachable_inv [OF assms(1)])
  have "num Writing (pcs s) > 0"
    using num_at [OF assms(2)] assms(5) by simp
  with inv have one: "num Writing (pcs s) \<le> 1" "num Reading (pcs s) = 0"
    by (auto simp: rw_inv_def Let_def)
  show ?thesis
    using num_two [OF assms(2,3,4)] num_at [OF assms(3)] one assms(5) by fastforce
qed

theorem rw_mutual_exclusion_witness:
  "rw_reachable 2 (write_acquire 0 (rw_init 2)) \<and>
   pcs (write_acquire 0 (rw_init 2)) ! 1 \<noteq> Reading"
proof -
  let ?s = "write_acquire 0 (rw_init 2)"
  have pcs: "pcs ?s = [Writing, Outside]"
    by (simp add: write_acquire_def write_test_def rw_init_def rwlock_init_def numeral_2_eq_2)
  have "rw_step (rw_init 2) ?s"
    by (rule rw_step.write_enter) (simp_all add: rw_init_def)
  then have r: "rw_reachable 2 ?s"
    by (rule rw_next [OF rw_start])
  from rw_mutual_exclusion [OF r, of 0 1] r pcs show ?thesis by simp
qed

text \<open>
  C2. No deadlock and no lost wake-up: in every reachable state in which some thread is blocked in
  an acquire, either a thread is inside (and will release), or some notified thread gets in when
  it runs its test again.
\<close>

theorem rw_no_deadlock:
  assumes "rw_reachable n s" "i < length (pcs s)"
    and "pcs s ! i \<in> {RWaiting, RNotified, WWaiting, WNotified}"
  shows "\<exists>j < length (pcs s). pcs s ! j \<in> {Reading, Writing}
    \<or> pcs s ! j = WNotified \<and> pcs (write_test j s) ! j = Writing
    \<or> pcs s ! j = RNotified \<and> pcs (read_acquire j s) ! j = Reading"
proof (cases "num Reading (pcs s) = 0 \<and> num Writing (pcs s) = 0")
  case False
  then have "Reading \<in> set (pcs s) \<or> Writing \<in> set (pcs s)"
    using num_mem [of Reading "pcs s"] num_mem [of Writing "pcs s"] num_nonneg
    by (metis order_le_less)
  then show ?thesis by (auto simp: in_set_conv_nth)
next
  case True
  have inv: "rw_inv s" by (rule rw_reachable_inv [OF assms(1)])
  show ?thesis
  proof (cases "WNotified \<in> set (pcs s)")
    case woken: True
    then obtain j where j: "j < length (pcs s)" "pcs s ! j = WNotified"
      by (auto simp: in_set_conv_nth)
    with inv True have "pcs (write_test j s) ! j = Writing"
      by (simp add: write_test_def rw_inv_def Let_def)
    with j show ?thesis by blast
  next
    case False
    with inv True have "num WNotified (pcs s) = 0" "num WWaiting (pcs s) = 0"
      using num_mem [of WNotified "pcs s"] num_nonneg [of WNotified "pcs s"]
        num_nonneg [of WWaiting "pcs s"] by (auto simp: rw_inv_def Let_def)
    with inv True num_at [OF assms(2)] assms(3)
    have "pcs s ! i = RNotified" "pcs (read_acquire i s) ! i = Reading"
      using assms(2) by (auto simp: read_acquire_def rw_inv_def Let_def)
    with assms(2) show ?thesis by blast
  qed
qed

theorem rw_no_deadlock_witness:
  "rw_reachable 2 (read_acquire 1 (write_acquire 0 (rw_init 2))) \<and>
   pcs (read_acquire 1 (write_acquire 0 (rw_init 2))) = [Writing, RWaiting] \<and>
   (\<exists>j < 2. [Writing, RWaiting] ! j \<in> {Reading, Writing})"
proof -
  let ?s = "write_acquire 0 (rw_init 2)"
  let ?t = "read_acquire 1 ?s"
  have s: "?s = \<lparr>lock = \<lparr>readers = 0, writers = 1, waiting_writers = 0\<rparr>, pcs = [Writing, Outside]\<rparr>"
    by (simp add: write_acquire_def write_test_def rw_init_def rwlock_init_def numeral_2_eq_2)
  have t: "pcs ?t = [Writing, RWaiting]"
    unfolding s by (simp add: read_acquire_def)
  have "rw_step (rw_init 2) ?s"
    by (rule rw_step.write_enter) (simp_all add: rw_init_def)
  then have "rw_reachable 2 ?s"
    by (rule rw_next [OF rw_start])
  moreover have "rw_step ?s ?t"
    by (rule rw_step.read_enter) (simp_all add: s)
  ultimately have r: "rw_reachable 2 ?t" by (rule rw_next)
  have "\<exists>j < 2. [Writing, RWaiting] ! j \<in> {Reading, Writing} \<or> [Writing, RWaiting] ! j = WNotified
      \<or> [Writing, RWaiting] ! j = RNotified"
    using rw_no_deadlock [OF r, of 1] unfolding t by (auto simp: numeral_2_eq_2)
  then have "\<exists>j < 2. [Writing, RWaiting] ! j \<in> {Reading, Writing}"
    by (auto simp: less_2_cases_iff)
  with r t show ?thesis by simp
qed

text \<open>
  Writer priority: while a writer waits, no step of any thread enters the read lock.
\<close>

lemma rw_writer_priority:
  assumes "rw_step s t" "waiting_writers (lock s) > 0"
    and "i < length (pcs s)" "pcs t ! i = Reading"
  shows "pcs s ! i = Reading"
  using assms
  by (induction rule: rw_step.induct)
    (auto simp: read_acquire_def read_release_def write_acquire_def write_test_def write_release_def
      notify_all_readers_def notify_writer_def notify_choice_def Let_def nth_list_update
      split: option.splits if_splits)

lemma rw_writer_priority_witness:
  "\<exists>s t. rw_step s t \<and> waiting_writers (lock s) > 0 \<and> pcs t ! 0 = Reading \<and> pcs s ! 0 = Reading"
proof -
  let ?s = "\<lparr>lock = \<lparr>readers = 1, writers = 0, waiting_writers = 1\<rparr>, pcs = [Reading, WWaiting, Outside]\<rparr>"
  have st: "rw_step ?s (read_acquire 2 ?s)"
    by (rule rw_step.read_enter) simp_all
  have t: "pcs (read_acquire 2 ?s) ! 0 = Reading"
    by (simp add: read_acquire_def)
  from rw_writer_priority [OF st, of 0] t have "pcs ?s ! 0 = Reading" by simp
  with st t show ?thesis by (intro exI [of _ ?s] exI [of _ "read_acquire 2 ?s"]) simp
qed

end
