(* ===== verification/JSON_Codec.thy ===== *)
theory JSON_Codec
  imports Prelude "HOL-Library.AList"
begin

text \<open>
  The part of Python's \<^verbatim>\<open>json\<close> module the batch storage uses: \<open>dumps\<close> with the default separators
  and ASCII escapes, and \<open>loads\<close>. Strings are over the characters 0 to 255. A float is kept as the
  text of its literal. The parser is the recursive descent of \<^verbatim>\<open>json.decoder\<close>, with the nesting
  depth bounded by a fuel that the length of the text always covers (\<open>loads_fuel\<close>).
\<close>

datatype json =
    JNull
  | JBool bool
  | JInt int
  | JFloat string
  | JStr string
  | JArr "json list"
  | JObj "(string \<times> json) list"

subsection \<open>Characters and numbers\<close>

definition code :: "char \<Rightarrow> nat" where
  "code c = of_char c"

definition is_digit :: "char \<Rightarrow> bool" where
  "is_digit c \<longleftrightarrow> 48 \<le> code c \<and> code c \<le> 57"

definition digit_char :: "nat \<Rightarrow> char" where
  "digit_char n = char_of (48 + n)"

definition digit_val :: "char \<Rightarrow> nat" where
  "digit_val c = code c - 48"

fun nat_str :: "nat \<Rightarrow> string" where
  "nat_str n = (if n < 10 then [digit_char n] else nat_str (n div 10) @ [digit_char (n mod 10)])"

declare nat_str.simps [simp del]

definition int_str :: "int \<Rightarrow> string" where
  "int_str i = (if i < 0 then CHR ''-'' # nat_str (nat (- i)) else nat_str (nat i))"

definition nat_of :: "string \<Rightarrow> nat" where
  "nat_of s = foldl (\<lambda>a c. 10 * a + digit_val c) 0 s"

definition int_of :: "string \<Rightarrow> int" where
  "int_of s = (case s of c # r \<Rightarrow> if c = CHR ''-'' then - int (nat_of r) else int (nat_of s) | [] \<Rightarrow> 0)"

text \<open>The three groups of the number pattern; the empty string is no match.\<close>

definition num_nat :: "string \<Rightarrow> string" where
  "num_nat s = (case s of c # r \<Rightarrow> if c = CHR ''0'' then [c] else takeWhile is_digit s | [] \<Rightarrow> [])"

definition num_int :: "string \<Rightarrow> string" where
  "num_int s =
     (case s of
        c # r \<Rightarrow> if c = CHR ''-'' then (if num_nat r = [] then [] else c # num_nat r) else num_nat s
      | [] \<Rightarrow> [])"

definition num_frac :: "string \<Rightarrow> string" where
  "num_frac s =
     (case s of
        c # r \<Rightarrow> if c = CHR ''.'' \<and> takeWhile is_digit r \<noteq> [] then c # takeWhile is_digit r else []
      | [] \<Rightarrow> [])"

definition num_sign :: "string \<Rightarrow> string" where
  "num_sign s = (case s of c # r \<Rightarrow> if c = CHR ''+'' \<or> c = CHR ''-'' then [c] else [] | [] \<Rightarrow> [])"

definition num_exp :: "string \<Rightarrow> string" where
  "num_exp s =
     (case s of
        c # r \<Rightarrow>
          (let g = num_sign r; ds = takeWhile is_digit (drop (length g) r) in
           if (c = CHR ''e'' \<or> c = CHR ''E'') \<and> ds \<noteq> [] then c # g @ ds else [])
      | [] \<Rightarrow> [])"

definition parse_number :: "string \<Rightarrow> (json \<times> string) option" where
  "parse_number s =
     (let ip = num_int s; r1 = drop (length ip) s;
          fr = num_frac r1; r2 = drop (length fr) r1;
          ex = num_exp r2; r3 = drop (length ex) r2
      in if ip = [] then None
         else if fr = [] \<and> ex = [] then Some (JInt (int_of ip), r3)
         else Some (JFloat (ip @ fr @ ex), r3))"

text \<open>A literal followed by one of the non-numeric characters is read up to that character.\<close>

definition num_end :: "string \<Rightarrow> bool" where
  "num_end r \<longleftrightarrow> (case r of c # _ \<Rightarrow> \<not> is_digit c \<and> c \<notin> set ''.eE'' | [] \<Rightarrow> True)"

lemma takeWhile_num_end: "num_end r \<Longrightarrow> takeWhile is_digit (s @ r) = takeWhile is_digit s"
  by (induction s) (auto simp: num_end_def split: list.splits)

lemma num_nat_append: "s \<noteq> [] \<Longrightarrow> num_end r \<Longrightarrow> num_nat (s @ r) = num_nat s"
  using takeWhile_num_end [of r s] by (cases s) (auto simp: num_nat_def)

lemma num_nat_num_end: "num_end r \<Longrightarrow> num_nat r = []"
  by (auto simp: num_nat_def num_end_def is_digit_def code_def split: list.splits)

lemma num_int_append: "s \<noteq> [] \<Longrightarrow> num_end r \<Longrightarrow> num_int (s @ r) = num_int s"
  using num_nat_append [of s r] num_nat_append [of "tl s" r] num_nat_num_end [of r]
  by (cases s; cases "tl s") (auto simp: num_int_def num_nat_def)

lemma num_frac_append: "num_end r \<Longrightarrow> num_frac (s @ r) = num_frac s"
  using takeWhile_num_end [of r "tl s"]
  by (cases s) (auto simp: num_frac_def num_end_def split: list.splits)

lemma num_exp_append:
  assumes "num_end r" and "num_exp s \<noteq> [] \<or> s = []"
  shows "num_exp (s @ r) = num_exp s"
proof (cases s)
  case Nil
  then show ?thesis
    using assms(1) by (auto simp: num_exp_def num_end_def split: list.splits)
next
  case (Cons c t)
  with assms(2) have t: "t \<noteq> []"
    by (auto simp: num_exp_def num_sign_def Let_def)
  then have g: "num_sign (t @ r) = num_sign t"
    by (auto simp: num_sign_def neq_Nil_conv)
  have "length (num_sign t) \<le> length t"
    using t by (auto simp: num_sign_def neq_Nil_conv)
  then show ?thesis
    using takeWhile_num_end [OF assms(1), of "drop (length (num_sign t)) t"] Cons g
    by (simp add: num_exp_def Let_def)
qed

lemma takeWhile_split [simp]: "takeWhile P xs @ drop (length (takeWhile P xs)) xs = xs"
  by (simp add: dropWhile_eq_drop [symmetric])

lemma num_nat_split: "num_nat s @ drop (length (num_nat s)) s = s"
  by (auto simp: num_nat_def split: list.splits)

lemma num_int_split: "num_int s @ drop (length (num_int s)) s = s"
  using num_nat_split [of s] num_nat_split [of "tl s"]
  by (auto simp: num_int_def split: list.splits)

lemma num_frac_split: "num_frac s @ drop (length (num_frac s)) s = s"
  by (auto simp: num_frac_def split: list.splits)

lemma num_exp_split: "num_exp s @ drop (length (num_exp s)) s = s"
  by (auto simp: num_exp_def num_sign_def Let_def split: list.splits)

lemma split_length: "p @ drop (length p) s = s \<Longrightarrow> length p \<le> length s"
  by (metis length_append le_add1)

lemmas num_lengths =
  split_length [OF num_int_split] split_length [OF num_frac_split] split_length [OF num_exp_split]

lemma parse_number_append:
  assumes p: "parse_number s = Some (v, [])" and r: "num_end r"
  shows "parse_number (s @ r) = Some (v, r)"
proof -
  define r1 where "r1 = drop (length (num_int s)) s"
  define r2 where "r2 = drop (length (num_frac r1)) r1"
  have s: "s \<noteq> []"
    using p by (auto simp: parse_number_def num_int_def)
  have fin: "drop (length (num_exp r2)) r2 = []"
    using p by (auto simp: parse_number_def Let_def r1_def r2_def split: if_splits)
  have l3: "length (num_exp r2) = length r2"
    using fin num_lengths(3) [of r2] by simp
  have e: "num_exp (r2 @ r) = num_exp r2"
    using num_exp_append [OF r, of r2] l3 by fastforce
  show ?thesis
    using p num_lengths(1) [of s] num_lengths(2) [of r1] l3
      num_int_append [OF s r] num_frac_append [OF r, of r1] e
    by (auto simp: parse_number_def Let_def r1_def r2_def split: if_splits)
qed

lemma code_digit_char: "n < 10 \<Longrightarrow> code (digit_char n) = 48 + n"
  by (simp add: code_def digit_char_def)

lemma code_inject: "code c = code d \<longleftrightarrow> c = d"
  by (simp add: code_def)

lemma code_less: "code c < 256"
  using nat_of_char_less_256 [of c] by (simp add: code_def)

lemma code_char_of: "n < 256 \<Longrightarrow> code (char_of n) = n"
  by (simp add: code_def)

lemma char_of_code: "char_of (code c) = c"
  by (simp add: code_def)

lemma digit_char_0: "digit_char 0 = CHR ''0''"
  using code_digit_char [of 0] code_inject [of "digit_char 0" "CHR ''0''"] by (simp add: code_def)

lemma digit_char_props:
  assumes "n < 10"
  shows "is_digit (digit_char n)" "digit_val (digit_char n) = n"
    and "digit_char n = CHR ''0'' \<longleftrightarrow> n = 0"
proof -
  show "is_digit (digit_char n)" "digit_val (digit_char n) = n"
    using assms by (simp_all add: is_digit_def digit_val_def code_digit_char)
  have "code (CHR ''0'') = 48"
    by (simp add: code_def)
  then show "digit_char n = CHR ''0'' \<longleftrightarrow> n = 0"
    using code_digit_char [OF assms] digit_char_0 by auto
qed

lemma nat_of_snoc [simp]: "nat_of (s @ [c]) = 10 * nat_of s + digit_val c"
  by (simp add: nat_of_def)

lemma nat_str_props:
  "nat_of (nat_str n) = n \<and> list_all is_digit (nat_str n) \<and> nat_str n \<noteq> []
   \<and> (hd (nat_str n) = CHR ''0'' \<longrightarrow> nat_str n = ''0'')"
proof (induction n rule: nat_str.induct)
  case (1 n)
  show ?case
  proof (cases "n < 10")
    case True
    then show ?thesis
      by (auto simp: nat_str.simps [of n] nat_str.simps [of 0] nat_of_def digit_char_props digit_char_0)
  next
    case False
    then have "nat_of (nat_str (n div 10)) = n div 10" "n div 10 \<noteq> 0"
      using 1 by auto
    moreover have "nat_of ''0'' = 0"
      by (simp add: nat_of_def digit_val_def code_def)
    ultimately have "nat_str (n div 10) \<noteq> ''0''"
      by metis
    with False 1 show ?thesis
      by (simp add: nat_str.simps [of n] digit_char_props)
  qed
qed

lemma num_int_str:
  "num_int (int_str i) = int_str i" "int_of (int_str i) = i" "int_str i \<noteq> []"
proof -
  have n: "num_nat (nat_str n) = nat_str n" for n
    using nat_str_props [of n]
    by (cases "nat_str n") (auto simp: num_nat_def list_all_iff)
  have m: "hd (nat_str n) \<noteq> CHR ''-''" for n
    using nat_str_props [of n]
    by (cases "nat_str n") (auto simp: is_digit_def code_def)
  show "num_int (int_str i) = int_str i"
    using n [of "nat i"] n [of "nat (- i)"] m [of "nat i"] nat_str_props [of "nat (- i)"]
    by (cases "nat_str (nat i)") (auto simp: num_int_def int_str_def)
  show "int_of (int_str i) = i"
    using nat_str_props [of "nat i"] nat_str_props [of "nat (- i)"] m [of "nat i"]
    by (cases "nat_str (nat i)") (auto simp: int_of_def int_str_def)
  show "int_str i \<noteq> []"
    using nat_str_props [of "nat i"] by (auto simp: int_str_def)
qed

lemma parse_number_int: "parse_number (int_str i) = Some (JInt i, [])"
  by (simp add: parse_number_def Let_def num_int_str num_frac_def num_exp_def)

subsection \<open>Strings\<close>

definition hex_char :: "nat \<Rightarrow> char" where
  "hex_char n = (if n < 10 then char_of (48 + n) else char_of (87 + n))"

definition hex_val :: "char \<Rightarrow> nat option" where
  "hex_val c =
     (if is_digit c then Some (code c - 48)
      else if 97 \<le> code c \<and> code c \<le> 102 then Some (code c - 87)
      else if 65 \<le> code c \<and> code c \<le> 70 then Some (code c - 55)
      else None)"

text \<open>\<open>ESCAPE_ASCII\<close>: quote, backslash and everything outside the range from space to tilde.\<close>

definition escape_char :: "char \<Rightarrow> string" where
  "escape_char c =
     (if c = CHR 0x22 then [CHR 0x5C, CHR 0x22]
      else if c = CHR 0x5C then [CHR 0x5C, CHR 0x5C]
      else if c = CHR 0x0A then [CHR 0x5C, CHR ''n'']
      else if c = CHR 0x0D then [CHR 0x5C, CHR ''r'']
      else if c = CHR 0x09 then [CHR 0x5C, CHR ''t'']
      else if c = CHR 0x0C then [CHR 0x5C, CHR ''f'']
      else if c = CHR 0x08 then [CHR 0x5C, CHR ''b'']
      else if 32 \<le> code c \<and> code c \<le> 126 then [c]
      else [CHR 0x5C, CHR ''u'', CHR ''0'', CHR ''0'', hex_char (code c div 16), hex_char (code c mod 16)])"

definition quote_str :: "string \<Rightarrow> string" where
  "quote_str s = CHR 0x22 # concat (map escape_char s) @ [CHR 0x22]"

text \<open>The body of a string literal after its opening quote: the text and what follows it.\<close>

definition unescape1 :: "char \<Rightarrow> char option" where
  "unescape1 c =
     (if c = CHR 0x22 \<or> c = CHR 0x5C \<or> c = CHR ''/'' then Some c
      else if c = CHR ''n'' then Some (CHR 0x0A)
      else if c = CHR ''r'' then Some (CHR 0x0D)
      else if c = CHR ''t'' then Some (CHR 0x09)
      else if c = CHR ''f'' then Some (CHR 0x0C)
      else if c = CHR ''b'' then Some (CHR 0x08)
      else None)"

definition hex4 :: "char \<Rightarrow> char \<Rightarrow> char \<Rightarrow> char \<Rightarrow> char option" where
  "hex4 a b c d =
     (case (hex_val a, hex_val b, hex_val c, hex_val d) of
        (Some a', Some b', Some c', Some d') \<Rightarrow>
          if a' = 0 \<and> b' = 0 then Some (char_of (16 * c' + d')) else None
      | _ \<Rightarrow> None)"

definition push_char :: "char \<Rightarrow> (string \<times> string) option \<Rightarrow> (string \<times> string) option" where
  "push_char c r = map_option (\<lambda>(s, rest). (c # s, rest)) r"

fun parse_str :: "string \<Rightarrow> (string \<times> string) option" where
  "parse_str [] = None"
| "parse_str (c # r) =
     (if c = CHR 0x22 then Some ([], r)
      else if c = CHR 0x5C then
        (case r of
           [] \<Rightarrow> None
         | e # r1 \<Rightarrow>
             if e = CHR ''u'' then
               (case r1 of
                  h1 # h2 # h3 # h4 # r2 \<Rightarrow>
                    (case hex4 h1 h2 h3 h4 of None \<Rightarrow> None | Some x \<Rightarrow> push_char x (parse_str r2))
                | _ \<Rightarrow> None)
             else (case unescape1 e of None \<Rightarrow> None | Some x \<Rightarrow> push_char x (parse_str r1)))
      else if code c < 32 then None
      else push_char c (parse_str r))"

declare parse_str.simps [simp del]

lemma hex_val_char: "n < 16 \<Longrightarrow> hex_val (hex_char n) = Some n"
  by (simp add: hex_val_def hex_char_def is_digit_def code_char_of)

lemma hex_val_0: "hex_val (CHR ''0'') = Some 0"
  by (simp add: hex_val_def is_digit_def code_def)

lemma parse_str_escape: "parse_str (escape_char c @ r) = push_char c (parse_str r)"
proof -
  have "hex4 (CHR ''0'') (CHR ''0'') (hex_char (code c div 16)) (hex_char (code c mod 16)) = Some c"
    using code_less [of c] char_of_code [of c]
    by (simp add: hex4_def hex_val_0 hex_val_char div_less_iff_less_mult)
  then show ?thesis
    by (simp add: escape_char_def parse_str.simps(2) unescape1_def)
qed

lemma parse_str_quote:
  "parse_str (concat (map escape_char s) @ CHR 0x22 # r) = Some (s, r)"
proof (induction s)
  case Nil
  then show ?case
    by (simp add: parse_str.simps(2))
next
  case (Cons c s)
  then show ?case
    by (simp add: parse_str_escape push_char_def)
qed

subsection \<open>Values\<close>

definition is_ws :: "char \<Rightarrow> bool" where
  "is_ws c \<longleftrightarrow> c = CHR '' '' \<or> c = CHR 0x09 \<or> c = CHR 0x0A \<or> c = CHR 0x0D"

definition skip_ws :: "string \<Rightarrow> string" where
  "skip_ws s = dropWhile is_ws s"

definition literal :: "string \<Rightarrow> json \<Rightarrow> string \<Rightarrow> (json \<times> string) option" where
  "literal w v s = (if take (length w) s = w then Some (v, drop (length w) s) else None)"

definition orelse :: "'a option \<Rightarrow> 'a option \<Rightarrow> 'a option" where
  "orelse a b = (case a of None \<Rightarrow> b | Some x \<Rightarrow> Some x)"

text \<open>The constants and the numbers, in the order of the scanner.\<close>

definition parse_atom :: "string \<Rightarrow> (json \<times> string) option" where
  "parse_atom s =
     orelse (literal ''null'' JNull s)
     (orelse (literal ''true'' (JBool True) s)
     (orelse (literal ''false'' (JBool False) s)
     (orelse (parse_number s)
     (orelse (literal ''NaN'' (JFloat ''NaN'') s)
     (orelse (literal ''Infinity'' (JFloat ''Infinity'') s)
             (literal ''-Infinity'' (JFloat ''-Infinity'') s))))))"

text \<open>\<open>dict(pairs)\<close>: a repeated key keeps its place and takes the later value.\<close>

definition dict_of :: "(string \<times> json) list \<Rightarrow> (string \<times> json) list" where
  "dict_of kvs = foldl (\<lambda>d (k, v). AList.update k v d) [] kvs"

fun parse_value :: "nat \<Rightarrow> string \<Rightarrow> (json \<times> string) option"
  and parse_elems :: "nat \<Rightarrow> string \<Rightarrow> (json list \<times> string) option"
  and parse_members :: "nat \<Rightarrow> string \<Rightarrow> ((string \<times> json) list \<times> string) option"
where
  "parse_value 0 s = None"
| "parse_value (Suc n) s =
     (case s of
        [] \<Rightarrow> None
      | c # r \<Rightarrow>
          if c = CHR 0x22 then map_option (\<lambda>(t, r'). (JStr t, r')) (parse_str r)
          else if c = CHR ''{'' then
            (case skip_ws r of
               [] \<Rightarrow> None
             | d # r' \<Rightarrow>
                 if d = CHR ''}'' then Some (JObj [], r')
                 else map_option (\<lambda>(kvs, r''). (JObj (dict_of kvs), r'')) (parse_members n (d # r')))
          else if c = CHR ''['' then
            (case skip_ws r of
               [] \<Rightarrow> None
             | d # r' \<Rightarrow>
                 if d = CHR '']'' then Some (JArr [], r')
                 else map_option (\<lambda>(vs, r''). (JArr vs, r'')) (parse_elems n (d # r')))
          else parse_atom s)"
| "parse_elems 0 s = None"
| "parse_elems (Suc n) s =
     (case parse_value n s of
        None \<Rightarrow> None
      | Some (v, r) \<Rightarrow>
          (case skip_ws r of
             [] \<Rightarrow> None
           | d # r' \<Rightarrow>
               if d = CHR '']'' then Some ([v], r')
               else if d = CHR '','' then
                 map_option (\<lambda>(vs, r''). (v # vs, r'')) (parse_elems n (skip_ws r'))
               else None))"
| "parse_members 0 s = None"
| "parse_members (Suc n) s =
     (case s of
        [] \<Rightarrow> None
      | q # s' \<Rightarrow>
          if q \<noteq> CHR 0x22 then None
          else
            (case parse_str s' of
               None \<Rightarrow> None
             | Some (k, r) \<Rightarrow>
                 (case skip_ws r of
                    [] \<Rightarrow> None
                  | d # r' \<Rightarrow>
                      if d \<noteq> CHR '':'' then None
                      else
                        (case parse_value n (skip_ws r') of
                           None \<Rightarrow> None
                         | Some (v, r1) \<Rightarrow>
                             (case skip_ws r1 of
                                [] \<Rightarrow> None
                              | e # r2 \<Rightarrow>
                                  if e = CHR ''}'' then Some ([(k, v)], r2)
                                  else if e = CHR '','' then
                                    map_option (\<lambda>(kvs, r3). ((k, v) # kvs, r3))
                                      (parse_members n (skip_ws r2))
                                  else None)))))"

definition json_loads :: "string \<Rightarrow> py_error + json" where
  "json_loads s =
     (case parse_value (2 * length s + 2) (skip_ws s) of
        None \<Rightarrow> Inl ValueError
      | Some (v, r) \<Rightarrow> if skip_ws r = [] then Inr v else Inl ValueError)"

fun join :: "string \<Rightarrow> string list \<Rightarrow> string" where
  "join sep [] = []"
| "join sep [x] = x"
| "join sep (x # y # ys) = x @ sep @ join sep (y # ys)"

fun json_dumps :: "json \<Rightarrow> string" where
  "json_dumps JNull = ''null''"
| "json_dumps (JBool b) = (if b then ''true'' else ''false'')"
| "json_dumps (JInt i) = int_str i"
| "json_dumps (JFloat l) = l"
| "json_dumps (JStr s) = quote_str s"
| "json_dumps (JArr vs) = ''['' @ join '', '' (map json_dumps vs) @ '']''"
| "json_dumps (JObj kvs) =
     ''{'' @ join '', '' (map (\<lambda>kv. quote_str (fst kv) @ '': '' @ json_dumps (snd kv)) kvs) @ ''}''"

text \<open>The values Python can hold: float literals are literals, and a dict has distinct keys.\<close>

definition float_lit :: "string \<Rightarrow> bool" where
  "float_lit l \<longleftrightarrow> parse_number l = Some (JFloat l, []) \<or> l \<in> {''NaN'', ''Infinity'', ''-Infinity''}"

fun json_valid :: "json \<Rightarrow> bool" where
  "json_valid (JFloat l) = float_lit l"
| "json_valid (JArr vs) = (\<forall>v \<in> set vs. json_valid v)"
| "json_valid (JObj kvs) = (distinct (map fst kvs) \<and> (\<forall>kv \<in> set kvs. json_valid (snd kv)))"
| "json_valid _ = True"

declare parse_value.simps [simp del] parse_elems.simps [simp del] parse_members.simps [simp del]

subsection \<open>Decoding an encoding\<close>

lemma parse_number_head:
  assumes "parse_number s = Some x"
  obtains c t where "s = c # t" "is_digit c \<or> c = CHR ''-''"
proof (cases s)
  case Nil
  then show ?thesis
    using assms by (simp add: parse_number_def num_int_def)
next
  case (Cons c t)
  have "is_digit c \<or> c = CHR ''-''"
  proof (rule ccontr)
    assume "\<not> ?thesis"
    moreover have "is_digit (CHR ''0'')"
      by (simp add: is_digit_def code_def)
    ultimately have "num_int s = []"
      using Cons by (auto simp: num_int_def num_nat_def)
    then show False
      using assms by (simp add: parse_number_def)
  qed
  with Cons show ?thesis
    using that by blast
qed

lemma not_digit [simp]:
  "\<not> is_digit (CHR ''n'')" "\<not> is_digit (CHR ''t'')" "\<not> is_digit (CHR ''f'')"
  "\<not> is_digit (CHR ''N'')" "\<not> is_digit (CHR ''I'')" "\<not> is_digit (CHR ''{'')"
  "\<not> is_digit (CHR ''['')" "\<not> is_digit (CHR 0x22)" "\<not> is_digit (CHR '' '')"
  "\<not> is_digit (CHR '']'')" "\<not> is_digit (CHR '','')" "\<not> is_digit (CHR ''}'')"
  "\<not> is_digit (CHR 0x09)" "\<not> is_digit (CHR 0x0A)" "\<not> is_digit (CHR 0x0D)" "\<not> is_digit (CHR '':'')"
  "\<not> is_digit (CHR ''-'')" "\<not> is_digit (CHR ''+'')"
  by (simp_all add: is_digit_def code_def)

lemma parse_atom_number:
  assumes "parse_number s = Some x"
  shows "parse_atom s = Some x"
proof -
  obtain c t where s: "s = c # t" and c: "is_digit c \<or> c = CHR ''-''"
    using assms by (rule parse_number_head)
  have "c \<noteq> CHR ''n''" "c \<noteq> CHR ''t''" "c \<noteq> CHR ''f''"
    using c by auto
  then show ?thesis
    using assms s by (simp add: parse_atom_def literal_def orelse_def)
qed

lemma parse_number_letter:
  assumes "c \<in> {CHR ''n'', CHR ''t'', CHR ''f'', CHR ''N'', CHR ''I''}"
  shows "parse_number (c # t) = None"
proof (rule ccontr)
  assume "parse_number (c # t) \<noteq> None"
  then obtain x where "parse_number (c # t) = Some x"
    by blast
  then obtain d u where "c # t = d # u" "is_digit d \<or> d = CHR ''-''"
    by (rule parse_number_head)
  then show False
    using assms by auto
qed

lemma parse_number_minus_inf: "parse_number (CHR ''-'' # CHR ''I'' # t) = None"
  by (simp add: parse_number_def num_int_def num_nat_def)

lemma parse_atom_consts:
  "parse_atom (''null'' @ r) = Some (JNull, r)"
  "parse_atom (''true'' @ r) = Some (JBool True, r)"
  "parse_atom (''false'' @ r) = Some (JBool False, r)"
  "parse_atom (''NaN'' @ r) = Some (JFloat ''NaN'', r)"
  "parse_atom (''Infinity'' @ r) = Some (JFloat ''Infinity'', r)"
  "parse_atom (''-Infinity'' @ r) = Some (JFloat ''-Infinity'', r)"
  by (simp_all add: parse_atom_def literal_def orelse_def parse_number_letter parse_number_minus_inf)

lemma parse_value_atom:
  "s = c # t \<Longrightarrow> c \<notin> {CHR 0x22, CHR ''{'', CHR ''[''} \<Longrightarrow> parse_value (Suc n) s = parse_atom s"
  by (simp add: parse_value.simps)

lemma parse_value_float:
  assumes "float_lit l" and "num_end r"
  shows "parse_value (Suc n) (l @ r) = Some (JFloat l, r)"
proof (cases "parse_number l = Some (JFloat l, [])")
  case True
  then have p: "parse_number (l @ r) = Some (JFloat l, r)"
    using parse_number_append assms(2) by blast
  then obtain c t where "l @ r = c # t" "is_digit c \<or> c = CHR ''-''"
    by (rule parse_number_head)
  then show ?thesis
    using parse_atom_number [OF p] by (subst parse_value_atom) auto
next
  case False
  then show ?thesis
    using assms(1) parse_atom_consts [of r] by (auto simp: float_lit_def parse_value_atom)
qed

lemma parse_value_int:
  assumes "num_end r"
  shows "parse_value (Suc n) (int_str i @ r) = Some (JInt i, r)"
proof -
  have p: "parse_number (int_str i @ r) = Some (JInt i, r)"
    using parse_number_append [OF parse_number_int assms] .
  then obtain c t where "int_str i @ r = c # t" "is_digit c \<or> c = CHR ''-''"
    by (rule parse_number_head)
  then show ?thesis
    using parse_atom_number [OF p] by (subst parse_value_atom) auto
qed

lemma parse_value_str: "parse_value (Suc n) (quote_str s @ r) = Some (JStr s, r)"
  by (simp add: parse_value.simps quote_str_def parse_str_quote)

text \<open>The first character of an encoding is no white space and closes nothing.\<close>

lemma num_head: "is_digit c \<or> c = CHR ''-'' \<Longrightarrow> \<not> is_ws c \<and> c \<noteq> CHR '']''"
  by (auto simp: is_ws_def)

lemma float_head:
  assumes "float_lit l"
  obtains c t where "l = c # t" "\<not> is_ws c" "c \<noteq> CHR '']''"
proof (cases "parse_number l = Some (JFloat l, [])")
  case True
  then obtain c t where "l = c # t" "is_digit c \<or> c = CHR ''-''"
    by (rule parse_number_head)
  then show ?thesis
    using that num_head by blast
next
  case False
  then show ?thesis
    using that assms by (fastforce simp: float_lit_def is_ws_def)
qed

lemma json_dumps_head:
  assumes "json_valid v"
  shows "\<exists>c t. json_dumps v = c # t \<and> \<not> is_ws c \<and> c \<noteq> CHR '']''"
proof (cases v)
  case (JInt i)
  obtain c t where "int_str i = c # t" "is_digit c \<or> c = CHR ''-''"
    using parse_number_int by (rule parse_number_head)
  then show ?thesis
    using JInt num_head by auto
next
  case (JFloat l)
  then show ?thesis
    using assms by (metis float_head json_dumps.simps(4) json_valid.simps(1))
qed (simp_all add: is_ws_def quote_str_def)

lemma skip_ws_simps [simp]:
  "\<not> is_ws c \<Longrightarrow> skip_ws (c # s) = c # s"
  "skip_ws (CHR '' '' # s) = skip_ws s"
  "skip_ws [] = []"
  by (simp_all add: skip_ws_def is_ws_def)

lemma not_ws [simp]:
  "\<not> is_ws (CHR '','')" "\<not> is_ws (CHR '']'')" "\<not> is_ws (CHR ''}'')" "\<not> is_ws (CHR '':'')" "\<not> is_ws (CHR 0x22)"
  by (simp_all add: is_ws_def)

lemma num_end_punct [simp]:
  "num_end []" "num_end (CHR '','' # r)" "num_end (CHR '']'' # r)" "num_end (CHR ''}'' # r)" "num_end (CHR 0x0A # r)"
  by (simp_all add: num_end_def)

definition reads_back :: "json \<Rightarrow> bool" where
  "reads_back v \<longleftrightarrow>
     (\<forall>n r. num_end r \<longrightarrow> 2 * length (json_dumps v) + 1 \<le> n \<longrightarrow> parse_value n (json_dumps v @ r) = Some (v, r))"

lemma reads_backD:
  "reads_back v \<Longrightarrow> num_end r \<Longrightarrow> 2 * length (json_dumps v) + 1 \<le> n \<Longrightarrow>
   parse_value n (json_dumps v @ r) = Some (v, r)"
  by (simp add: reads_back_def)

lemma reads_backI:
  assumes "\<And>n r. num_end r \<Longrightarrow> parse_value (Suc n) (json_dumps v @ r) = Some (v, r)"
  shows "reads_back v"
  unfolding reads_back_def
proof (intro allI impI)
  fix n r
  assume "num_end r" "2 * length (json_dumps v) + 1 \<le> n"
  then show "parse_value n (json_dumps v @ r) = Some (v, r)"
    using assms by (cases n) auto
qed

lemma skip_ws_dumps: "json_valid v \<Longrightarrow> skip_ws (json_dumps v @ r) = json_dumps v @ r"
  using json_dumps_head [of v] by auto

lemma skip_ws_join:
  "vs \<noteq> [] \<Longrightarrow> \<forall>v \<in> set vs. json_valid v \<Longrightarrow>
   skip_ws (join '', '' (map json_dumps vs) @ r) = join '', '' (map json_dumps vs) @ r"
  by (induction vs rule: induct_list012) (simp_all add: skip_ws_dumps)

lemma parse_elems_join:
  assumes "vs \<noteq> []" and "\<forall>v \<in> set vs. json_valid v \<and> reads_back v"
    and "2 * length (join '', '' (map json_dumps vs)) + 3 \<le> n"
  shows "parse_elems n (join '', '' (map json_dumps vs) @ CHR '']'' # r) = Some (vs, r)"
  using assms
proof (induction vs arbitrary: n rule: induct_list012)
  case (2 v)
  then obtain m where "n = Suc m"
    by (cases n) auto
  with 2 show ?case
    using reads_backD [of v "CHR '']'' # r" m] by (simp add: parse_elems.simps)
next
  case (3 v w vs)
  then obtain m where n: "n = Suc m"
    by (cases n) auto
  let ?rest = "join '', '' (map json_dumps (w # vs)) @ CHR '']'' # r"
  have "parse_value m (json_dumps v @ '', '' @ ?rest) = Some (v, '', '' @ ?rest)"
    using 3 n by (intro reads_backD) auto
  moreover have "skip_ws (CHR '' '' # ?rest) = ?rest"
    using skip_ws_join [of "w # vs"] 3 by simp
  moreover have "parse_elems m ?rest = Some (w # vs, r)"
    using 3 n by (intro 3(2)) auto
  ultimately show ?case
    using n by (simp add: parse_elems.simps)
qed simp

definition member_str :: "string \<times> json \<Rightarrow> string" where
  "member_str kv = quote_str (fst kv) @ '': '' @ json_dumps (snd kv)"

lemma parse_members_join:
  assumes "kvs \<noteq> []" and "\<forall>kv \<in> set kvs. json_valid (snd kv) \<and> reads_back (snd kv)"
    and "2 * length (join '', '' (map member_str kvs)) + 3 \<le> n"
  shows "parse_members n (join '', '' (map member_str kvs) @ CHR ''}'' # r) = Some (kvs, r)"
  using assms
proof (induction kvs arbitrary: n rule: induct_list012)
  case (2 kv)
  then obtain m where n: "n = Suc m"
    by (cases n) auto
  have "parse_value m (json_dumps (snd kv) @ CHR ''}'' # r) = Some (snd kv, CHR ''}'' # r)"
    using 2 n by (intro reads_backD) (auto simp: member_str_def)
  then show ?case
    using n 2 skip_ws_dumps [of "snd kv"]
    by (simp add: parse_members.simps member_str_def quote_str_def parse_str_quote)
next
  case (3 kv kw kvs)
  then obtain m where n: "n = Suc m"
    by (cases n) auto
  let ?rest = "join '', '' (map member_str (kw # kvs)) @ CHR ''}'' # r"
  have q: "\<exists>t. ?rest = CHR 0x22 # t"
    by (cases kvs) (simp_all add: member_str_def quote_str_def)
  have "parse_value m (json_dumps (snd kv) @ '', '' @ ?rest) = Some (snd kv, '', '' @ ?rest)"
    using 3 n by (intro reads_backD) (auto simp: member_str_def)
  moreover have "skip_ws (CHR '' '' # ?rest) = ?rest"
    using q by auto
  moreover have "parse_members m ?rest = Some (kw # kvs, r)"
    using 3 n by (intro 3(2)) auto
  ultimately show ?case
    using n 3 skip_ws_dumps [of "snd kv"]
    by (simp add: parse_members.simps member_str_def [of kv] quote_str_def [of "fst kv"] parse_str_quote)
qed simp

lemma dict_of_distinct: "distinct (map fst kvs) \<Longrightarrow> dict_of kvs = kvs"
proof (induction kvs rule: rev_induct)
  case (snoc kv kvs)
  have "k \<notin> fst ` set d \<Longrightarrow> AList.update k v d = d @ [(k, v)]" for k v and d :: "(string \<times> json) list"
    by (induction d) auto
  with snoc show ?case
    by (cases kv) (auto simp: dict_of_def)
qed (simp add: dict_of_def)

lemma parse_value_array:
  assumes "\<forall>v \<in> set vs. json_valid v \<and> reads_back v"
  shows "reads_back (JArr vs)"
  unfolding reads_back_def
proof (intro allI impI)
  fix n r
  assume n: "2 * length (json_dumps (JArr vs)) + 1 \<le> n"
  then obtain m where m: "n = Suc m" "2 * length (join '', '' (map json_dumps vs)) + 3 \<le> m"
    by (cases n) auto
  show "parse_value n (json_dumps (JArr vs) @ r) = Some (JArr vs, r)"
  proof (cases "vs = []")
    case True
    then show ?thesis
      using m by (simp add: parse_value.simps)
  next
    case False
    let ?s = "join '', '' (map json_dumps vs) @ CHR '']'' # r"
    have "\<exists>c t. ?s = c # t \<and> \<not> is_ws c \<and> c \<noteq> CHR '']''"
      using False assms json_dumps_head [of "hd vs"] by (cases vs; cases "tl vs") auto
    then show ?thesis
      using m parse_elems_join [OF False _ m(2), of r] assms by (auto simp: parse_value.simps)
  qed
qed

lemma parse_value_object:
  assumes "\<forall>kv \<in> set kvs. json_valid (snd kv) \<and> reads_back (snd kv)" and d: "distinct (map fst kvs)"
  shows "reads_back (JObj kvs)"
  unfolding reads_back_def
proof (intro allI impI)
  have f: "(\<lambda>kv. quote_str (fst kv) @ '': '' @ json_dumps (snd kv)) = member_str"
    by (simp add: member_str_def fun_eq_iff)
  fix n r
  assume n: "2 * length (json_dumps (JObj kvs)) + 1 \<le> n"
  then obtain m where m: "n = Suc m" "2 * length (join '', '' (map member_str kvs)) + 3 \<le> m"
    unfolding json_dumps.simps f by (cases n) auto
  show "parse_value n (json_dumps (JObj kvs) @ r) = Some (JObj kvs, r)"
  proof (cases "kvs = []")
    case True
    then show ?thesis
      using m by (simp add: parse_value.simps)
  next
    case False
    let ?s = "join '', '' (map member_str kvs) @ CHR ''}'' # r"
    have "\<exists>t. ?s = CHR 0x22 # t"
      using False by (cases kvs; cases "tl kvs") (auto simp: member_str_def quote_str_def)
    then show ?thesis
      unfolding json_dumps.simps f
      using m parse_members_join [OF False assms(1) m(2), of r] dict_of_distinct [OF d]
      by (auto simp: parse_value.simps)
  qed
qed

lemma json_reads_back: "json_valid v \<Longrightarrow> reads_back v"
proof (induction v)
  case (JObj kvs)
  then have "\<forall>kv \<in> set kvs. json_valid (snd kv) \<and> reads_back (snd kv)"
    by (auto simp: snds.simps)
  then show ?case
    using JObj.prems parse_value_object by simp
next
  case (JArr vs)
  then show ?case
    using parse_value_array by simp
next
  case JNull
  then show ?case
    using parse_atom_consts(1) by (intro reads_backI) (simp add: parse_value_atom)
next
  case (JBool b)
  then show ?case
    using parse_atom_consts(2,3) by (intro reads_backI) (simp add: parse_value_atom)
next
  case (JInt i)
  then show ?case
    using parse_value_int by (intro reads_backI) simp
next
  case (JFloat l)
  then show ?case
    using parse_value_float by (intro reads_backI) simp
next
  case (JStr t)
  then show ?case
    using parse_value_str by (intro reads_backI) simp
qed

text \<open>Reading back an encoding gives the encoded value, with and without a final newline.\<close>

lemma json_loads_dumps:
  assumes "json_valid v"
  shows "json_loads (json_dumps v) = Inr v" "json_loads (json_dumps v @ ''\<newline>'') = Inr v"
  using reads_backD [OF json_reads_back [OF assms], of "[]"]
    reads_backD [OF json_reads_back [OF assms], of "''\<newline>''"]
    skip_ws_dumps [OF assms, of "[]"] skip_ws_dumps [OF assms, of "''\<newline>''"]
  by (auto simp: json_loads_def skip_ws_def is_ws_def)

subsection \<open>Every decoded value is valid\<close>

lemma takeWhile_take: "length (takeWhile P s) \<le> k \<Longrightarrow> takeWhile P (take k s) = takeWhile P s"
proof (induction s arbitrary: k)
  case (Cons a s)
  then show ?case
    by (cases k) auto
qed simp

lemma num_nat_take: "length (num_nat s) \<le> k \<Longrightarrow> num_nat (take k s) = num_nat s"
proof (cases s)
  case (Cons c t)
  assume "length (num_nat s) \<le> k"
  with Cons show ?thesis
    using takeWhile_take [of is_digit s k] by (cases k) (auto simp: num_nat_def split: if_splits)
qed (simp add: num_nat_def)

lemma num_int_take: "length (num_int s) \<le> k \<Longrightarrow> num_int s \<noteq> [] \<Longrightarrow> num_int (take k s) = num_int s"
proof (cases s)
  case (Cons c t)
  assume "length (num_int s) \<le> k" "num_int s \<noteq> []"
  with Cons show ?thesis
    using num_nat_take [of s k] num_nat_take [of t "k - 1"]
    by (cases k) (auto simp: num_int_def split: if_splits)
qed (simp add: num_int_def)

lemma num_frac_take: "length (num_frac s) \<le> k \<Longrightarrow> num_frac (take k s) = num_frac s"
proof (cases s)
  case (Cons c t)
  assume "length (num_frac s) \<le> k"
  with Cons show ?thesis
    using takeWhile_take [of is_digit t "k - 1"]
    by (cases k; cases t) (auto simp: num_frac_def take_Cons' split: if_splits)
qed (simp add: num_frac_def)

lemma num_exp_take: "num_exp (take (length (num_exp s)) s) = num_exp s"
proof (cases s)
  case (Cons c t)
  let ?g = "num_sign t"
  let ?ds = "takeWhile is_digit (drop (length ?g) t)"
  show ?thesis
  proof (cases "num_exp s = []")
    case False
    then have e: "num_exp s = c # ?g @ ?ds" "?ds \<noteq> []" "c = CHR ''e'' \<or> c = CHR ''E''"
      using Cons by (auto simp: num_exp_def Let_def split: if_splits)
    have "num_sign (take (length ?g + length ?ds) t) = ?g"
      using e(2) by (cases t; cases ?ds) (auto simp: num_sign_def)
    moreover have "takeWhile is_digit (take (length ?ds) (drop (length ?g) t)) = ?ds"
      by (rule takeWhile_take) simp
    ultimately show ?thesis
      using Cons e by (simp add: num_exp_def Let_def drop_take)
  qed (simp add: num_exp_def)
qed (simp add: num_exp_def)

lemma parse_number_valid:
  assumes "parse_number s = Some (v, r)"
  shows "json_valid v"
proof -
  define ip where "ip = num_int s"
  define r1 where "r1 = drop (length ip) s"
  define fr where "fr = num_frac r1"
  define r2 where "r2 = drop (length fr) r1"
  define ex where "ex = num_exp r2"
  let ?l = "ip @ fr @ ex"
  let ?L = "length ip + (length fr + length ex)"
  have ip: "ip \<noteq> []" and v: "v = (if fr = [] \<and> ex = [] then JInt (int_of ip) else JFloat ?l)"
    using assms by (auto simp: parse_number_def Let_def ip_def r1_def fr_def r2_def ex_def split: if_splits)
  have l: "take ?L s = ?l"
    using num_int_split [of s] num_frac_split [of r1] num_exp_split [of r2]
    by (metis ip_def r1_def fr_def r2_def ex_def append_eq_conv_conj append_assoc length_append)
  have 1: "num_int ?l = ip"
    using num_int_take [of s ?L] ip l by (simp add: ip_def)
  have 2: "num_frac (fr @ ex) = fr"
    using num_frac_take [of r1 "length fr + length ex"] num_frac_split [of r1] num_exp_split [of r2]
    by (metis fr_def r2_def ex_def append_eq_conv_conj append_assoc length_append le_add1)
  have 3: "num_exp ex = ex"
    using num_exp_take [of r2] num_exp_split [of r2] by (metis ex_def append_eq_conv_conj)
  have "parse_number ?l = Some (v, [])"
    using ip v by (simp add: parse_number_def Let_def 1 2 3)
  then show ?thesis
    using v by (auto simp: float_lit_def)
qed

lemma parse_atom_valid: "parse_atom s = Some (v, r) \<Longrightarrow> json_valid v"
  by (auto simp: parse_atom_def orelse_def literal_def float_lit_def dest: parse_number_valid
      split: option.splits if_splits)

lemma dict_of_valid:
  assumes "\<forall>kv \<in> set kvs. json_valid (snd kv)"
  shows "json_valid (JObj (dict_of kvs))"
  using assms
proof (induction kvs rule: rev_induct)
  case (snoc kv kvs)
  have "set (AList.update k v d) \<subseteq> insert (k, v) (set d)" for k v and d :: "(string \<times> json) list"
    by (induction d) auto
  with snoc show ?case
    by (cases kv) (fastforce simp: dict_of_def distinct_update)
qed (simp add: dict_of_def)

lemma parse_valid:
  "(parse_value n s = Some (v, r) \<longrightarrow> json_valid v)
   \<and> (parse_elems n s = Some (vs, r) \<longrightarrow> (\<forall>v \<in> set vs. json_valid v))
   \<and> (parse_members n s = Some (kvs, r) \<longrightarrow> (\<forall>kv \<in> set kvs. json_valid (snd kv)))"
proof (induction n arbitrary: s v r vs kvs)
  case (Suc n)
  have V: "parse_value n s = Some (v, r) \<Longrightarrow> json_valid v"
    and E: "parse_elems n s = Some (vs, r) \<Longrightarrow> x \<in> set vs \<Longrightarrow> json_valid x"
    and M: "parse_members n s = Some (kvs, r) \<Longrightarrow> \<forall>kv \<in> set kvs. json_valid (snd kv)" for s v r vs kvs x
    using Suc by blast+
  have M': "parse_members n s = Some (kvs, r) \<Longrightarrow> (k, w) \<in> set kvs \<Longrightarrow> json_valid w" for s kvs r k w
    using M by fastforce
  have "parse_value (Suc n) s = Some (v, r) \<Longrightarrow> json_valid v"
    using M [THEN dict_of_valid]
    by (auto simp: parse_value.simps dest: E parse_atom_valid split: list.splits if_splits)
  moreover have "parse_elems (Suc n) s = Some (vs, r) \<Longrightarrow> \<forall>v \<in> set vs. json_valid v"
    by (auto simp: parse_elems.simps dest: V E split: option.splits prod.splits list.splits if_splits)
  moreover have "parse_members (Suc n) s = Some (kvs, r) \<Longrightarrow> \<forall>kv \<in> set kvs. json_valid (snd kv)"
    by (auto simp: parse_members.simps dest: V M' split: option.splits prod.splits list.splits if_splits)
  ultimately show ?case
    by blast
qed (simp add: parse_value.simps parse_elems.simps parse_members.simps)

lemma json_loads_valid: "json_loads s = Inr v \<Longrightarrow> json_valid v"
  using parse_valid by (auto simp: json_loads_def split: option.splits if_splits)

subsection \<open>The fuel is always enough\<close>

lemma skip_ws_length: "length (skip_ws s) \<le> length s"
  by (simp add: skip_ws_def length_dropWhile_le)

lemma skip_ws_Cons: "skip_ws s = c # t \<Longrightarrow> length t < length s"
  using skip_ws_length [of s] by simp

lemma parse_str_length: "parse_str s = Some (t, r) \<Longrightarrow> length r < length s"
proof (induction s arbitrary: t r rule: parse_str.induct)
  case (2 c s)
  then show ?case
    by (fastforce simp: parse_str.simps(2) [of c s] push_char_def split: if_splits list.splits option.splits)
qed (simp add: parse_str.simps)

lemma parse_atom_length:
  assumes "parse_atom s = Some (v, r)"
  shows "length r < length s"
proof -
  have "length r < length s" if "parse_number s = Some (v, r)"
  proof -
    have "num_int s \<noteq> []" "r = drop (length (num_exp (drop (length (num_frac (drop (length (num_int s)) s)))
        (drop (length (num_int s)) s)))) (drop (length (num_frac (drop (length (num_int s)) s))) (drop (length (num_int s)) s))"
      using that by (auto simp: parse_number_def Let_def split: if_splits)
    then show ?thesis
      using num_lengths(1) [of s] by (cases "num_int s") auto
  qed
  then show ?thesis
    using assms
    by (cases s) (auto simp: parse_atom_def orelse_def literal_def split: option.splits if_splits)
qed

lemma parse_length:
  "(parse_value n s = Some (v, r) \<longrightarrow> length r < length s)
   \<and> (parse_elems n s = Some (vs, r) \<longrightarrow> length r < length s)
   \<and> (parse_members n s = Some (kvs, r) \<longrightarrow> length r < length s)"
proof (induction n arbitrary: s v r vs kvs)
  case (Suc n)
  have V: "parse_value n s = Some (v, r) \<Longrightarrow> length r < length s"
    and E: "parse_elems n s = Some (vs, r) \<Longrightarrow> length r < length s"
    and M: "parse_members n s = Some (kvs, r) \<Longrightarrow> length r < length s" for s v r vs kvs
    using Suc by blast+
  have V': "parse_value n (skip_ws s) = Some (v, r) \<Longrightarrow> length r < length s"
    and E': "parse_elems n (skip_ws s) = Some (vs, r) \<Longrightarrow> length r < length s"
    and M': "parse_members n (skip_ws s) = Some (kvs, r) \<Longrightarrow> length r < length s" for s v r vs kvs
    using V E M skip_ws_length [of s] by fastforce+
  note shrink = E M parse_str_length parse_atom_length skip_ws_Cons
  have "parse_value (Suc n) s = Some (v, r) \<Longrightarrow> length r < length s"
    by (auto simp: parse_value.simps split: list.splits if_splits dest!: shrink)
  moreover have "parse_elems (Suc n) s = Some (vs, r) \<Longrightarrow> length r < length s"
    by (auto simp: parse_elems.simps split: option.splits prod.splits list.splits if_splits
        dest!: E' V skip_ws_Cons)
  moreover have "parse_members (Suc n) s = Some (kvs, r) \<Longrightarrow> length r < length s"
    by (auto simp: parse_members.simps split: option.splits prod.splits list.splits if_splits
        dest!: V' M' parse_str_length skip_ws_Cons)
  ultimately show ?case
    by blast
qed (simp add: parse_value.simps parse_elems.simps parse_members.simps)

lemma parse_value_length: "parse_value n s = Some (v, r) \<Longrightarrow> length r < length s"
  using parse_length by blast

lemma parse_fuel_step:
  "(2 * length s + 1 \<le> n \<longrightarrow> parse_value (Suc n) s = parse_value n s)
   \<and> (2 * length s + 2 \<le> n \<longrightarrow> parse_elems (Suc n) s = parse_elems n s)
   \<and> (2 * length s + 2 \<le> n \<longrightarrow> parse_members (Suc n) s = parse_members n s)"
proof (induction n arbitrary: s)
  case (Suc n)
  have V: "2 * length s + 1 \<le> n \<Longrightarrow> parse_value (Suc n) s = parse_value n s"
    and E: "2 * length s + 2 \<le> n \<Longrightarrow> parse_elems (Suc n) s = parse_elems n s"
    and M: "2 * length s + 2 \<le> n \<Longrightarrow> parse_members (Suc n) s = parse_members n s" for s
    using Suc by blast+
  have "parse_value (Suc (Suc n)) s = parse_value (Suc n) s" if "2 * length s + 1 \<le> Suc n"
    using that E M unfolding parse_value.simps(2) [of "Suc n"] parse_value.simps(2) [of n]
    by (auto split: list.splits dest!: skip_ws_Cons)
  moreover have "parse_elems (Suc (Suc n)) s = parse_elems (Suc n) s" if n: "2 * length s + 2 \<le> Suc n"
  proof -
    have "parse_elems (Suc n) (skip_ws t) = parse_elems n (skip_ws t)"
      if "parse_value n s = Some (v, r)" "skip_ws r = d # t" for v r d t
      using that n parse_value_length [of n s v r] skip_ws_Cons [of r d t] skip_ws_length [of t]
      by (intro E) auto
    then show ?thesis
      using V [of s] n unfolding parse_elems.simps(2) [of "Suc n"] parse_elems.simps(2) [of n]
      by (auto split: option.splits list.splits)
  qed
  moreover have "parse_members (Suc (Suc n)) s = parse_members (Suc n) s" if n: "2 * length s + 2 \<le> Suc n"
  proof (cases s)
    case (Cons q s')
    have v: "parse_value (Suc n) (skip_ws t) = parse_value n (skip_ws t)"
      if "parse_str s' = Some (k, r)" "skip_ws r = d # t" for k r d t
      using that n Cons parse_str_length [of s' k r] skip_ws_Cons [of r d t] skip_ws_length [of t]
      by (intro V) auto
    have "parse_members (Suc n) (skip_ws u) = parse_members n (skip_ws u)"
      if "parse_str s' = Some (k, r)" "skip_ws r = d # t" "parse_value n (skip_ws t) = Some (v, r1)"
        "skip_ws r1 = e # u" for k r d t v r1 e u
      using that n Cons parse_str_length [of s' k r] skip_ws_Cons [of r d t] skip_ws_length [of t]
        parse_value_length [of n "skip_ws t" v r1] skip_ws_Cons [of r1 e u] skip_ws_length [of u]
      by (intro M) auto
    then show ?thesis
      using v Cons unfolding parse_members.simps(2) [of "Suc n"] parse_members.simps(2) [of n]
      by (auto split: option.splits list.splits)
  qed (simp add: parse_members.simps)
  ultimately show ?case
    by blast
qed (simp add: parse_value.simps parse_elems.simps parse_members.simps)

lemma parse_fuel: "2 * length s + 1 \<le> n \<Longrightarrow> parse_value (n + k) s = parse_value n s"
proof (induction k)
  case (Suc k)
  then show ?case
    using parse_fuel_step [of s "n + k"] by simp
qed simp

text \<open>No amount of further fuel changes what \<open>json_loads\<close> returns.\<close>

lemma loads_fuel:
  "parse_value (2 * length s + 2 + k) (skip_ws s) = parse_value (2 * length s + 2) (skip_ws s)"
  using skip_ws_length [of s] by (intro parse_fuel) simp

subsection \<open>What a line codec promises\<close>

text \<open>
  The contract of \<open>json.dumps\<close>/\<open>json.loads\<close> the storage relies on: a valid value is read back from
  its encoding, with or without the newline the files add, and every decoded value is valid.
\<close>

locale line_codec =
  fixes dumps :: "'v \<Rightarrow> string"
    and loads :: "string \<Rightarrow> py_error + 'v"
    and valid :: "'v \<Rightarrow> bool"
  assumes loads_dumps: "valid v \<Longrightarrow> loads (dumps v) = Inr v"
    and loads_dumps_line: "valid v \<Longrightarrow> loads (dumps v @ ''\<newline>'') = Inr v"
    and loads_valid: "loads s = Inr v \<Longrightarrow> valid v"
    and dumps_nonempty: "valid v \<Longrightarrow> dumps v \<noteq> []"

interpretation json: line_codec json_dumps json_loads json_valid
proof
  show "json_valid v \<Longrightarrow> json_dumps v \<noteq> []" for v
    using json_dumps_head [of v] by auto
qed (simp_all add: json_loads_dumps json_loads_valid)

end
