(* ===== verification/Batch_Storage.thy ===== *)
theory Batch_Storage
  imports JSON_Codec
begin

text \<open>
  The storage of batch jobs: \<open>LocalDiskFiles\<close> of \<^verbatim>\<open>aibrix/batch/storage/generic_storage.py\<close> (one
  directory per job with the files \<^verbatim>\<open>input.json\<close> and \<^verbatim>\<open>output.json\<close>), \<open>TOSStorage\<close> of
  \<^verbatim>\<open>tos_storage.py\<close> (one object per request), and the request cache of
  \<^verbatim>\<open>aibrix/batch/storage/batch_storage.py\<close> above them. A text file is the list of its lines, each
  with its newline. The JSON encoder and decoder are arguments (\<open>dumps\<close>, \<open>loads\<close>) that
  meet the contract \<open>line_codec\<close>; the theory \<^verbatim>\<open>JSON_Codec\<close> supplies them. The TOS client is an argument too.
\<close>

type_synonym job_id = nat

subsection \<open>Local disk\<close>

record job_dir =
  input_json :: "string list option"
  output_json :: "string list option"

type_synonym disk = "job_id \<rightharpoonup> job_dir"

text \<open>The line loop of \<open>write_job_input_data\<close>: short lines are skipped, the others are decoded.\<close>

fun parse_lines :: "(string \<Rightarrow> py_error + 'v) \<Rightarrow> string list \<Rightarrow> py_error + 'v list" where
  "parse_lines loads [] = Inr []"
| "parse_lines loads (l # ls) =
     (if length l \<le> 1 then parse_lines loads ls
      else case loads l of
             Inl e \<Rightarrow> Inl e
           | Inr v \<Rightarrow> (case parse_lines loads ls of Inl e \<Rightarrow> Inl e | Inr vs \<Rightarrow> Inr (v # vs)))"

text \<open>The user's input file, absent when it cannot be opened.\<close>

definition read_input_file :: "(string \<Rightarrow> py_error + 'v) \<Rightarrow> string list option \<Rightarrow> py_error + 'v list" where
  "read_input_file loads inputDataFile =
     (case inputDataFile of None \<Rightarrow> Inl FileNotFoundError | Some ls \<Rightarrow> parse_lines loads ls)"

definition json_lines :: "('v \<Rightarrow> string) \<Rightarrow> 'v list \<Rightarrow> string list" where
  "json_lines dumps vs = map (\<lambda>v. dumps v @ ''\<newline>'') vs"

definition write_job_input_data ::
  "(string \<Rightarrow> py_error + 'v) \<Rightarrow> ('v \<Rightarrow> string) \<Rightarrow> disk \<Rightarrow> job_id \<Rightarrow> string list option \<Rightarrow> (disk, unit) outcome"
where
  "write_job_input_data loads dumps d j inputDataFile =
     (case read_input_file loads inputDataFile of
        Inl e \<Rightarrow> (d, Inl e)
      | Inr request_list \<Rightarrow>
          if d j \<noteq> None then (d, Inl OSError)
          else (d(j \<mapsto> \<lparr>input_json = Some (json_lines dumps request_list), output_json = None\<rparr>),
                Inr ()))"

text \<open>\<open>next(file)\<close>, \<open>k\<close> times: raises \<open>StopIteration\<close> at the end of the file.\<close>

definition skip_lines :: "int \<Rightarrow> string list \<Rightarrow> py_error + string list" where
  "skip_lines k ls = (if k \<le> int (length ls) then Inr (drop (nat k) ls) else Inl StopIteration)"

text \<open>\<open>for _ in range(num): line = file.readline(); if not line: break; json.loads(line)\<close>.\<close>

fun read_lines :: "(string \<Rightarrow> py_error + 'v) \<Rightarrow> nat \<Rightarrow> string list \<Rightarrow> py_error + 'v list" where
  "read_lines loads 0 ls = Inr []"
| "read_lines loads (Suc n) [] = Inr []"
| "read_lines loads (Suc n) (l # ls) =
     (case loads l of
        Inl e \<Rightarrow> Inl e
      | Inr v \<Rightarrow> (case read_lines loads n ls of Inl e \<Rightarrow> Inl e | Inr vs \<Rightarrow> Inr (v # vs)))"

definition read_job_input_data ::
  "(string \<Rightarrow> py_error + 'v) \<Rightarrow> disk \<Rightarrow> job_id \<Rightarrow> int \<Rightarrow> int \<Rightarrow> py_error + 'v list"
where
  "read_job_input_data loads d j start_index num_requests =
     (case Option.bind (d j) input_json of
        None \<Rightarrow> Inr []
      | Some ls \<Rightarrow>
          (case skip_lines start_index ls of
             Inl e \<Rightarrow> Inl e
           | Inr rest \<Rightarrow>
               if num_requests > 0 then read_lines loads (nat num_requests) rest
               else parse_lines loads rest))"

definition get_job_number_requests :: "disk \<Rightarrow> job_id \<Rightarrow> int" where
  "get_job_number_requests d j =
     (case Option.bind (d j) input_json of None \<Rightarrow> 0 | Some ls \<Rightarrow> int (length ls))"

text \<open>
  The file is opened with mode \<^verbatim>\<open>"a+"\<close>: it is created when missing, \<open>next(file, None)\<close> reads at
  the end of the file, and every write goes to the end of the file.
\<close>

definition write_job_output_data :: "('v \<Rightarrow> string) \<Rightarrow> disk \<Rightarrow> job_id \<Rightarrow> int \<Rightarrow> 'v list \<Rightarrow> disk" where
  "write_job_output_data dumps d j start_index output_list =
     (case d j of
        None \<Rightarrow> d
      | Some dir \<Rightarrow>
          let old = (case output_json dir of None \<Rightarrow> [] | Some ls \<Rightarrow> ls) in
          d(j \<mapsto> dir\<lparr>output_json := Some (old @ json_lines dumps output_list)\<rparr>))"

text \<open>
  The reading loop of \<open>read_job_output_data\<close>: short lines are skipped and the loop stops when
  \<open>num_lines == num_requests\<close> (after the increment, so never for a count below one).
\<close>

fun read_output_lines ::
  "(string \<Rightarrow> py_error + 'v) \<Rightarrow> int \<Rightarrow> int \<Rightarrow> string list \<Rightarrow> py_error + 'v list" where
  "read_output_lines loads num num_lines [] = Inr []"
| "read_output_lines loads num num_lines (l # ls) =
     (if length l \<le> 1 then read_output_lines loads num num_lines ls
      else case loads l of
             Inl e \<Rightarrow> Inl e
           | Inr v \<Rightarrow>
               if num_lines + 1 = num then Inr [v]
               else (case read_output_lines loads num (num_lines + 1) ls of
                       Inl e \<Rightarrow> Inl e | Inr vs \<Rightarrow> Inr (v # vs)))"

definition read_job_output_data ::
  "(string \<Rightarrow> py_error + 'v) \<Rightarrow> disk \<Rightarrow> job_id \<Rightarrow> int \<Rightarrow> int \<Rightarrow> py_error + 'v list"
where
  "read_job_output_data loads d j start_index num_requests =
     (case d j of
        None \<Rightarrow> Inr []
      | Some dir \<Rightarrow>
          (case output_json dir of
             None \<Rightarrow> Inl FileNotFoundError
           | Some ls \<Rightarrow>
               (case skip_lines start_index ls of
                  Inl e \<Rightarrow> Inl e
                | Inr rest \<Rightarrow> read_output_lines loads num_requests 0 rest)))"

text \<open>Both files are removed, then the directory, which holds nothing else.\<close>

definition delete_job_data :: "disk \<Rightarrow> job_id \<Rightarrow> disk" where
  "delete_job_data d j = d(j := None)"

subsection \<open>TOS object storage\<close>

text \<open>
  The object keys are \<^verbatim>\<open>{job_id}/input/{i}\<close> and \<^verbatim>\<open>{job_id}/output/{i}\<close>. The client is given by its
  two calls on a bucket of type \<open>'b\<close>; each may fail.
\<close>

datatype tos_key = TosInput job_id int | TosOutput job_id int

fun tos_put_all ::
  "('b \<Rightarrow> tos_key \<Rightarrow> string \<Rightarrow> py_error + 'b) \<Rightarrow> ('v \<Rightarrow> string) \<Rightarrow> (int \<Rightarrow> tos_key) \<Rightarrow> 'b \<Rightarrow> int \<Rightarrow> 'v list \<Rightarrow> 'b"
where
  "tos_put_all put dumps key b i [] = b"
| "tos_put_all put dumps key b i (v # vs) =
     (case put b (key i) (dumps v) of
        Inl e \<Rightarrow> b
      | Inr b' \<Rightarrow> tos_put_all put dumps key b' (i + 1) vs)"

fun tos_get_some ::
  "('b \<Rightarrow> tos_key \<Rightarrow> py_error + string) \<Rightarrow> (string \<Rightarrow> py_error + 'v) \<Rightarrow> (int \<Rightarrow> tos_key) \<Rightarrow> 'b \<Rightarrow> int \<Rightarrow> nat \<Rightarrow> 'v list"
where
  "tos_get_some get loads key b i 0 = []"
| "tos_get_some get loads key b i (Suc n) =
     (case get b (key i) of
        Inl e \<Rightarrow> []
      | Inr s \<Rightarrow>
          (case loads s of
             Inl e \<Rightarrow> []
           | Inr v \<Rightarrow> v # tos_get_some get loads key b (i + 1) n))"

definition tos_write_job_input_data ::
  "('b \<Rightarrow> tos_key \<Rightarrow> string \<Rightarrow> py_error + 'b) \<Rightarrow> (string \<Rightarrow> py_error + 'v) \<Rightarrow> ('v \<Rightarrow> string) \<Rightarrow>
   'b \<Rightarrow> job_id \<Rightarrow> string list option \<Rightarrow> ('b, unit) outcome"
where
  "tos_write_job_input_data put loads dumps b j inputDataFile =
     (case read_input_file loads inputDataFile of
        Inl e \<Rightarrow> (b, Inl e)
      | Inr request_list \<Rightarrow> (tos_put_all put dumps (TosInput j) b 0 request_list, Inr ()))"

definition tos_read_job_input_data ::
  "('b \<Rightarrow> tos_key \<Rightarrow> py_error + string) \<Rightarrow> (string \<Rightarrow> py_error + 'v) \<Rightarrow> 'b \<Rightarrow> job_id \<Rightarrow> int \<Rightarrow> int \<Rightarrow> py_error + 'v list"
where
  "tos_read_job_input_data get loads b j start_index num_requests =
     Inr (tos_get_some get loads (TosInput j) b start_index (nat num_requests))"

definition tos_write_job_output_data ::
  "('b \<Rightarrow> tos_key \<Rightarrow> string \<Rightarrow> py_error + 'b) \<Rightarrow> ('v \<Rightarrow> string) \<Rightarrow> 'b \<Rightarrow> job_id \<Rightarrow> int \<Rightarrow> 'v list \<Rightarrow> 'b"
where
  "tos_write_job_output_data put dumps b j start_index output_list =
     tos_put_all put dumps (TosOutput j) b start_index output_list"

definition tos_read_job_output_data ::
  "('b \<Rightarrow> tos_key \<Rightarrow> py_error + string) \<Rightarrow> (string \<Rightarrow> py_error + 'v) \<Rightarrow> 'b \<Rightarrow> job_id \<Rightarrow> int \<Rightarrow> int \<Rightarrow> py_error + 'v list"
where
  "tos_read_job_output_data get loads b j start_index num_requests =
     Inr (tos_get_some get loads (TosOutput j) b start_index (nat num_requests))"

subsection \<open>The request cache\<close>

text \<open>
  The module state of \<^verbatim>\<open>batch_storage.py\<close> beside the storage object. \<open>rd\<close> is the bound method
  \<open>p_storage.read_job_input_data\<close>.
\<close>

record 'v request_cache =
  current_job_offsets :: "job_id \<rightharpoonup> int"
  job_input_requests :: "job_id \<rightharpoonup> 'v list"

datatype storage_type = LocalDiskFile | S3 | TOS

definition initialize_batch_storage :: "storage_type \<Rightarrow> 's \<Rightarrow> 's \<Rightarrow> py_error + 's" where
  "initialize_batch_storage t local_disk tos_storage =
     (case t of LocalDiskFile \<Rightarrow> Inr local_disk | TOS \<Rightarrow> Inr tos_storage | S3 \<Rightarrow> Inl ValueError)"

definition NUM_REQUESTS_PER_READ :: int where
  "NUM_REQUESTS_PER_READ = 1024"

definition upload_input_data :: "'v request_cache \<Rightarrow> job_id \<Rightarrow> (py_error + unit) \<Rightarrow> ('v request_cache, job_id) outcome" where
  "upload_input_data c j written =
     (case written of
        Inl e \<Rightarrow> (c, Inl e)
      | Inr _ \<Rightarrow> (c\<lparr>current_job_offsets := (current_job_offsets c)(j \<mapsto> 0)\<rparr>, Inr j))"

text \<open>
  \<open>read_job_requests\<close> in its five stages: fill an absent cache; extend or replace it backwards;
  drop it when the read starts past its end; extend it forwards; cut the slice. Each stage works
  on the offset and the list of the job's cache entry.
\<close>

type_synonym 'v entry = "int \<times> 'v list"

definition cache_fill :: "(int \<Rightarrow> int \<Rightarrow> py_error + 'v list) \<Rightarrow> int \<Rightarrow> 'v list option \<Rightarrow> py_error + 'v entry" where
  "cache_fill rd off reqs =
     (case reqs of
        Some ls \<Rightarrow> Inr (off, ls)
      | None \<Rightarrow> (case rd 0 NUM_REQUESTS_PER_READ of Inl e \<Rightarrow> Inl e | Inr ls \<Rightarrow> Inr (off, ls)))"

definition cache_backward :: "(int \<Rightarrow> int \<Rightarrow> py_error + 'v list) \<Rightarrow> int \<Rightarrow> int \<Rightarrow> 'v entry \<Rightarrow> py_error + 'v entry" where
  "cache_backward rd start num en =
     (let (off, ls) = en in
      if start < off then
        if start + num < off + 1
        then (case rd start num of Inl e \<Rightarrow> Inl e | Inr diff \<Rightarrow> Inr (start, diff))
        else (case rd start (off + 1 - start) of Inl e \<Rightarrow> Inl e | Inr diff \<Rightarrow> Inr (start, diff @ ls))
      else Inr (off, ls))"

definition cache_drop :: "int \<Rightarrow> 'v entry \<Rightarrow> 'v entry" where
  "cache_drop start en =
     (let (off, ls) = en in if start \<ge> off + int (length ls) then (start, []) else (off, ls))"

definition cache_forward :: "(int \<Rightarrow> int \<Rightarrow> py_error + 'v list) \<Rightarrow> int \<Rightarrow> int \<Rightarrow> 'v entry \<Rightarrow> py_error + 'v entry" where
  "cache_forward rd start num en =
     (let (off, ls) = en; end_idx = off + int (length ls) in
      if start + num > end_idx
      then (case rd end_idx (start + num - end_idx) of
              Inl e \<Rightarrow> Inl e | Inr diff \<Rightarrow> Inr (off, ls @ diff))
      else Inr (off, ls))"

definition cache_slice :: "int \<Rightarrow> int \<Rightarrow> 'v entry \<Rightarrow> 'v list" where
  "cache_slice start num en =
     (let (off, ls) = en;
          available = min num (off + int (length ls) - start);
          start_offset = start - off
      in py_slice ls start_offset (start_offset + available))"

definition read_entry :: "(int \<Rightarrow> int \<Rightarrow> py_error + 'v list) \<Rightarrow> int \<Rightarrow> int \<Rightarrow> 'v entry \<Rightarrow> 'v entry \<times> (py_error + 'v list)" where
  "read_entry rd start num en =
     (case cache_backward rd start num en of
        Inl e \<Rightarrow> (en, Inl e)
      | Inr en1 \<Rightarrow>
          let en2 = cache_drop start en1 in
          (case cache_forward rd start num en2 of
             Inl e \<Rightarrow> (en2, Inl e)
           | Inr en3 \<Rightarrow> (en3, Inr (cache_slice start num en3))))"

definition read_job_requests ::
  "(job_id \<Rightarrow> int \<Rightarrow> int \<Rightarrow> py_error + 'v list) \<Rightarrow> 'v request_cache \<Rightarrow> job_id \<Rightarrow> int \<Rightarrow> int \<Rightarrow>
   ('v request_cache, 'v list) outcome"
where
  "read_job_requests rd c j start_index num_requests =
     (case current_job_offsets c j of
        None \<Rightarrow> (c, Inr [])
      | Some off \<Rightarrow>
          (case cache_fill (rd j) off (job_input_requests c j) of
             Inl e \<Rightarrow> (c, Inl e)
           | Inr en \<Rightarrow>
               let (en', r) = read_entry (rd j) start_index num_requests en in
               (c\<lparr>current_job_offsets := (current_job_offsets c)(j \<mapsto> fst en'),
                  job_input_requests := (job_input_requests c)(j \<mapsto> snd en')\<rparr>, r)))"

subsection \<open>What the storage promises\<close>

text \<open>Files written with a codec that meets its contract are read back.\<close>

context line_codec
begin

lemma line_long: "valid v \<Longrightarrow> \<not> length (dumps v @ ''\<newline>'') \<le> 1"
  using dumps_nonempty [of v] by (cases "dumps v") auto

lemma parse_lines_valid: "parse_lines loads ls = Inr vs \<Longrightarrow> list_all valid vs"
  by (induction ls arbitrary: vs)
    (auto split: if_splits sum.splits dest: loads_valid)

lemma parse_lines_json [simp]:
  "list_all valid vs \<Longrightarrow> parse_lines loads (json_lines dumps vs) = Inr vs"
proof (induction vs)
  case (Cons v vs)
  then show ?case
    using line_long [of v] by (simp add: json_lines_def loads_dumps_line)
qed (simp add: json_lines_def)

lemma read_lines_json [simp]:
  "list_all valid vs \<Longrightarrow> read_lines loads n (json_lines dumps vs) = Inr (take n vs)"
proof (induction vs arbitrary: n)
  case (Cons v vs)
  then show ?case
    by (cases n) (simp_all add: json_lines_def loads_dumps_line)
next
  case Nil
  then show ?case
    by (cases n) (simp_all add: json_lines_def)
qed

lemma read_output_lines_json:
  "list_all valid vs \<Longrightarrow> k < num \<Longrightarrow>
   read_output_lines loads num k (json_lines dumps vs) = Inr (take (nat (num - k)) vs)"
proof (induction vs arbitrary: k)
  case (Cons v vs)
  have n: "nat (num - k) = Suc (nat (num - (k + 1)))"
    using Cons.prems by linarith
  show ?case
    using Cons line_long [of v] n
    by (cases "k + 1 = num") (simp_all add: json_lines_def loads_dumps_line)
qed (simp add: json_lines_def)

end

lemma length_json_lines [simp]: "length (json_lines dumps vs) = length vs"
  by (simp add: json_lines_def)

lemma drop_json_lines [simp]: "drop n (json_lines dumps vs) = json_lines dumps (drop n vs)"
  by (simp add: json_lines_def drop_map)

lemma json_lines_append [simp]:
  "json_lines dumps (vs @ ws) = json_lines dumps vs @ json_lines dumps ws"
  by (simp add: json_lines_def)

lemma list_all_drop [simp, intro]: "list_all P xs \<Longrightarrow> list_all P (drop n xs)"
  by (auto simp: list_all_iff dest: in_set_dropD)

text \<open>The files of a job hold the encodings of a list of valid values.\<close>

definition disk_inputs :: "('v \<Rightarrow> string) \<Rightarrow> ('v \<Rightarrow> bool) \<Rightarrow> disk \<Rightarrow> job_id \<Rightarrow> 'v list \<Rightarrow> bool" where
  "disk_inputs dumps valid d j vs \<longleftrightarrow>
     list_all valid vs \<and> Option.bind (d j) input_json = Some (json_lines dumps vs)"

definition disk_outputs :: "('v \<Rightarrow> string) \<Rightarrow> ('v \<Rightarrow> bool) \<Rightarrow> disk \<Rightarrow> job_id \<Rightarrow> 'v list \<Rightarrow> bool" where
  "disk_outputs dumps valid d j vs \<longleftrightarrow>
     list_all valid vs \<and>
     (\<exists>dir. d j = Some dir \<and>
        (case output_json dir of None \<Rightarrow> vs = [] | Some ls \<Rightarrow> ls = json_lines dumps vs))"

text \<open>
  The contract a storage offers to the cache: reading a job that holds the requests \<open>vs\<close> from an
  index inside them returns the requested slice.
\<close>

locale request_store =
  fixes rd :: "'st \<Rightarrow> job_id \<Rightarrow> int \<Rightarrow> int \<Rightarrow> py_error + 'v list"
    and holds :: "'st \<Rightarrow> job_id \<Rightarrow> 'v list \<Rightarrow> bool"
  assumes read_slice: "holds st j vs \<Longrightarrow> 0 \<le> s \<Longrightarrow> s \<le> int (length vs) \<Longrightarrow> 0 < n \<Longrightarrow>
    rd st j s n = Inr (take (nat n) (drop (nat s) vs))"

sublocale line_codec \<subseteq> disk: request_store "read_job_input_data loads" "disk_inputs dumps valid"
  by unfold_locales
    (auto simp: read_job_input_data_def disk_inputs_def skip_lines_def)

text \<open>The laws of an object store client: a successful put is what the next get reads.\<close>

locale object_client =
  fixes put :: "'b \<Rightarrow> tos_key \<Rightarrow> string \<Rightarrow> py_error + 'b"
    and get :: "'b \<Rightarrow> tos_key \<Rightarrow> py_error + string"
  assumes get_put_same: "put b k x = Inr b' \<Longrightarrow> get b' k = Inr x"
    and get_put_other: "put b k x = Inr b' \<Longrightarrow> k' \<noteq> k \<Longrightarrow> get b' k' = get b k'"

definition tos_inputs ::
  "('b \<Rightarrow> tos_key \<Rightarrow> py_error + string) \<Rightarrow> ('v \<Rightarrow> string) \<Rightarrow> ('v \<Rightarrow> bool) \<Rightarrow> 'b \<Rightarrow> job_id \<Rightarrow> 'v list \<Rightarrow> bool"
where
  "tos_inputs get dumps valid b j vs \<longleftrightarrow>
     list_all valid vs \<and>
     (\<forall>i < length vs. get b (TosInput j (int i)) = Inr (dumps (vs ! i))) \<and>
     (\<exists>e. get b (TosInput j (int (length vs))) = Inl e)"

lemma tos_get_some_inputs:
  assumes ok: "\<And>v. valid v \<Longrightarrow> loads (dumps v) = Inr v"
    and h: "tos_inputs get dumps valid b j vs"
    and s: "s \<le> length vs"
  shows "tos_get_some get loads (TosInput j) b (int s) n = take n (drop s vs)"
  using s
proof (induction n arbitrary: s)
  case (Suc n)
  show ?case
  proof (cases "s < length vs")
    case True
    then have "valid (vs ! s)" "get b (TosInput j (int s)) = Inr (dumps (vs ! s))"
      using h by (auto simp: tos_inputs_def list_all_length)
    moreover have "tos_get_some get loads (TosInput j) b (int s + 1) n = take n (drop (Suc s) vs)"
      using Suc.IH [of "Suc s"] True by (simp add: add.commute)
    ultimately show ?thesis
      using True ok by (simp add: Cons_nth_drop_Suc [symmetric])
  next
    case False
    then show ?thesis
      using h Suc.prems by (auto simp: tos_inputs_def)
  qed
qed simp

sublocale line_codec \<subseteq> tos: request_store "tos_read_job_input_data get loads" "tos_inputs get dumps valid"
  for get
proof
  fix st j vs s and n :: int
  assume h: "tos_inputs get dumps valid st j vs" and s: "0 \<le> s" "s \<le> int (length vs)"
  then show "tos_read_job_input_data get loads st j s n = Inr (take (nat n) (drop (nat s) vs))"
    using tos_get_some_inputs [OF loads_dumps h, of "nat s" "nat n"]
    by (simp add: tos_read_job_input_data_def)
qed

subsection \<open>The cache returns the requested slice\<close>

text \<open>
  A cache entry is right for the requests \<open>vs\<close> when its list is the piece of \<open>vs\<close> at its offset;
  a job whose list is not cached yet has offset 0.
\<close>

definition entry_ok :: "'v list \<Rightarrow> 'v entry \<Rightarrow> bool" where
  "entry_ok vs en \<longleftrightarrow>
     (let (off, ls) = en in
      0 \<le> off \<and> off + int (length ls) \<le> int (length vs) \<and>
      ls = take (length ls) (drop (nat off) vs))"

definition cache_ok :: "'v list \<Rightarrow> 'v request_cache \<Rightarrow> job_id \<Rightarrow> bool" where
  "cache_ok vs c j \<longleftrightarrow>
     (case current_job_offsets c j of
        None \<Rightarrow> False
      | Some off \<Rightarrow>
          (case job_input_requests c j of None \<Rightarrow> off = 0 | Some ls \<Rightarrow> entry_ok vs (off, ls)))"

lemma entry_okI:
  "a + n \<le> length vs \<Longrightarrow> entry_ok vs (int a, take n (drop a vs))"
  by (simp add: entry_ok_def)

lemma entry_okE:
  assumes "entry_ok vs en"
  obtains a n where "en = (int a, take n (drop a vs))" "a + n \<le> length vs"
proof -
  obtain off ls where en: "en = (off, ls)" by (cases en)
  show thesis
    by (rule that [of "nat off" "length ls"]) (use assms en in \<open>auto simp: entry_ok_def\<close>)
qed

lemma take_nat_slice: "take n (drop a vs) = take (min n (length vs - a)) (drop a vs)"
  by (cases "n \<le> length vs - a") simp_all

lemma cache_slice_ok:
  assumes "a + n \<le> length vs" and "a \<le> s" and "s \<le> a + n"
  shows "cache_slice (int s) (int k) (int a, take n (drop a vs))
       = take k (take (n - (s - a)) (drop s vs))"
proof -
  have 1: "int s - int a = int (s - a)" "int a + int n - int s = int (a + n - s)"
    using assms by simp_all
  have 2: "cache_slice (int s) (int k) (int a, take n (drop a vs))
      = take (min k (a + n - s)) (drop (s - a) (take n (drop a vs)))"
    using assms by (simp add: cache_slice_def Let_def 1 py_slice_nonneg min_def del: of_nat_diff)
  show ?thesis
    using assms unfolding 2 by (simp add: drop_take add.commute)
qed

lemma take_take_cover: "k \<le> m \<or> length xs \<le> m \<Longrightarrow> take k (take m xs) = take k xs"
  by (auto simp: min_def)

context request_store
begin

lemma read_slice_nat:
  "holds st j vs \<Longrightarrow> s \<le> length vs \<Longrightarrow> 0 < n \<Longrightarrow> rd st j (int s) (int n) = Inr (take n (drop s vs))"
  using read_slice [of st j vs "int s" "int n"] by simp

lemma cache_forward_ok:
  assumes h: "holds st j vs" and en: "a + n \<le> length vs" and s: "a \<le> s" "s \<le> a + n"
  shows "cache_forward (rd st j) (int s) (int k) (int a, take n (drop a vs))
       = Inr (int a, take (max n (s + k - a)) (drop a vs))"
proof (cases "a + n < s + k")
  case True
  then obtain m where m: "s + k = a + n + m" "0 < m"
    by (metis less_imp_add_positive)
  then have "int s + int k - (int a + int n) = int m"
    by linarith
  moreover have "rd st j (int a + int n) (int m) = Inr (take m (drop (a + n) vs))"
    using read_slice_nat [OF h en m(2)] by simp
  moreover have "max n (s + k - a) = n + m"
    using m by simp
  moreover have "take (n + m) (drop a vs) = take n (drop a vs) @ take m (drop (a + n) vs)"
    by (subst take_add) (simp add: add.commute)
  ultimately show ?thesis
    using True en by (simp add: cache_forward_def Let_def)
next
  case False
  then have "max n (s + k - a) = n"
    using s by simp
  then show ?thesis
    using False en by (simp add: cache_forward_def Let_def)
qed

text \<open>Reading at or after the offset of the entry.\<close>

lemma read_entry_forward:
  assumes h: "holds st j vs" and en: "a + n \<le> length vs" and s: "a \<le> s" "s \<le> length vs"
  shows "\<exists>en'. read_entry (rd st j) (int s) (int k) (int a, take n (drop a vs))
            = (en', Inr (take k (drop s vs))) \<and> entry_ok vs en' \<and> fst en' \<le> int s"
proof (cases "s < a + n")
  case True
  let ?m = "max n (s + k - a)"
  have f: "cache_forward (rd st j) (int s) (int k) (int a, take n (drop a vs)) = Inr (int a, take ?m (drop a vs))"
    using cache_forward_ok [OF h en s(1)] True by simp
  let ?M = "min ?m (length vs - a)"
  have m: "take ?m (drop a vs) = take ?M (drop a vs)"
    by (rule take_nat_slice)
  have M: "a + ?M \<le> length vs" "s \<le> a + ?M"
    using True s en by linarith+
  have "k \<le> ?M - (s - a) \<or> length vs - s \<le> ?M - (s - a)"
  proof (cases "?m \<le> length vs - a")
    case True
    have "k \<le> ?m - (s - a)"
      using s by linarith
    with True show ?thesis
      by simp
  next
    case False
    then have "min ?m (length vs - a) = length vs - a"
      by linarith
    with s show ?thesis
      by simp
  qed
  then have c: "cache_slice (int s) (int k) (int a, take ?m (drop a vs)) = take k (drop s vs)"
    using cache_slice_ok [of a ?M vs s k] take_take_cover [of k "?M - (s - a)" "drop s vs"] s en M
    by (simp only: m length_drop)
  have "entry_ok vs (int a, take ?m (drop a vs))"
    unfolding m using M(1) by (rule entry_okI)
  then show ?thesis
    using True s en f c
    by (simp add: read_entry_def cache_backward_def cache_drop_def Let_def)
next
  case False
  have f: "cache_forward (rd st j) (int s) (int k) (int s, []) = Inr (int s, take k (drop s vs))"
    using cache_forward_ok [OF h, of s 0 s k] s by simp
  have c: "cache_slice (int s) (int k) (int s, take k (drop s vs)) = take k (drop s vs)"
    using cache_slice_ok [of s "min k (length vs - s)" vs s k] s take_nat_slice [of k s vs] by simp
  have "entry_ok vs (int s, take k (drop s vs))"
    unfolding take_nat_slice [of k s vs] by (rule entry_okI) (use s in auto)
  then show ?thesis
    using False s en f c
    by (simp add: read_entry_def cache_backward_def cache_drop_def Let_def)
qed

text \<open>Reading a piece that ends before the offset of the entry replaces the entry.\<close>

lemma read_entry_backward:
  assumes h: "holds st j vs" and en: "a + n \<le> length vs" and s: "s + k \<le> a" and k: "0 < k"
  shows "\<exists>en'. read_entry (rd st j) (int s) (int k) (int a, take n (drop a vs))
            = (en', Inr (take k (drop s vs))) \<and> entry_ok vs en' \<and> fst en' \<le> int s"
proof -
  have r: "rd st j (int s) (int k) = Inr (take k (drop s vs))"
    using read_slice_nat [OF h _ k] s en by simp
  have "cache_backward (rd st j) (int s) (int k) (int a, take n (drop a vs)) = Inr (int s, take k (drop s vs))"
    using s k r by (simp add: cache_backward_def)
  then have "read_entry (rd st j) (int s) (int k) (int a, take n (drop a vs))
      = read_entry (rd st j) (int s) (int k) (int s, take k (drop s vs))"
    using s k en by (simp add: read_entry_def cache_backward_def cache_drop_def Let_def
        cache_forward_def)
  then show ?thesis
    using read_entry_forward [OF h, of s k s k] s en by simp
qed

theorem read_job_requests_ok:
  assumes h: "holds st j vs" and c: "cache_ok vs c j" "current_job_offsets c j = Some off"
    and s: "s \<le> length vs" and k: "0 < k" and dir: "off \<le> int s \<or> int s + int k \<le> off"
  shows "\<exists>c'. read_job_requests (rd st) c j (int s) (int k) = (c', Inr (take k (drop s vs)))
           \<and> cache_ok vs c' j \<and> (\<exists>off'. current_job_offsets c' j = Some off' \<and> off' \<le> int s)"
proof -
  obtain en where en: "cache_fill (rd st j) off (job_input_requests c j) = Inr en"
    "entry_ok vs en" "fst en = off"
  proof (cases "job_input_requests c j")
    case None
    have "rd st j 0 NUM_REQUESTS_PER_READ = Inr (take 1024 vs)"
      using read_slice_nat [OF h, of 0 1024] by (simp add: NUM_REQUESTS_PER_READ_def)
    moreover have "entry_ok vs (0, take 1024 vs)"
      using entry_okI [of 0 "min 1024 (length vs)" vs] take_nat_slice [of 1024 0 vs] by simp
    ultimately show ?thesis
      using that [of "(0, take 1024 vs)"] c None by (auto simp: cache_fill_def cache_ok_def)
  next
    case (Some ls)
    then show ?thesis
      using that [of "(off, ls)"] c by (auto simp: cache_fill_def cache_ok_def)
  qed
  obtain a n where a: "en = (int a, take n (drop a vs))" "a + n \<le> length vs"
    using en(2) by (rule entry_okE)
  have "\<exists>en'. read_entry (rd st j) (int s) (int k) en = (en', Inr (take k (drop s vs))) \<and> entry_ok vs en' \<and> fst en' \<le> int s"
    using dir read_entry_forward [OF h a(2) _ s, of k] read_entry_backward [OF h a(2) _ k, of s] a en(3)
    by auto
  then show ?thesis
    using c(2) en(1) by (auto simp: read_job_requests_def cache_ok_def)
qed

text \<open>
  A backward read that reaches past the offset of the entry prepends one request too many: the
  request at the old offset is there twice.
\<close>

lemma cache_backward_overlap:
  assumes h: "holds st j vs" and en: "a + n \<le> length vs" "0 < n" and s: "s < a" "a < s + k"
  shows "cache_backward (rd st j) (int s) (int k) (int a, take n (drop a vs))
       = Inr (int s, take (a - s) (drop s vs) @ [vs ! a] @ take n (drop a vs))"
proof -
  have "rd st j (int s) (int (Suc (a - s))) = Inr (take (Suc (a - s)) (drop s vs))"
    using read_slice_nat [OF h, of s "Suc (a - s)"] s en by linarith
  moreover have "int a + 1 - int s = int (Suc (a - s))"
    using s by simp
  moreover have "take (Suc (a - s)) (drop s vs) = take (a - s) (drop s vs) @ [vs ! a]"
    using s en by (simp add: take_Suc_conv_app_nth)
  ultimately show ?thesis
    using s by (simp add: cache_backward_def del: of_nat_Suc of_nat_diff)
qed

lemma read_entry_overlap:
  assumes h: "holds st j vs" and en: "a + n \<le> length vs" "0 < n"
    and s: "s < a" "a < s + k" "s + k \<le> a + n"
  shows "snd (read_entry (rd st j) (int s) (int k) (int a, take n (drop a vs)))
       = Inr (take k (take (a - s) (drop s vs) @ [vs ! a] @ take n (drop a vs)))"
proof -
  let ?ls = "take (a - s) (drop s vs) @ [vs ! a] @ take n (drop a vs)"
  have l: "length ?ls = a - s + 1 + n"
    using en s by simp
  have b: "cache_backward (rd st j) (int s) (int k) (int a, take n (drop a vs)) = Inr (int s, ?ls)"
    using cache_backward_overlap [OF h en s(1,2)] .
  have d: "cache_drop (int s) (int s, ?ls) = (int s, ?ls)"
    unfolding cache_drop_def using l by simp
  have e: "int s + int (length ?ls) = int (Suc (a + n))"
    unfolding l using s by linarith
  have f: "cache_forward (rd st j) (int s) (int k) (int s, ?ls) = Inr (int s, ?ls)"
    unfolding cache_forward_def Let_def prod.case e using s by simp
  have c: "cache_slice (int s) (int k) (int s, ?ls) = take k ?ls"
    unfolding cache_slice_def Let_def prod.case e using s
    by (simp add: py_slice_nonneg min_def)
  show ?thesis
    unfolding read_entry_def b Let_def sum.case d f c by simp
qed

end

subsection \<open>Writing and reading the files of a job\<close>

context line_codec
begin

lemma read_input_valid: "read_input_file loads f = Inr vs \<Longrightarrow> list_all valid vs"
  by (auto simp: read_input_file_def dest: parse_lines_valid split: option.splits)

lemma write_input_holds:
  assumes "write_job_input_data loads dumps d j f = (d', Inr ())"
  shows "\<exists>vs. read_input_file loads f = Inr vs \<and> disk_inputs dumps valid d' j vs
           \<and> disk_outputs dumps valid d' j []"
  using assms read_input_valid
  by (auto simp: write_job_input_data_def disk_inputs_def disk_outputs_def split: sum.splits if_splits)

lemma inputs_count: "disk_inputs dumps valid d j vs \<Longrightarrow> get_job_number_requests d j = int (length vs)"
  by (simp add: disk_inputs_def get_job_number_requests_def)

lemma write_output_appends:
  "disk_outputs dumps valid d j ws \<Longrightarrow> list_all valid rs \<Longrightarrow>
   disk_outputs dumps valid (write_job_output_data dumps d j s rs) j (ws @ rs)"
  by (auto simp: disk_outputs_def write_job_output_data_def Let_def json_lines_def split: option.splits)

lemma write_output_keeps_inputs:
  "disk_inputs dumps valid d j vs \<Longrightarrow>
   disk_inputs dumps valid (write_job_output_data dumps d i s rs) j vs"
  by (auto simp: disk_inputs_def write_job_output_data_def Let_def split: option.splits)

lemma read_output_slice:
  assumes "disk_outputs dumps valid d j ws" and "ws \<noteq> []" and "s \<le> length ws" and "0 < n"
  shows "read_job_output_data loads d j (int s) (int n) = Inr (take n (drop s ws))"
  using assms read_output_lines_json [of "drop s ws" 0 "int n"]
  by (auto simp: disk_outputs_def read_job_output_data_def skip_lines_def split: option.splits)

text \<open>Any sequence of writes, whatever indices they name, leaves the concatenation of the results.\<close>

lemma write_outputs_concat:
  assumes "disk_outputs dumps valid d j ws" and "\<forall>w \<in> set writes. list_all valid (snd w)"
  shows "disk_outputs dumps valid
           (foldl (\<lambda>d (s, rs). write_job_output_data dumps d j s rs) d writes) j
           (ws @ concat (map snd writes))"
  using assms
proof (induction writes arbitrary: d ws)
  case (Cons w writes)
  then show ?case
    using Cons.IH [OF write_output_appends [OF Cons.prems(1), of "snd w" "fst w"]]
    by (simp add: case_prod_beta)
qed simp

end

lemma write_input_frame:
  "i \<noteq> j \<Longrightarrow> fst (write_job_input_data loads dumps d j f) i = d i"
  by (simp add: write_job_input_data_def split: sum.splits)

lemma write_output_frame:
  "i \<noteq> j \<Longrightarrow> write_job_output_data dumps d j s rs i = d i"
  by (simp add: write_job_output_data_def Let_def split: option.splits)

subsection \<open>Writing and reading TOS objects\<close>

context object_client
begin

lemma tos_put_all_other:
  assumes "\<forall>i. k \<noteq> key i"
  shows "get (tos_put_all put dumps key b i0 vs) k = get b k"
  by (induction vs arbitrary: b i0) (use assms get_put_other in \<open>auto split: sum.splits\<close>)

lemma tos_put_all_before:
  assumes "inj key" and "i < i0"
  shows "get (tos_put_all put dumps key b i0 vs) (key i) = get b (key i)"
  using assms(2)
proof (induction vs arbitrary: b i0)
  case (Cons v vs)
  then show ?case
    using get_put_other [of b "key i0" _ _ "key i"] inj_eq [OF assms(1), of i i0]
    by (auto split: sum.splits)
qed simp

lemma tos_put_all_get:
  assumes "inj key" and total: "\<And>b k x. \<exists>b'. put b k x = Inr b'" and "n < length vs"
  shows "get (tos_put_all put dumps key b i0 vs) (key (i0 + int n)) = Inr (dumps (vs ! n))"
  using assms(3)
proof (induction vs arbitrary: b i0 n)
  case (Cons v vs)
  obtain b' where b': "put b (key i0) (dumps v) = Inr b'"
    using total by blast
  show ?case
  proof (cases n)
    case 0
    then show ?thesis
      using b' get_put_same [OF b'] tos_put_all_before [OF assms(1), of i0 "i0 + 1" dumps b' vs] by simp
  next
    case (Suc m)
    then show ?thesis
      using Cons.IH [of m b' "i0 + 1"] Cons.prems b' by (simp add: add.assoc)
  qed
qed simp

lemma tos_put_all_after:
  assumes "inj key" and "i0 + int (length vs) \<le> i"
  shows "get (tos_put_all put dumps key b i0 vs) (key i) = get b (key i)"
  using assms(2)
proof (induction vs arbitrary: b i0)
  case (Cons v vs)
  then show ?case
    using get_put_other [of b "key i0" _ _ "key i"] inj_eq [OF assms(1), of i i0]
    by (auto split: sum.splits)
qed simp

end

text \<open>A bucket as a map, whose calls meet the contract.\<close>

definition bucket_put :: "(tos_key \<rightharpoonup> string) \<Rightarrow> tos_key \<Rightarrow> string \<Rightarrow> py_error + (tos_key \<rightharpoonup> string)" where
  "bucket_put b k x = Inr (b(k \<mapsto> x))"

definition bucket_get :: "(tos_key \<rightharpoonup> string) \<Rightarrow> tos_key \<Rightarrow> py_error + string" where
  "bucket_get b k = (case b k of None \<Rightarrow> Inl Exception | Some x \<Rightarrow> Inr x)"

interpretation bucket: object_client bucket_put bucket_get
  by unfold_locales (auto simp: bucket_put_def bucket_get_def)

lemma inj_tos [simp]: "inj (TosInput j)" "inj (TosOutput j)"
  by (simp_all add: inj_def)

subsection \<open>Properties\<close>

text \<open>
  C33. A job whose input file is accepted is stored as it was parsed: the number of requests is the
  number of parsed lines, and any slice that starts inside the job is read back exactly.
\<close>

theorem input_file_read_back:
  assumes "write_job_input_data json_loads json_dumps d j f = (d', Inr ())"
  shows "\<exists>vs. read_input_file json_loads f = Inr vs
           \<and> get_job_number_requests d' j = int (length vs)
           \<and> (\<forall>s n. s \<le> length vs \<longrightarrow> 0 < n \<longrightarrow>
                read_job_input_data json_loads d' j (int s) (int n) = Inr (take n (drop s vs)))"
proof -
  obtain vs where vs: "read_input_file json_loads f = Inr vs" "disk_inputs json_dumps json_valid d' j vs"
    using json.write_input_holds [OF assms] by blast
  then show ?thesis
    using json.inputs_count [OF vs(2)] json.disk.read_slice_nat [OF vs(2)] by blast
qed

theorem input_file_read_back_witness:
  "\<exists>d'. read_job_input_data json_loads d' 7 1 1 = Inr [JNull]
     \<and> write_job_input_data json_loads json_dumps Map.empty 7
         (Some [''[1, true]\<newline>'', ''\<newline>'', ''null'']) = (d', Inr ())"
proof -
  let ?f = "Some [''[1, true]\<newline>'', ''\<newline>'', ''null'']"
  have f: "read_input_file json_loads ?f = Inr [JArr [JInt 1, JBool True], JNull]"
    by code_simp
  then obtain d' where w: "write_job_input_data json_loads json_dumps Map.empty 7 ?f = (d', Inr ())"
    by (simp add: write_job_input_data_def)
  from input_file_read_back [OF this]
  have "read_job_input_data json_loads d' 7 (int 1) (int 1) = Inr (take 1 (drop 1 [JArr [JInt 1, JBool True], JNull]))"
    unfolding f by (elim exE conjE) (drule spec [of _ 1], drule spec [of _ 1], simp)
  with w show ?thesis
    by (intro exI [of _ d']) simp
qed

text \<open>
  C34. The request cache is transparent: whatever earlier reads left in it, a read that starts at or
  after the cached offset, or that ends before it, returns exactly the requested slice of the
  stored job, and leaves a cache with the same guarantee.
\<close>

theorem cached_read_is_slice:
  assumes "disk_inputs json_dumps json_valid d j vs" and "cache_ok vs c j"
    and "current_job_offsets c j = Some off" and "s \<le> length vs" and "0 < k"
    and "off \<le> int s \<or> int s + int k \<le> off"
  shows "\<exists>c'. read_job_requests (read_job_input_data json_loads d) c j (int s) (int k)
             = (c', Inr (take k (drop s vs))) \<and> cache_ok vs c' j"
  using json.disk.read_job_requests_ok [OF assms] by blast

definition demo_disk :: disk where
  "demo_disk = Map.empty(7 \<mapsto>
     \<lparr>input_json = Some (json_lines json_dumps [JInt 1, JInt 2, JInt 3, JInt 4]), output_json = None\<rparr>)"

lemma demo_disk_inputs: "disk_inputs json_dumps json_valid demo_disk 7 [JInt 1, JInt 2, JInt 3, JInt 4]"
  by (simp add: disk_inputs_def demo_disk_def)

theorem cached_read_is_slice_witness:
  "\<exists>c'. read_job_requests (read_job_input_data json_loads demo_disk)
       \<lparr>current_job_offsets = Map.empty(7 \<mapsto> 0), job_input_requests = Map.empty\<rparr> 7 (int 1) (int 2)
     = (c', Inr [JInt 2, JInt 3])"
  using cached_read_is_slice [OF demo_disk_inputs, of
      "\<lparr>current_job_offsets = Map.empty(7 \<mapsto> 0), job_input_requests = Map.empty\<rparr>" 0 1 2]
  by (auto simp: cache_ok_def)

text \<open>
  A read that starts before the cached offset and reaches past it returns the request at the
  old offset twice, so what follows is shifted by one: backward random access is not supported.
\<close>

lemma backward_overlap_duplicates:
  assumes "disk_inputs json_dumps json_valid d j vs" and "current_job_offsets c j = Some (int a)"
    and "job_input_requests c j = Some (take n (drop a vs))" and "a + n \<le> length vs" and "0 < n"
    and "s < a" and "a + 1 < s + k" and "s + k \<le> a + n"
  shows "\<exists>c' rs. read_job_requests (read_job_input_data json_loads d) c j (int s) (int k) = (c', Inr rs)
           \<and> rs ! (a - s) = vs ! a \<and> rs ! (a + 1 - s) = vs ! a"
proof -
  let ?ls = "take (a - s) (drop s vs) @ [vs ! a] @ take n (drop a vs)"
  obtain en' where en: "read_entry (read_job_input_data json_loads d j) (int s) (int k)
      (int a, take n (drop a vs)) = (en', Inr (take k ?ls))"
    using json.disk.read_entry_overlap [OF assms(1,4,5,6)] assms(7,8) by (metis add_lessD1 prod.collapse)
  then have "snd (read_job_requests (read_job_input_data json_loads d) c j (int s) (int k)) = Inr (take k ?ls)"
    using assms(2,3) by (simp add: read_job_requests_def cache_fill_def)
  moreover have "take k ?ls ! (a - s) = vs ! a" "take k ?ls ! (a + 1 - s) = vs ! a"
    using assms(4-8) by (auto simp: nth_append Suc_diff_le)
  ultimately show ?thesis
    by (metis prod.collapse)
qed

lemma backward_overlap_duplicates_witness:
  "\<exists>c' rs. read_job_requests (read_job_input_data json_loads demo_disk)
       \<lparr>current_job_offsets = Map.empty(7 \<mapsto> int 1),
        job_input_requests = Map.empty(7 \<mapsto> [JInt 2, JInt 3, JInt 4])\<rparr> 7 (int 0) (int 3) = (c', Inr rs)
     \<and> rs ! 1 = JInt 2 \<and> rs ! 2 = JInt 2"
  using backward_overlap_duplicates [OF demo_disk_inputs, of
      "\<lparr>current_job_offsets = Map.empty(7 \<mapsto> int 1),
        job_input_requests = Map.empty(7 \<mapsto> [JInt 2, JInt 3, JInt 4])\<rparr>" 1 3 0 3]
  by (simp add: numeral_2_eq_2)

text \<open>
  Results on the local disk are append-only: after any sequence of writes, whatever start
  indices they name, reading from the beginning returns the results in the order of the writes.
\<close>

lemma outputs_in_write_order:
  assumes "disk_outputs json_dumps json_valid d j []" and "\<forall>w \<in> set writes. list_all json_valid (snd w)"
    and "concat (map snd writes) \<noteq> []"
  shows "read_job_output_data json_loads
           (foldl (\<lambda>d (s, rs). write_job_output_data json_dumps d j s rs) d writes) j 0
           (int (length (concat (map snd writes))))
         = Inr (concat (map snd writes))"
  using json.read_output_slice [OF json.write_outputs_concat [OF assms(1,2)], of 0
      "length (concat (map snd writes))"] assms(3)
  by simp

lemma outputs_in_write_order_witness:
  "read_job_output_data json_loads
     (foldl (\<lambda>d (s, rs). write_job_output_data json_dumps d 7 s rs) demo_disk
        [(1, [JStr ''b'']), (0, [JStr ''a''])]) 7 0 2 = Inr [JStr ''b'', JStr ''a'']"
  using outputs_in_write_order [of demo_disk 7 "[(1, [JStr ''b'']), (0, [JStr ''a''])]"]
  by (simp add: disk_outputs_def demo_disk_def numeral_2_eq_2)

text \<open>
  Requests written to TOS objects are read back: with a client whose puts succeed and are seen
  by later gets, and no object beyond the job's last one, every slice of the job is exact.
\<close>

lemma tos_read_back:
  assumes "object_client put get" and "\<forall>b k x. \<exists>b'. put b k x = Inr b'"
    and "tos_write_job_input_data put json_loads json_dumps b j f = (b', Inr ())"
    and "\<forall>i. \<exists>e. get b (TosInput j i) = Inl e"
  shows "\<exists>vs. read_input_file json_loads f = Inr vs
           \<and> (\<forall>s n. s \<le> length vs \<longrightarrow> 0 < n \<longrightarrow>
                tos_read_job_input_data get json_loads b' j (int s) (int n) = Inr (take n (drop s vs)))"
proof -
  obtain vs where vs: "read_input_file json_loads f = Inr vs"
    and b': "b' = tos_put_all put json_dumps (TosInput j) b 0 vs"
    using assms(3) by (auto simp: tos_write_job_input_data_def split: sum.splits)
  have g: "get b' (TosInput j (int i)) = Inr (json_dumps (vs ! i))" if "i < length vs" for i
  proof -
    have "get (tos_put_all put json_dumps (TosInput j) b 0 vs) (TosInput j (0 + int i)) = Inr (json_dumps (vs ! i))"
      by (rule object_client.tos_put_all_get [OF assms(1) inj_tos(1) assms(2) [rule_format] that])
    then show ?thesis
      using b' by simp
  qed
  have "get b' (TosInput j (int (length vs))) = get b (TosInput j (int (length vs)))"
    using object_client.tos_put_all_after [OF assms(1) inj_tos(1), of 0 vs "int (length vs)"] b'
    by simp
  then have "tos_inputs get json_dumps json_valid b' j vs"
    using json.read_input_valid [OF vs] assms(4) g by (simp add: tos_inputs_def)
  then show ?thesis
    using vs by (intro exI [of _ vs] conjI allI impI json.tos.read_slice_nat)
qed

lemma tos_read_back_witness:
  "\<exists>b'. tos_write_job_input_data bucket_put json_loads json_dumps Map.empty 7
           (Some [''[1, true]\<newline>'', ''\<newline>'', ''null'']) = (b', Inr ())
      \<and> tos_read_job_input_data bucket_get json_loads b' 7 (int 1) (int 5) = Inr [JNull]"
proof -
  let ?f = "Some [''[1, true]\<newline>'', ''\<newline>'', ''null'']"
  have f: "read_input_file json_loads ?f = Inr [JArr [JInt 1, JBool True], JNull]"
    by code_simp
  then obtain b' where w: "tos_write_job_input_data bucket_put json_loads json_dumps Map.empty 7 ?f = (b', Inr ())"
    by (simp add: tos_write_job_input_data_def)
  have "\<forall>b k x. \<exists>b'. bucket_put b k x = Inr b'" "\<forall>i. \<exists>e. bucket_get Map.empty (TosInput 7 i) = Inl e"
    by (simp_all add: bucket_put_def bucket_get_def)
  from tos_read_back [of bucket_put bucket_get, OF bucket.object_client_axioms this(1) w this(2)]
  have "tos_read_job_input_data bucket_get json_loads b' 7 (int 1) (int 5)
      = Inr (take 5 (drop 1 [JArr [JInt 1, JBool True], JNull]))"
    unfolding f by (elim exE conjE) (drule spec [of _ 1], drule spec [of _ 5], simp)
  with w show ?thesis
    by (intro exI [of _ b']) simp
qed

end
