(* ===== verification/Py_Text.thy ===== *)
theory Py_Text
  imports JSON_Codec
begin

text \<open>
  The string operations of Python the services use: \<open>int(s)\<close>, \<open>strip\<close>, substring search and the
  text between two markers.
\<close>

subsection \<open>Integers\<close>

text \<open>Python's \<open>int(s)\<close>: surrounding white space, a sign, digits with single underscores between.\<close>

definition py_space :: "char \<Rightarrow> bool" where
  "py_space c \<longleftrightarrow> (9 \<le> code c \<and> code c \<le> 13) \<or> (28 \<le> code c \<and> code c \<le> 32) \<or> code c = 133 \<or> code c = 160"

definition strip :: "string \<Rightarrow> string" where
  "strip s = rev (dropWhile py_space (rev (dropWhile py_space s)))"

fun digits_value :: "nat \<Rightarrow> string \<Rightarrow> nat option" where
  "digits_value acc [] = Some acc"
| "digits_value acc (c # cs) =
     (if is_digit c then digits_value (10 * acc + digit_val c) cs
      else if c = CHR ''_'' then
        (case cs of d # _ \<Rightarrow> if is_digit d then digits_value acc cs else None | [] \<Rightarrow> None)
      else None)"

definition unsigned_value :: "string \<Rightarrow> nat option" where
  "unsigned_value s = (case s of c # _ \<Rightarrow> if is_digit c then digits_value 0 s else None | [] \<Rightarrow> None)"

definition py_int :: "string \<Rightarrow> int option" where
  "py_int s =
     (case strip s of
        [] \<Rightarrow> None
      | c # t \<Rightarrow>
          if c = CHR ''-'' then map_option (\<lambda>n. - int n) (unsigned_value t)
          else if c = CHR ''+'' then map_option int (unsigned_value t)
          else map_option int (unsigned_value (c # t)))"

lemma digits_value_digits:
  "list_all is_digit s \<Longrightarrow> digits_value acc s = Some (foldl (\<lambda>a c. 10 * a + digit_val c) acc s)"
  by (induction s arbitrary: acc) auto

lemma digit_no_space: "is_digit c \<Longrightarrow> \<not> py_space c"
  by (auto simp: is_digit_def py_space_def)

lemma strip_digits:
  assumes "list_all is_digit s"
  shows "strip s = s"
proof -
  have d: "dropWhile py_space t = t" if "list_all is_digit t" for t
    using that digit_no_space by (cases t) auto
  show ?thesis
    using assms d [of s] d [of "rev s"] by (simp add: strip_def)
qed

lemma py_int_nat_str: "py_int (nat_str n) = Some (int n)"
proof -
  have d: "list_all is_digit (nat_str n)" "nat_of (nat_str n) = n" "nat_str n \<noteq> []"
    using nat_str_props [of n] by auto
  obtain c t where s: "nat_str n = c # t" "is_digit c"
    using d by (cases "nat_str n") auto
  then have "c \<noteq> CHR ''-''" "c \<noteq> CHR ''+''"
    using not_digit by metis+
  with s show ?thesis
    using d strip_digits [OF d(1)] digits_value_digits [OF d(1), of 0]
    by (simp add: py_int_def unsigned_value_def nat_of_def)
qed

subsection \<open>Substrings\<close>

text \<open>\<open>s.index(t)\<close>, without a result where Python raises \<open>ValueError\<close>.\<close>

fun starts_with :: "string \<Rightarrow> string \<Rightarrow> bool" where
  "starts_with [] s = True"
| "starts_with (c # cs) [] = False"
| "starts_with (c # cs) (d # ds) = (c = d \<and> starts_with cs ds)"

fun str_index :: "string \<Rightarrow> string \<Rightarrow> nat option" where
  "str_index t [] = (if t = [] then Some 0 else None)"
| "str_index t (c # cs) = (if starts_with t (c # cs) then Some 0 else map_option Suc (str_index t cs))"

definition contains :: "string \<Rightarrow> string \<Rightarrow> bool" where
  "contains t s = (str_index t s \<noteq> None)"

fun split_at :: "char \<Rightarrow> string \<Rightarrow> string list" where
  "split_at c [] = [[]]"
| "split_at c (x # xs) =
     (if x = c then [] # split_at c xs else (x # hd (split_at c xs)) # tl (split_at c xs))"

lemma split_at_nonempty: "split_at c xs \<noteq> []"
  by (induction xs) auto

lemma split_at_code [code]:
  "split_at c [] = [[]]"
  "split_at c (x # xs) = (case split_at c xs of [] \<Rightarrow> [] | y # ys \<Rightarrow> if x = c then [] # y # ys else (x # y) # ys)"
  using split_at_nonempty [of c xs] by (auto split: list.splits)

lemma split_at_no: "c \<notin> set x \<Longrightarrow> split_at c x = [x]"
  by (induction x) auto

lemma split_at_sep: "c \<notin> set x \<Longrightarrow> split_at c (x @ c # s) = x # split_at c s"
  by (induction x) auto

definition ends_with :: "string \<Rightarrow> string \<Rightarrow> bool" where
  "ends_with suf s \<longleftrightarrow> length suf \<le> length s \<and> drop (length s - length suf) s = suf"

lemma starts_with_append: "starts_with t (t @ s)"
  by (induction t) simp_all

lemma str_index_front: "str_index t (t @ s) = Some 0"
  by (cases "t @ s") (use starts_with_append [of t s] in \<open>auto\<close>)

end
