(* ===== verification/Batch_Jobs.thy ===== *)
theory Batch_Jobs
  imports Batch_Storage Py_Text
begin

text \<open>
  The job manager of \<^verbatim>\<open>aibrix/batch/job_manager.py\<close>: the metadata of one job (\<open>JobMetaInfo\<close>) with its
  progress bits, and the three pools of \<open>JobManager\<close>. The number of requests the storage reports
  for a job is an argument of the validation. The wall-clock stamps of a job, which nothing reads,
  are left out.
\<close>

subsection \<open>Job metadata\<close>

datatype job_status =
  CREATED | VALIDATING | FAILED | PENDING | IN_PROGRESS | EXPIRED | CANCELLING | CANCELED | COMPLETED

record job_meta =
  num_requests :: int
  model_endpoint :: string
  completion_window_str :: string
  completion_window :: int
  current_request_id :: int
  request_progress_bits :: "bool list"
  succeed_num_requests :: int
  meta_status :: job_status

definition JobMetaInfo :: "string \<Rightarrow> string \<Rightarrow> job_meta" where
  "JobMetaInfo endpoint window =
     \<lparr>num_requests = 0, model_endpoint = endpoint, completion_window_str = window,
      completion_window = 0, current_request_id = 0, request_progress_bits = [],
      succeed_num_requests = 0, meta_status = CREATED\<rparr>"

text \<open>\<open>xs[k] = x\<close>, raising outside the list.\<close>

definition py_store :: "'a list \<Rightarrow> int \<Rightarrow> 'a \<Rightarrow> py_error + 'a list" where
  "py_store xs k x =
     (if nat k < length xs \<and> k \<ge> 0 then Inr (xs[nat k := x])
      else if k < 0 \<and> nat (- k) \<le> length xs then Inr (xs[length xs - nat (- k) := x])
      else Inl IndexError)"

definition set_request_executed :: "job_meta \<Rightarrow> int \<Rightarrow> (job_meta, unit) outcome" where
  "set_request_executed m req_id =
     (case py_store (request_progress_bits m) req_id True of
        Inl e \<Rightarrow> (m, Inl e)
      | Inr bits \<Rightarrow> (m\<lparr>request_progress_bits := bits\<rparr>, Inr ()))"

definition get_request_bit :: "job_meta \<Rightarrow> int \<Rightarrow> py_error + bool" where
  "get_request_bit m req_id = py_index (request_progress_bits m) req_id"

definition complete_one_request :: "job_meta \<Rightarrow> int \<Rightarrow> (job_meta, unit) outcome" where
  "complete_one_request m req_id =
     (case py_index (request_progress_bits m) req_id of
        Inl e \<Rightarrow> (m, Inl e)
      | Inr True \<Rightarrow> (m, Inr ())
      | Inr False \<Rightarrow>
          obind (set_request_executed m req_id) (\<lambda>m1 _.
            let m2 = m1\<lparr>succeed_num_requests := succeed_num_requests m1 + 1\<rparr> in
            (if succeed_num_requests m2 = num_requests m2 then m2\<lparr>meta_status := COMPLETED\<rparr> else m2,
             Inr ())))"

text \<open>The search of \<open>next_request_id\<close>; \<open>None\<close> when the loop does not end.\<close>

partial_function (option) next_unset :: "bool list \<Rightarrow> int \<Rightarrow> int \<Rightarrow> (py_error + int) option" where
  [code]: "next_unset bits num req_id =
     (case py_index bits req_id of
        Inl e \<Rightarrow> Some (Inl e)
      | Inr b \<Rightarrow>
          if b then next_unset bits num (if req_id + 1 = num then 0 else req_id + 1)
          else Some (Inr req_id))"

definition next_request_id :: "job_meta \<Rightarrow> (py_error + int) option" where
  "next_request_id m =
     (if succeed_num_requests m = num_requests m then Some (Inr (-1))
      else next_unset (request_progress_bits m) (num_requests m) (current_request_id m))"

text \<open>The time string: minutes or hours, as minutes. The two caught exceptions are a \<open>None\<close>.\<close>

definition parse_window :: "string \<Rightarrow> py_error + int option" where
  "parse_window w =
     (if w = [] then Inl IndexError
      else if last w \<noteq> CHR ''m'' \<and> last w \<noteq> CHR ''h'' then Inr None
      else case py_int (butlast w) of
             None \<Rightarrow> Inr None
           | Some n \<Rightarrow> Inr (Some (if last w = CHR ''h'' then n * 60 else n)))"

definition validate_job :: "int \<Rightarrow> job_meta \<Rightarrow> (job_meta, bool) outcome" where
  "validate_job input_num m =
     (let m1 = m\<lparr>num_requests := input_num, request_progress_bits := replicate (nat input_num) False\<rparr> in
      if input_num = 0 then (m1, Inr False)
      else case parse_window (completion_window_str m1) of
             Inl e \<Rightarrow> (m1, Inl e)
           | Inr None \<Rightarrow> (m1, Inr False)
           | Inr (Some n) \<Rightarrow> (m1\<lparr>completion_window := n\<rparr>, Inr True))"

subsection \<open>The job manager\<close>

record job_manager =
  pending_jobs :: "job_id \<rightharpoonup> job_meta"
  in_progress_jobs :: "job_id \<rightharpoonup> job_meta"
  done_jobs :: "job_id \<rightharpoonup> job_meta"

definition JobManager :: job_manager where
  "JobManager = \<lparr>pending_jobs = Map.empty, in_progress_jobs = Map.empty, done_jobs = Map.empty\<rparr>"

definition create_job :: "int \<Rightarrow> job_manager \<Rightarrow> job_id \<Rightarrow> string \<Rightarrow> string \<Rightarrow> (job_manager, unit) outcome" where
  "create_job input_num jm j endpoint window =
     (case validate_job input_num ((JobMetaInfo endpoint window)\<lparr>meta_status := VALIDATING\<rparr>) of
        (m, Inl e) \<Rightarrow> (jm, Inl e)
      | (m, Inr valid) \<Rightarrow>
          if valid
          then (jm\<lparr>pending_jobs := (pending_jobs jm)(j \<mapsto> m\<lparr>meta_status := PENDING\<rparr>)\<rparr>, Inr ())
          else (jm, Inr ()))"

text \<open>
  \<open>job_id in self._done_jobs[job_id]\<close>: the lookup raises for a job that is not done, and the
  membership test raises on a \<open>JobMetaInfo\<close>, which is no container.
\<close>

definition in_done_entry :: "job_manager \<Rightarrow> job_id \<Rightarrow> py_error + bool" where
  "in_done_entry jm j = (case done_jobs jm j of None \<Rightarrow> Inl KeyError | Some m \<Rightarrow> Inl TypeError)"

definition cancel_job :: "job_manager \<Rightarrow> job_id \<Rightarrow> (job_manager, bool) outcome" where
  "cancel_job jm j =
     (case pending_jobs jm j of
        Some m \<Rightarrow>
          (jm\<lparr>pending_jobs := (pending_jobs jm)(j := None),
              done_jobs := (done_jobs jm)(j \<mapsto> m\<lparr>meta_status := CANCELED\<rparr>)\<rparr>, Inr True)
      | None \<Rightarrow>
          (case in_done_entry jm j of
             Inl e \<Rightarrow> (jm, Inl e)
           | Inr True \<Rightarrow> (jm, Inr False)
           | Inr False \<Rightarrow>
               (case in_progress_jobs jm j of
                  Some m \<Rightarrow>
                    (jm\<lparr>in_progress_jobs := (in_progress_jobs jm)(j := None),
                        done_jobs := (done_jobs jm)(j \<mapsto> m\<lparr>meta_status := CANCELED\<rparr>)\<rparr>, Inr True)
                | None \<Rightarrow> (jm, Inr False))))"

definition get_job_status :: "job_manager \<Rightarrow> job_id \<Rightarrow> job_status option" where
  "get_job_status jm j =
     (case pending_jobs jm j of
        Some m \<Rightarrow> Some (meta_status m)
      | None \<Rightarrow>
          (case in_progress_jobs jm j of
             Some m \<Rightarrow> Some (meta_status m)
           | None \<Rightarrow> map_option meta_status (done_jobs jm j)))"

definition start_execute_job :: "job_manager \<Rightarrow> job_id \<Rightarrow> job_manager \<times> bool" where
  "start_execute_job jm j =
     (case pending_jobs jm j of
        None \<Rightarrow> (jm, False)
      | Some m \<Rightarrow>
          if in_progress_jobs jm j \<noteq> None then (jm, False)
          else (jm\<lparr>in_progress_jobs := (in_progress_jobs jm)(j \<mapsto> m\<lparr>meta_status := IN_PROGRESS\<rparr>),
                   pending_jobs := (pending_jobs jm)(j := None)\<rparr>, True))"

definition get_job_next_request :: "job_manager \<Rightarrow> job_id \<Rightarrow> (py_error + int) option" where
  "get_job_next_request jm j =
     (case in_progress_jobs jm j of None \<Rightarrow> Some (Inr (-1)) | Some m \<Rightarrow> next_request_id m)"

definition get_job_window_due :: "job_manager \<Rightarrow> job_id \<Rightarrow> int" where
  "get_job_window_due jm j =
     (case pending_jobs jm j of None \<Rightarrow> -1 | Some m \<Rightarrow> completion_window m)"

text \<open>The endpoint, or \<open>None\<close> for the \<open>-1\<close> of a discarded job.\<close>

definition get_job_endpoint :: "job_manager \<Rightarrow> job_id \<Rightarrow> string option" where
  "get_job_endpoint jm j =
     (case pending_jobs jm j of
        Some m \<Rightarrow> Some (model_endpoint m)
      | None \<Rightarrow> map_option model_endpoint (in_progress_jobs jm j))"

text \<open>The loop over the executed requests, with the flag for indices out of range.\<close>

fun mark_requests :: "job_meta \<Rightarrow> bool \<Rightarrow> int list \<Rightarrow> (job_meta, bool) outcome" where
  "mark_requests m invalid [] = (m, Inr invalid)"
| "mark_requests m invalid (r # rs) =
     (if r < 0 \<or> r \<ge> num_requests m then mark_requests m True rs
      else obind (complete_one_request m r) (\<lambda>m' _. mark_requests m' invalid rs))"

definition mark_job_progress :: "job_manager \<Rightarrow> job_id \<Rightarrow> int list \<Rightarrow> (job_manager, bool) outcome" where
  "mark_job_progress jm j executed_requests =
     (case in_progress_jobs jm j of
        None \<Rightarrow> (jm, Inr False)
      | Some m \<Rightarrow>
          (case mark_requests m False executed_requests of
             (m', Inl e) \<Rightarrow> (jm\<lparr>in_progress_jobs := (in_progress_jobs jm)(j \<mapsto> m')\<rparr>, Inl e)
           | (m', Inr invalid) \<Rightarrow>
               (if meta_status m' = COMPLETED
                then jm\<lparr>in_progress_jobs := (in_progress_jobs jm)(j := None),
                        done_jobs := (done_jobs jm)(j \<mapsto> m')\<rparr>
                else jm\<lparr>in_progress_jobs := (in_progress_jobs jm)(j \<mapsto> m')\<rparr>,
                Inr (\<not> invalid))))"

definition expire_job :: "job_manager \<Rightarrow> job_id \<Rightarrow> job_manager \<times> bool" where
  "expire_job jm j =
     (case pending_jobs jm j of
        Some m \<Rightarrow>
          (jm\<lparr>done_jobs := (done_jobs jm)(j \<mapsto> m\<lparr>meta_status := EXPIRED\<rparr>),
              pending_jobs := (pending_jobs jm)(j := None)\<rparr>, True)
      | None \<Rightarrow>
          if in_progress_jobs jm j \<noteq> None then (jm, False)
          else if done_jobs jm j \<noteq> None then (jm, False)
          else (jm, True))"

subsection \<open>Well-formed metadata\<close>

text \<open>One progress bit per request, and the counter counts the set bits.\<close>

definition wf_meta :: "job_meta \<Rightarrow> bool" where
  "wf_meta m \<longleftrightarrow>
     num_requests m = int (length (request_progress_bits m)) \<and>
     succeed_num_requests m = int (count_true (request_progress_bits m)) \<and>
     current_request_id m = 0"

definition all_done :: "job_meta \<Rightarrow> bool" where
  "all_done m \<longleftrightarrow> (\<forall>i < length (request_progress_bits m). request_progress_bits m ! i)"

lemma all_done_count:
  "wf_meta m \<Longrightarrow> all_done m \<longleftrightarrow> succeed_num_requests m = num_requests m"
  using count_true_all [of "request_progress_bits m"] by (auto simp: wf_meta_def all_done_def)

definition meta_shape :: "job_meta \<Rightarrow> int \<times> string \<times> int" where
  "meta_shape m = (num_requests m, model_endpoint m, completion_window m)"

lemma complete_one_request_spec:
  assumes wf: "wf_meta m" and i: "i < length (request_progress_bits m)"
  obtains m' where "complete_one_request m (int i) = (m', Inr ())" "wf_meta m'"
    "request_progress_bits m' = (request_progress_bits m)[i := True]" "meta_shape m' = meta_shape m"
    "meta_status m' = (if all_done m' \<and> \<not> all_done m then COMPLETED else meta_status m)"
proof (cases "request_progress_bits m ! i")
  case True
  then have "complete_one_request m (int i) = (m, Inr ())"
    using i by (simp add: complete_one_request_def)
  then show ?thesis
    by (rule that) (use True wf list_update_id [of "request_progress_bits m" i] in auto)
next
  case False
  let ?m1 = "m\<lparr>request_progress_bits := (request_progress_bits m)[i := True],
    succeed_num_requests := succeed_num_requests m + 1\<rparr>"
  let ?m' = "if succeed_num_requests ?m1 = num_requests ?m1 then ?m1\<lparr>meta_status := COMPLETED\<rparr> else ?m1"
  have c: "complete_one_request m (int i) = (?m', Inr ())"
    using i False by (simp add: complete_one_request_def set_request_executed_def py_store_def Let_def)
  have wf': "wf_meta ?m'"
    using wf count_true_set [OF i False] by (simp add: wf_meta_def)
  have nd: "\<not> all_done m"
    using False i by (auto simp: all_done_def)
  show ?thesis
    by (rule that [OF c wf']) (use nd all_done_count [OF wf'] in \<open>auto simp: meta_shape_def\<close>)
qed

definition set_bits :: "bool list \<Rightarrow> int list \<Rightarrow> bool list" where
  "set_bits bits rs = map (\<lambda>i. bits ! i \<or> int i \<in> set rs) [0..<length bits]"

lemma length_set_bits [simp]: "length (set_bits bits rs) = length bits"
  by (simp add: set_bits_def)

lemma set_bits_Nil [simp]: "set_bits bits [] = bits"
  by (simp add: set_bits_def map_nth)

lemma set_bits_in: "i < length bits \<Longrightarrow> set_bits (bits[i := True]) rs = set_bits bits (int i # rs)"
  by (auto simp: set_bits_def nth_list_update)

lemma set_bits_out: "r < 0 \<or> r \<ge> int (length bits) \<Longrightarrow> set_bits bits (r # rs) = set_bits bits rs"
  by (auto simp: set_bits_def)

lemma set_bits_nth: "i < length bits \<Longrightarrow> set_bits bits rs ! i \<longleftrightarrow> bits ! i \<or> int i \<in> set rs"
  by (simp add: set_bits_def)

lemma mark_requests_spec:
  assumes "wf_meta m"
  shows "\<exists>m'. mark_requests m flag rs = (m', Inr (flag \<or> (\<exists>r \<in> set rs. r < 0 \<or> r \<ge> num_requests m)))
     \<and> wf_meta m' \<and> meta_shape m' = meta_shape m
     \<and> request_progress_bits m' = set_bits (request_progress_bits m) rs
     \<and> meta_status m' = (if all_done m' \<and> \<not> all_done m then COMPLETED else meta_status m)"
  using assms
proof (induction rs arbitrary: m flag)
  case (Cons r rs)
  let ?bits = "request_progress_bits m"
  have n: "num_requests m = int (length ?bits)"
    using Cons.prems by (simp add: wf_meta_def)
  show ?case
  proof (cases "r < 0 \<or> r \<ge> num_requests m")
    case True
    then have "mark_requests m flag (r # rs) = mark_requests m True rs"
      and "set_bits ?bits (r # rs) = set_bits ?bits rs"
      using n set_bits_out [of r ?bits rs] by auto
    moreover have "\<exists>x \<in> set (r # rs). x < 0 \<or> x \<ge> num_requests m"
      using True by simp
    ultimately show ?thesis
      using Cons.IH [OF Cons.prems, of True] by simp
  next
    case False
    then obtain i where i: "r = int i" "i < length ?bits"
      using n by (intro that [of "nat r"]) auto
    obtain m1 where m1: "complete_one_request m (int i) = (m1, Inr ())" "wf_meta m1"
      "request_progress_bits m1 = ?bits[i := True]" "meta_shape m1 = meta_shape m"
      "meta_status m1 = (if all_done m1 \<and> \<not> all_done m then COMPLETED else meta_status m)"
      using complete_one_request_spec [OF Cons.prems i(2)] .
    obtain m' where m': "mark_requests m1 flag rs = (m', Inr (flag \<or> (\<exists>r \<in> set rs. r < 0 \<or> r \<ge> num_requests m1)))"
      "wf_meta m'" "meta_shape m' = meta_shape m1" "request_progress_bits m' = set_bits (request_progress_bits m1) rs"
      "meta_status m' = (if all_done m' \<and> \<not> all_done m1 then COMPLETED else meta_status m1)"
      using Cons.IH [OF m1(2)] by blast
    have d1: "all_done m \<Longrightarrow> all_done m1"
      unfolding all_done_def m1(3) using i(2) by (simp add: nth_list_update)
    have d2: "all_done m1 \<Longrightarrow> all_done m'"
      unfolding all_done_def m'(4) by (simp add: set_bits_nth)
    have e1: "mark_requests m flag (r # rs) = mark_requests m1 flag rs"
      using False i(1) m1(1) by simp
    have e2: "(\<exists>x \<in> set (r # rs). x < 0 \<or> x \<ge> num_requests m) \<longleftrightarrow> (\<exists>x \<in> set rs. x < 0 \<or> x \<ge> num_requests m1)"
      using False m1(4) by (simp add: meta_shape_def)
    have e3: "request_progress_bits m' = set_bits ?bits (r # rs)"
      unfolding m'(4) m1(3) set_bits_in [OF i(2)] i(1) ..
    have "meta_status m' = (if all_done m' \<and> \<not> all_done m then COMPLETED else meta_status m)"
    proof (cases "all_done m1")
      case True
      with d2 m'(5) m1(5) show ?thesis by auto
    next
      case False
      with d1 m'(5) m1(5) show ?thesis by auto
    qed
    then show ?thesis
      unfolding e1 e2 m'(1) using m'(2,3) m1(4) e3 by auto
  qed
qed simp

text \<open>The search finds the first request that is not executed.\<close>

lemma next_unset_first:
  assumes "i < length bits" and "\<not> bits ! i" and "r \<le> i" and "\<forall>k. r \<le> k \<and> k < i \<longrightarrow> bits ! k"
  shows "next_unset bits (int (length bits)) (int r) = Some (Inr (int i))"
  using assms(3,4)
proof (induction "i - r" arbitrary: r)
  case 0
  then show ?case
    using assms(1,2) by (simp add: next_unset.simps [of _ _ "int r"])
next
  case (Suc n)
  then have "next_unset bits (int (length bits)) (int (Suc r)) = Some (Inr (int i))"
    by (intro Suc.hyps(1)) auto
  moreover have "int r + 1 \<noteq> int (length bits)" "r < length bits" "bits ! r"
    using Suc assms(1) by auto
  ultimately show ?case
    by (simp add: next_unset.simps [of _ _ "int r"] add.commute)
qed

lemma next_request_id_spec:
  assumes wf: "wf_meta m" and nd: "\<not> all_done m"
  obtains i where "next_request_id m = Some (Inr (int i))" "i < length (request_progress_bits m)"
    "\<not> request_progress_bits m ! i" "\<forall>k < i. request_progress_bits m ! k"
proof -
  let ?P = "\<lambda>i. i < length (request_progress_bits m) \<and> \<not> request_progress_bits m ! i"
  have "\<exists>i. ?P i"
    using nd by (auto simp: all_done_def)
  then obtain i where i: "?P i" "\<forall>k < i. \<not> ?P k"
    unfolding exists_least_iff [of ?P] by blast
  then have "\<forall>k < i. request_progress_bits m ! k"
    by auto
  note i = i(1) this
  have "next_request_id m = Some (Inr (int i))"
    using next_unset_first [of i "request_progress_bits m" 0] i wf nd all_done_count [OF wf]
    by (auto simp: next_request_id_def wf_meta_def)
  then show ?thesis
    using that i by blast
qed

subsection \<open>The invariant of the pools\<close>

definition pending_ok :: "job_meta \<Rightarrow> bool" where
  "pending_ok m \<longleftrightarrow> wf_meta m \<and> meta_status m = PENDING \<and> succeed_num_requests m = 0 \<and> \<not> all_done m"

definition running_ok :: "job_meta \<Rightarrow> bool" where
  "running_ok m \<longleftrightarrow> wf_meta m \<and> meta_status m = IN_PROGRESS \<and> \<not> all_done m"

definition done_ok :: "job_meta \<Rightarrow> bool" where
  "done_ok m \<longleftrightarrow> wf_meta m \<and> meta_status m \<in> {EXPIRED, CANCELED, COMPLETED}
     \<and> (meta_status m = COMPLETED \<longleftrightarrow> all_done m)"

definition jm_inv :: "job_manager \<Rightarrow> bool" where
  "jm_inv jm \<longleftrightarrow>
     (\<forall>j m. pending_jobs jm j = Some m \<longrightarrow> pending_ok m) \<and>
     (\<forall>j m. in_progress_jobs jm j = Some m \<longrightarrow> running_ok m) \<and>
     (\<forall>j m. done_jobs jm j = Some m \<longrightarrow> done_ok m)"

lemma jm_invD:
  assumes "jm_inv jm"
  shows "pending_jobs jm j = Some m \<Longrightarrow> pending_ok m"
    and "in_progress_jobs jm j = Some m \<Longrightarrow> running_ok m"
    and "done_jobs jm j = Some m \<Longrightarrow> done_ok m"
  using assms by (auto simp: jm_inv_def)

lemma wf_meta_status [simp]: "wf_meta (m\<lparr>meta_status := st\<rparr>) = wf_meta m"
  by (simp add: wf_meta_def)

lemma all_done_status [simp]: "all_done (m\<lparr>meta_status := st\<rparr>) = all_done m"
  by (simp add: all_done_def)

lemma jm_inv_init: "jm_inv JobManager"
  by (simp add: jm_inv_def JobManager_def)

lemma pending_ok_new:
  assumes "validate_job n ((JobMetaInfo e w)\<lparr>meta_status := VALIDATING\<rparr>) = (m, Inr True)" and "0 \<le> n"
  shows "pending_ok (m\<lparr>meta_status := PENDING\<rparr>)"
  using assms
  by (auto simp: validate_job_def JobMetaInfo_def pending_ok_def wf_meta_def all_done_def Let_def
      intro!: exI [of _ 0] split: if_splits sum.splits option.splits)

lemma jm_inv_create:
  "jm_inv jm \<Longrightarrow> 0 \<le> n \<Longrightarrow> jm_inv (fst (create_job n jm j e w))"
  using pending_ok_new [of n e w]
  by (auto simp: create_job_def jm_inv_def split: prod.splits sum.splits)

lemma jm_inv_cancel: "jm_inv jm \<Longrightarrow> jm_inv (fst (cancel_job jm j))"
  by (auto simp: cancel_job_def in_done_entry_def jm_inv_def done_ok_def pending_ok_def split: option.splits)

lemma jm_inv_start: "jm_inv jm \<Longrightarrow> jm_inv (fst (start_execute_job jm j))"
  by (auto simp: start_execute_job_def jm_inv_def running_ok_def pending_ok_def split: option.splits)

lemma jm_inv_expire: "jm_inv jm \<Longrightarrow> jm_inv (fst (expire_job jm j))"
  by (auto simp: expire_job_def jm_inv_def done_ok_def pending_ok_def split: option.splits)

text \<open>What \<open>mark_job_progress\<close> does to a running job.\<close>

lemma mark_job_progress_spec:
  assumes "jm_inv jm" and m: "in_progress_jobs jm j = Some m"
  obtains m' where "wf_meta m'" "request_progress_bits m' = set_bits (request_progress_bits m) rs"
    "meta_shape m' = meta_shape m"
    "meta_status m' = (if all_done m' then COMPLETED else IN_PROGRESS)"
    "mark_job_progress jm j rs =
       (if all_done m'
        then jm\<lparr>in_progress_jobs := (in_progress_jobs jm)(j := None), done_jobs := (done_jobs jm)(j \<mapsto> m')\<rparr>
        else jm\<lparr>in_progress_jobs := (in_progress_jobs jm)(j \<mapsto> m')\<rparr>,
        Inr (\<forall>r \<in> set rs. 0 \<le> r \<and> r < num_requests m))"
proof -
  have ok: "running_ok m"
    using jm_invD(2) [OF assms(1)] m .
  then obtain m' where "mark_requests m False rs = (m', Inr (\<exists>r \<in> set rs. r < 0 \<or> r \<ge> num_requests m))"
    "wf_meta m'" "meta_shape m' = meta_shape m" "request_progress_bits m' = set_bits (request_progress_bits m) rs"
    "meta_status m' = (if all_done m' then COMPLETED else IN_PROGRESS)"
    using mark_requests_spec [of m False rs] by (auto simp: running_ok_def)
  then show ?thesis
    using that [of m'] m by (simp add: mark_job_progress_def not_less not_le)
qed

lemma jm_inv_mark:
  assumes "jm_inv jm"
  shows "jm_inv (fst (mark_job_progress jm j rs))"
proof (cases "in_progress_jobs jm j")
  case (Some m)
  show ?thesis
    by (rule mark_job_progress_spec [OF assms Some, of rs])
      (use assms in \<open>auto simp: jm_inv_def done_ok_def running_ok_def\<close>)
qed (simp add: mark_job_progress_def assms)

lemmas jm_inv_ops = jm_inv_create jm_inv_cancel jm_inv_start jm_inv_expire jm_inv_mark

subsection \<open>Runs of the job manager\<close>

text \<open>A call of the manager; an exception is left to the caller and the state it left stays.\<close>

datatype jm_call =
    CallCreate job_id int string string
  | CallCancel job_id
  | CallStart job_id
  | CallMark job_id "int list"
  | CallExpire job_id

fun jm_exec :: "job_manager \<Rightarrow> jm_call \<Rightarrow> job_manager" where
  "jm_exec jm (CallCreate j n e w) = fst (create_job n jm j e w)"
| "jm_exec jm (CallCancel j) = fst (cancel_job jm j)"
| "jm_exec jm (CallStart j) = fst (start_execute_job jm j)"
| "jm_exec jm (CallMark j rs) = fst (mark_job_progress jm j rs)"
| "jm_exec jm (CallExpire j) = fst (expire_job jm j)"

fun counts_ok :: "jm_call \<Rightarrow> bool" where
  "counts_ok (CallCreate j n e w) = (0 \<le> n)"
| "counts_ok _ = True"

lemma jm_inv_exec: "jm_inv jm \<Longrightarrow> counts_ok c \<Longrightarrow> jm_inv (jm_exec jm c)"
  by (cases c) (simp_all add: jm_inv_ops)

lemma jm_inv_run: "jm_inv jm \<Longrightarrow> list_all counts_ok cs \<Longrightarrow> jm_inv (foldl jm_exec jm cs)"
  by (induction cs arbitrary: jm) (simp_all add: jm_inv_exec)

subsection \<open>Properties\<close>

text \<open>
  C4. Through every sequence of calls the three pools stay consistent: a pending job has no executed
  request and an unexecuted one, a job in progress has a request left, a finished job is expired,
  cancelled or completed, and it is completed exactly when all its requests are executed; each
  counter equals the number of set progress bits.
\<close>

theorem job_pools_consistent:
  assumes "list_all counts_ok calls"
  shows "jm_inv (foldl jm_exec JobManager calls)"
  using jm_inv_run [OF jm_inv_init assms] .

theorem job_pools_consistent_witness:
  "jm_inv (foldl jm_exec JobManager
     [CallCreate 1 2 ''gpt'' ''1h'', CallStart 1, CallMark 1 [1, 5], CallExpire 1, CallMark 1 [0]])"
  by (rule job_pools_consistent) simp

text \<open>
  The next request of a job in progress is always found: the search of \<open>next_request_id\<close> ends,
  and it returns the first index whose request has not been executed.
\<close>

lemma next_request_is_first_unexecuted:
  assumes "list_all counts_ok calls" and "jm = foldl jm_exec JobManager calls"
    and "in_progress_jobs jm j = Some m"
  shows "\<exists>i < length (request_progress_bits m). get_job_next_request jm j = Some (Inr (int i))
           \<and> \<not> request_progress_bits m ! i \<and> (\<forall>k < i. request_progress_bits m ! k)"
proof -
  have "running_ok m"
    using jm_invD(2) [OF jm_inv_run [OF jm_inv_init assms(1)]] assms(2,3) by blast
  then have "wf_meta m" "\<not> all_done m"
    by (simp_all add: running_ok_def)
  then show ?thesis
    by (rule next_request_id_spec) (use assms(3) in \<open>auto simp: get_job_next_request_def\<close>)
qed

definition demo_calls :: "jm_call list" where
  "demo_calls = [CallCreate 1 2 ''gpt'' ''1h'', CallStart 1, CallMark 1 [0]]"

definition demo_meta :: job_meta where
  "demo_meta =
     \<lparr>num_requests = 2, model_endpoint = ''gpt'', completion_window_str = ''1h'',
      completion_window = 60, current_request_id = 0, request_progress_bits = [True, False],
      succeed_num_requests = 1, meta_status = IN_PROGRESS\<rparr>"

lemma demo_window: "parse_window ''1h'' = Inr (Some 60)"
  by code_simp

lemma demo_run: "in_progress_jobs (foldl jm_exec JobManager demo_calls) 1 = Some demo_meta"
  by (simp add: demo_calls_def demo_meta_def JobManager_def create_job_def validate_job_def
      JobMetaInfo_def demo_window start_execute_job_def mark_job_progress_def numeral_2_eq_2
      complete_one_request_def set_request_executed_def py_index_def py_store_def Let_def)

lemma next_request_is_first_unexecuted_witness:
  "\<exists>i < length (request_progress_bits demo_meta).
     get_job_next_request (foldl jm_exec JobManager demo_calls) 1 = Some (Inr (int i))
     \<and> \<not> request_progress_bits demo_meta ! i"
  using next_request_is_first_unexecuted [OF _ refl demo_run]
  by (auto simp: demo_calls_def)

text \<open>
  C35. Marking progress completes a job exactly when every request is executed: afterwards the job is
  in the finished pool with status \<open>COMPLETED\<close> if and only if each of its requests was executed
  before or is in the reported list; otherwise it stays in progress. Reporting a request again
  changes nothing, and an index out of range is only reported.
\<close>

theorem mark_completes_iff_all_executed:
  assumes "jm_inv jm" and "in_progress_jobs jm j = Some m"
    and "bits = request_progress_bits m" and "mark_job_progress jm j rs = (jm', r)"
  shows "r = Inr (\<forall>x \<in> set rs. 0 \<le> x \<and> x < int (length bits)) \<and>
     (if \<forall>i < length bits. bits ! i \<or> int i \<in> set rs
      then in_progress_jobs jm' j = None \<and> map_option meta_status (done_jobs jm' j) = Some COMPLETED
      else \<exists>m'. in_progress_jobs jm' j = Some m' \<and> meta_status m' = IN_PROGRESS \<and>
             (\<forall>i < length bits. request_progress_bits m' ! i \<longleftrightarrow> bits ! i \<or> int i \<in> set rs))"
proof -
  have n: "num_requests m = int (length bits)"
    using jm_invD(2) [OF assms(1,2)] assms(3) by (simp add: running_ok_def wf_meta_def)
  obtain m1 where m1: "wf_meta m1" "request_progress_bits m1 = set_bits (request_progress_bits m) rs"
    "meta_shape m1 = meta_shape m" "meta_status m1 = (if all_done m1 then COMPLETED else IN_PROGRESS)"
    and k: "mark_job_progress jm j rs =
       (if all_done m1
        then jm\<lparr>in_progress_jobs := (in_progress_jobs jm)(j := None), done_jobs := (done_jobs jm)(j \<mapsto> m1)\<rparr>
        else jm\<lparr>in_progress_jobs := (in_progress_jobs jm)(j \<mapsto> m1)\<rparr>,
        Inr (\<forall>r \<in> set rs. 0 \<le> r \<and> r < num_requests m))"
    by (rule mark_job_progress_spec [OF assms(1,2), of rs])
  have d: "all_done m1 \<longleftrightarrow> (\<forall>i < length bits. bits ! i \<or> int i \<in> set rs)"
    using assms(3) by (simp add: all_done_def m1(2) set_bits_nth)
  show ?thesis
    unfolding d [symmetric] using k m1(2,4) assms(3,4) n by (auto simp: set_bits_nth)
qed

theorem mark_completes_iff_all_executed_witness:
  "map_option meta_status
     (done_jobs (fst (mark_job_progress (foldl jm_exec JobManager demo_calls) 1 [1, 7])) 1) = Some COMPLETED"
proof -
  have "jm_inv (foldl jm_exec JobManager demo_calls)"
    by (rule jm_inv_run [OF jm_inv_init]) (simp add: demo_calls_def)
  from mark_completes_iff_all_executed [OF this demo_run refl prod.collapse [symmetric], of "[1, 7]"]
  show ?thesis
    by (simp add: demo_meta_def nth_Cons split: nat.splits if_splits)
qed

text \<open>
  Only a job that is still waiting can be cancelled: it moves to the finished jobs with status
  canceled. Every other call raises and changes nothing, because the membership test of the finished
  jobs looks the job up there first: \<open>KeyError\<close> for a job in progress or unknown, \<open>TypeError\<close> for a
  finished one.
\<close>

lemma cancel_only_waiting_jobs:
  "cancel_job jm j =
     (case pending_jobs jm j of
        Some m \<Rightarrow> (jm\<lparr>pending_jobs := (pending_jobs jm)(j := None),
                     done_jobs := (done_jobs jm)(j \<mapsto> m\<lparr>meta_status := CANCELED\<rparr>)\<rparr>, Inr True)
      | None \<Rightarrow> (jm, Inl (if done_jobs jm j = None then KeyError else TypeError)))"
  by (simp add: cancel_job_def in_done_entry_def split: option.split)

text \<open>
  A completion window of a decimal number of minutes or hours is accepted with its value in
  minutes.
\<close>

lemma completion_window_in_minutes:
  "parse_window (nat_str n @ ''m'') = Inr (Some (int n)) \<and>
   parse_window (nat_str n @ ''h'') = Inr (Some (60 * int n))"
  by (simp add: parse_window_def py_int_nat_str)

end
