(* ===== verification/Batch_Scheduler.thy ===== *)
theory Batch_Scheduler
  imports Batch_Jobs
begin

text \<open>
  The job scheduler of \<^verbatim>\<open>aibrix/batch/scheduler.py\<close>: the pool of running slots with its resizing
  (\<open>BasicCongestionControl\<close>) and \<open>JobScheduler\<close> with its queue, its list of due times and the
  round robin over the pool. A slot is an optional job id. The clock is an argument.
\<close>

subsection \<open>The pool of running jobs\<close>

record cc_state =
  running_job_pool :: "job_id option list"
  job_pool_size :: int
  running_job_idx :: nat

definition BasicCongestionControl :: "nat \<Rightarrow> cc_state" where
  "BasicCongestionControl pool_size =
     \<lparr>running_job_pool = replicate pool_size None, job_pool_size = int pool_size, running_job_idx = 0\<rparr>"

text \<open>The two-pointer loop of \<open>tighten_jobs\<close>.\<close>

function tighten_loop :: "job_id option list \<Rightarrow> nat \<Rightarrow> nat \<Rightarrow> job_id option list \<times> nat" where
  "tighten_loop pool slow fast =
     (if slow < length pool \<and> fast < length pool then
        (case pool ! fast of
           None \<Rightarrow> tighten_loop pool slow (fast + 1)
         | Some j \<Rightarrow>
             tighten_loop (if fast \<noteq> slow then (pool[slow := Some j])[fast := None] else pool)
               (slow + 1) (fast + 1))
      else (pool, slow))"
  by pat_completeness auto

termination
  by (relation "measure (\<lambda>(pool, slow, fast). length pool - fast)") auto

declare tighten_loop.simps [simp del]

text \<open>The position of the current job among the first \<open>n\<close> slots, else the old position.\<close>

fun track_idx :: "job_id option \<Rightarrow> nat \<Rightarrow> nat \<Rightarrow> job_id option list \<Rightarrow> nat \<Rightarrow> nat" where
  "track_idx cur i 0 pool old = old"
| "track_idx cur i (Suc n) pool old = (if pool ! i = cur then i else track_idx cur (i + 1) n pool old)"

definition tighten_jobs :: "cc_state \<Rightarrow> (cc_state, unit) outcome" where
  "tighten_jobs cc =
     (case py_index (running_job_pool cc) (int (running_job_idx cc)) of
        Inl e \<Rightarrow> (cc, Inl e)
      | Inr cur \<Rightarrow>
          let (pool, slow) = tighten_loop (running_job_pool cc) 0 0 in
          (cc\<lparr>running_job_pool := pool, running_job_idx := track_idx cur 0 slow pool (running_job_idx cc)\<rparr>,
           Inr ()))"

function drop_free_tail :: "int \<Rightarrow> job_id option list \<Rightarrow> job_id option list" where
  "drop_free_tail n pool =
     (if int (length pool) > n \<and> pool \<noteq> [] \<and> last pool = None then drop_free_tail n (butlast pool) else pool)"
  by pat_completeness auto

termination
  by (relation "measure (\<lambda>(n, pool). length pool)") auto

declare drop_free_tail.simps [simp del]

definition shrink_resource :: "cc_state \<Rightarrow> (cc_state, unit) outcome" where
  "shrink_resource cc =
     obind (tighten_jobs cc) (\<lambda>cc _.
       (cc\<lparr>running_job_pool := drop_free_tail (job_pool_size cc) (running_job_pool cc)\<rparr>, Inr ()))"

definition grow_resource :: "cc_state \<Rightarrow> (cc_state, unit) outcome" where
  "grow_resource cc =
     obind (tighten_jobs cc) (\<lambda>cc _.
       (cc\<lparr>running_job_pool := running_job_pool cc
            @ replicate (nat (job_pool_size cc - int (length (running_job_pool cc)))) None\<rparr>, Inr ()))"

definition update_job_pool_size :: "cc_state \<Rightarrow> int \<Rightarrow> (cc_state, unit) outcome" where
  "update_job_pool_size cc new_pool_size =
     (if new_pool_size < 1 then (cc, Inl AssertionError)
      else
        let cc = cc\<lparr>job_pool_size := new_pool_size\<rparr> in
        obind (if job_pool_size cc < int (length (running_job_pool cc)) then shrink_resource cc else (cc, Inr ()))
          (\<lambda>cc _. if job_pool_size cc > int (length (running_job_pool cc)) then grow_resource cc else (cc, Inr ())))"

subsection \<open>The scheduler\<close>

datatype schedule_policy = FIFO

record scheduler =
  jobs_queue :: "job_id list"
  inactive_jobs :: "job_id set"
  due_jobs_list :: "(job_id \<times> real) list"
  cc_controller :: cc_state
  current_pool_size :: int

text \<open>The constructor takes its pool from the default controller, whatever \<open>pool_size\<close> is passed.\<close>

definition DEFAULT_JOB_POOL_SIZE :: nat where
  "DEFAULT_JOB_POOL_SIZE = 1"

definition JobScheduler :: "int \<Rightarrow> scheduler" where
  "JobScheduler pool_size =
     (let cc = BasicCongestionControl DEFAULT_JOB_POOL_SIZE in
      \<lparr>jobs_queue = [], inactive_jobs = {}, due_jobs_list = [], cc_controller = cc,
       current_pool_size = job_pool_size cc\<rparr>)"

definition configure_job_pool_size :: "scheduler \<Rightarrow> int \<Rightarrow> scheduler" where
  "configure_job_pool_size sc n = sc\<lparr>current_pool_size := n\<rparr>"

text \<open>\<open>bisect.bisect_left\<close>.\<close>

function bisect_left :: "real list \<Rightarrow> real \<Rightarrow> nat \<Rightarrow> nat \<Rightarrow> nat" where
  "bisect_left a x lo hi =
     (if lo < hi then
        (let mid = (lo + hi) div 2 in
         if a ! mid < x then bisect_left a x (mid + 1) hi else bisect_left a x lo mid)
      else lo)"
  by pat_completeness auto

termination
  by (relation "measure (\<lambda>(a, x, lo, hi). hi - lo)") auto

declare bisect_left.simps [simp del]

definition insert_at :: "nat \<Rightarrow> 'a \<Rightarrow> 'a list \<Rightarrow> 'a list" where
  "insert_at i x xs = take i xs @ x # drop i xs"

definition append_job :: "real \<Rightarrow> scheduler \<Rightarrow> job_id \<Rightarrow> int \<Rightarrow> scheduler" where
  "append_job now sc j due_time_seconds =
     (let due_time = now + of_int due_time_seconds;
          keys = map snd (due_jobs_list sc);
          index = bisect_left keys due_time 0 (length keys)
      in sc\<lparr>jobs_queue := jobs_queue sc @ [j],
            due_jobs_list := insert_at index (j, due_time) (due_jobs_list sc)\<rparr>)"

text \<open>Pop past inactive jobs while the queue has another one.\<close>

fun pop_active :: "job_id set \<Rightarrow> job_id \<Rightarrow> job_id list \<Rightarrow> job_id \<times> job_id list" where
  "pop_active inactive j [] = (j, [])"
| "pop_active inactive j (k # q) = (if j \<in> inactive then pop_active inactive k q else (j, k # q))"

definition schedule_next_job :: "scheduler \<Rightarrow> job_manager \<Rightarrow> job_id option \<times> scheduler \<times> job_manager" where
  "schedule_next_job sc jm =
     (case jobs_queue sc of
        [] \<Rightarrow> (None, sc, jm)
      | j # q \<Rightarrow>
          let (j', q') = pop_active (inactive_jobs sc) j q in
          (Some j', sc\<lparr>jobs_queue := q'\<rparr>, fst (start_execute_job jm j')))"

definition get_inactive_jobs :: "scheduler \<Rightarrow> job_id set" where
  "get_inactive_jobs sc = inactive_jobs sc"

definition expire_jobs :: "real \<Rightarrow> scheduler \<Rightarrow> scheduler" where
  "expire_jobs now sc =
     (let idx = length (takeWhile (\<lambda>it. snd it \<le> now) (due_jobs_list sc)) in
      sc\<lparr>inactive_jobs := inactive_jobs sc \<union> fst ` set (take idx (due_jobs_list sc)),
         due_jobs_list := drop idx (due_jobs_list sc)\<rparr>)"

text \<open>Step 1 of \<open>round_robin_get_job\<close>: free the slots of completed jobs.\<close>

definition free_completed :: "job_manager \<Rightarrow> job_id option list \<Rightarrow> job_id option list" where
  "free_completed jm pool =
     map (\<lambda>slot. case slot of
            None \<Rightarrow> None
          | Some j \<Rightarrow> if get_job_status jm j = Some COMPLETED then None else Some j) pool"

text \<open>Step 2: at most one turn around the pool, from the slot after the current one.\<close>

fun rotate_to_job :: "nat \<Rightarrow> nat \<Rightarrow> job_id option list \<Rightarrow> nat \<times> job_id option" where
  "rotate_to_job 0 idx pool = (idx, None)"
| "rotate_to_job (Suc n) idx pool =
     (let idx' = (idx + 1) mod length pool in
      case pool ! idx' of None \<Rightarrow> rotate_to_job n idx' pool | Some j \<Rightarrow> (idx', Some j))"

text \<open>Step 4: fill the slots from the first free one on, while the queue gives jobs.\<close>

fun first_free :: "job_id option list \<Rightarrow> nat" where
  "first_free [] = 0"
| "first_free (s # ss) = (if s = None then 0 else Suc (first_free ss))"

function fill_slots ::
  "nat \<Rightarrow> job_id option \<Rightarrow> scheduler \<Rightarrow> job_manager \<Rightarrow> job_id option \<times> scheduler \<times> job_manager" where
  "fill_slots off next sc jm =
     (let pool = running_job_pool (cc_controller sc) in
      if off < length pool then
        (case schedule_next_job sc jm of
           (None, sc', jm') \<Rightarrow> (next, sc', jm')
         | (Some j, sc', jm') \<Rightarrow>
             fill_slots (off + 1) (if next = None then Some j else next)
               (sc'\<lparr>cc_controller := (cc_controller sc')\<lparr>running_job_pool :=
                     (running_job_pool (cc_controller sc'))[off := Some j]\<rparr>\<rparr>) jm')
      else (next, sc, jm))"
  by pat_completeness auto

lemma schedule_next_job_cc [simp]:
  "schedule_next_job sc jm = (r, sc', jm') \<Longrightarrow> cc_controller sc' = cc_controller sc"
  by (auto simp: schedule_next_job_def split: list.splits prod.splits)

termination fill_slots
  by (relation "measure (\<lambda>(off, next, sc, jm). length (running_job_pool (cc_controller sc)) - off)")
    (auto dest!: schedule_next_job_cc [OF sym])

declare fill_slots.simps [simp del]

definition round_robin_get_job ::
  "scheduler \<Rightarrow> job_manager \<Rightarrow> (scheduler \<times> job_manager, job_id option) outcome" where
  "round_robin_get_job sc jm =
     (let cc = cc_controller sc;
          pool1 = free_completed jm (running_job_pool cc);
          (idx2, next) = rotate_to_job (length pool1) (running_job_idx cc) pool1;
          cc2 = cc\<lparr>running_job_pool := pool1, running_job_idx := (if next = None then 0 else idx2)\<rparr>
      in case update_job_pool_size cc2 (current_pool_size sc) of
           (cc3, Inl e) \<Rightarrow> ((sc\<lparr>cc_controller := cc3\<rparr>, jm), Inl e)
         | (cc3, Inr _) \<Rightarrow>
             let (next', sc', jm') = fill_slots (first_free (running_job_pool cc3)) next
                   (sc\<lparr>cc_controller := cc3\<rparr>) jm
             in ((sc', jm'), Inr next'))"

subsection \<open>Compaction of the pool\<close>

definition pool_jobs :: "job_id option list \<Rightarrow> job_id option list" where
  "pool_jobs pool = filter (\<lambda>s. s \<noteq> None) pool"

lemma pool_jobs_simps [simp]:
  "pool_jobs [] = []"
  "pool_jobs (None # p) = pool_jobs p"
  "pool_jobs (Some j # p) = Some j # pool_jobs p"
  "pool_jobs (p @ q) = pool_jobs p @ pool_jobs q"
  "pool_jobs (replicate n None) = []"
  by (simp_all add: pool_jobs_def)

lemma pool_jobs_length: "length (pool_jobs p) \<le> length p"
  by (simp add: pool_jobs_def)

lemma pool_jobs_Some: "s \<in> set (pool_jobs p) \<Longrightarrow> s \<noteq> None"
  by (simp add: pool_jobs_def)

lemma tighten_loop_spec:
  assumes "slow \<le> fast" and "fast \<le> length pool" and "\<forall>i. slow \<le> i \<and> i < fast \<longrightarrow> pool ! i = None"
  shows "tighten_loop pool slow fast =
           (take slow pool @ pool_jobs (drop fast pool)
              @ replicate (length pool - slow - length (pool_jobs (drop fast pool))) None,
            slow + length (pool_jobs (drop fast pool)))"
  using assms
proof (induction pool slow fast rule: tighten_loop.induct)
  case (1 pool slow fast)
  show ?case
  proof (cases "fast < length pool")
    case False
    then have "pool = take slow pool @ replicate (length pool - slow) None"
      using 1(3-5) by (intro nth_equalityI) (auto simp: nth_append min_def)
    moreover have "tighten_loop pool slow fast = (pool, slow)"
      using False by (simp add: tighten_loop.simps [of pool slow fast])
    ultimately show ?thesis
      using False by simp
  next
    case fast: True
    then have d: "drop fast pool = pool ! fast # drop (Suc fast) pool"
      by (simp add: Cons_nth_drop_Suc)
    have slow: "slow < length pool"
      using fast 1(3) by simp
    show ?thesis
    proof (cases "pool ! fast")
      case None
      then have "tighten_loop pool slow fast = tighten_loop pool slow (fast + 1)"
        using fast slow by (simp add: tighten_loop.simps [of pool slow fast])
      moreover have "\<forall>i. slow \<le> i \<and> i < fast + 1 \<longrightarrow> pool ! i = None"
        using 1(5) None by (auto simp: less_Suc_eq)
      ultimately show ?thesis
        using 1(1) [OF _ None] slow fast 1(3) d None by simp
    next
      case (Some j)
      define pool' where "pool' = (if fast \<noteq> slow then (pool[slow := Some j])[fast := None] else pool)"
      have step: "tighten_loop pool slow fast = tighten_loop pool' (slow + 1) (fast + 1)"
        using fast slow Some by (simp add: tighten_loop.simps [of pool slow fast] pool'_def)
      have inv: "\<forall>i. slow + 1 \<le> i \<and> i < fast + 1 \<longrightarrow> pool' ! i = None"
        using 1(3,5) fast by (auto simp: pool'_def nth_list_update less_Suc_eq)
      have t: "take (slow + 1) pool' = take slow pool @ [Some j]"
        using slow fast Some 1(3) by (auto simp: pool'_def take_Suc_conv_app_nth nth_list_update)
      have d': "drop (fast + 1) pool' = drop (Suc fast) pool"
        using 1(3) by (auto simp: pool'_def)
      have l: "length pool' = length pool"
        by (simp add: pool'_def)
      have "tighten_loop pool' (slow + 1) (fast + 1) =
           (take (slow + 1) pool' @ pool_jobs (drop (fast + 1) pool')
              @ replicate (length pool' - (slow + 1) - length (pool_jobs (drop (fast + 1) pool'))) None,
            slow + 1 + length (pool_jobs (drop (fast + 1) pool')))"
        using 1(2) [OF _ Some] slow fast 1(3) inv l unfolding pool'_def by simp
      then show ?thesis
        unfolding step t d' l using d Some by simp
    qed
  qed
qed

lemma tighten_loop_all:
  "tighten_loop pool 0 0 =
     (pool_jobs pool @ replicate (length pool - length (pool_jobs pool)) None, length (pool_jobs pool))"
  using tighten_loop_spec [of 0 0 pool] by simp

lemma track_idx_found:
  assumes "cur \<in> set (take n (drop i pool))" and "i + n \<le> length pool"
  shows "track_idx cur i n pool old < i + n \<and> pool ! track_idx cur i n pool old = cur"
  using assms
proof (induction n arbitrary: i)
  case (Suc n)
  then have d: "drop i pool = pool ! i # drop (Suc i) pool"
    by (simp add: Cons_nth_drop_Suc)
  show ?case
  proof (cases "pool ! i = cur")
    case False
    then have "cur \<in> set (take n (drop (i + 1) pool))"
      using Suc.prems d by auto
    then show ?thesis
      using Suc.IH [of "i + 1"] Suc.prems False by simp
  qed simp
qed simp

lemma track_idx_not_found:
  assumes "cur \<notin> set (take n (drop i pool))" and "i + n \<le> length pool"
  shows "track_idx cur i n pool old = old"
  using assms
proof (induction n arbitrary: i)
  case (Suc n)
  then have "drop i pool = pool ! i # drop (Suc i) pool"
    by (simp add: Cons_nth_drop_Suc)
  then show ?case
    using Suc.prems Suc.IH [of "i + 1"] by auto
qed simp

subsection \<open>Resizing the pool\<close>

text \<open>The index of the current slot is inside the pool.\<close>

definition cc_ok :: "cc_state \<Rightarrow> bool" where
  "cc_ok cc \<longleftrightarrow> running_job_idx cc < length (running_job_pool cc)"

definition tightened :: "job_id option list \<Rightarrow> job_id option list" where
  "tightened pool = pool_jobs pool @ replicate (length pool - length (pool_jobs pool)) None"

lemma tightened_simps [simp]:
  "length (tightened pool) = length pool" "pool_jobs (tightened pool) = pool_jobs pool"
  using pool_jobs_length [of pool] by (simp_all add: tightened_def) (simp add: pool_jobs_def)

lemma tighten_jobs_spec:
  assumes ok: "cc_ok cc"
  obtains idx where "tighten_jobs cc =
      (cc\<lparr>running_job_pool := tightened (running_job_pool cc), running_job_idx := idx\<rparr>, Inr ())"
    "running_job_pool cc ! running_job_idx cc \<noteq> None \<Longrightarrow>
       idx < length (pool_jobs (running_job_pool cc)) \<and>
       tightened (running_job_pool cc) ! idx = running_job_pool cc ! running_job_idx cc"
    "running_job_pool cc ! running_job_idx cc = None \<Longrightarrow> idx = running_job_idx cc"
proof -
  let ?p = "running_job_pool cc"
  let ?js = "pool_jobs ?p"
  let ?cur = "?p ! running_job_idx cc"
  let ?idx = "track_idx ?cur 0 (length ?js) (tightened ?p) (running_job_idx cc)"
  have l: "length ?js \<le> length (tightened ?p)"
    using pool_jobs_length [of ?p] by simp
  have t: "take (length ?js) (tightened ?p) = ?js"
    by (simp add: tightened_def)
  have "tighten_jobs cc = (cc\<lparr>running_job_pool := tightened ?p, running_job_idx := ?idx\<rparr>, Inr ())"
    using ok by (simp add: tighten_jobs_def cc_ok_def tighten_loop_all tightened_def)
  then show ?thesis
  proof (rule that)
    assume "?cur \<noteq> None"
    moreover have "?cur \<in> set ?p"
      using ok by (simp add: cc_ok_def)
    ultimately have "?cur \<in> set ?js"
      by (simp add: pool_jobs_def)
    then show "?idx < length ?js \<and> tightened ?p ! ?idx = ?cur"
      using track_idx_found [of ?cur "length ?js" 0 "tightened ?p"] l t by simp
  next
    assume "?cur = None"
    then have "?cur \<notin> set ?js"
      using pool_jobs_Some by metis
    then show "?idx = running_job_idx cc"
      using track_idx_not_found [of ?cur "length ?js" 0 "tightened ?p"] l t by simp
  qed
qed

lemma drop_free_tail_spec:
  assumes "None \<notin> set js"
  shows "drop_free_tail n (js @ replicate m None) = js @ replicate (min m (nat (n - int (length js)))) None"
proof (induction m)
  case 0
  have "js \<noteq> [] \<Longrightarrow> last js \<noteq> None"
    using assms last_in_set [of js] by metis
  then show ?case
    by (subst drop_free_tail.simps) auto
next
  case (Suc m)
  have p: "js @ replicate (Suc m) None = (js @ replicate m None) @ [None]"
    by (simp add: replicate_append_same)
  show ?case
  proof (cases "int (length js + Suc m) > n")
    case True
    then have "drop_free_tail n (js @ replicate (Suc m) None) = drop_free_tail n (js @ replicate m None)"
      unfolding p by (subst drop_free_tail.simps) (simp add: butlast_append)
    moreover have "min (Suc m) (nat (n - int (length js))) = min m (nat (n - int (length js)))"
      using True by linarith
    ultimately show ?thesis
      using Suc.IH by simp
  next
    case False
    then have "min (Suc m) (nat (n - int (length js))) = Suc m"
      by (simp add: min_def le_nat_iff)
    then show ?thesis
      using False by (subst drop_free_tail.simps) simp
  qed
qed

lemma None_notin_pool_jobs [simp]: "None \<notin> set (pool_jobs p)"
  by (simp add: pool_jobs_def)

text \<open>
  Resizing to \<open>n\<close> keeps the running jobs in their order and the current one current; the pool gets
  \<open>n\<close> slots, or as many as there are jobs when these are more.
\<close>

lemma update_job_pool_size_spec:
  assumes ok: "cc_ok cc" and n: "1 \<le> n"
    and cur: "running_job_pool cc ! running_job_idx cc = None \<Longrightarrow> running_job_idx cc = 0"
  obtains cc' where "update_job_pool_size cc n = (cc', Inr ())" "cc_ok cc'"
    "pool_jobs (running_job_pool cc') = pool_jobs (running_job_pool cc)"
    "int (length (running_job_pool cc')) = max n (int (length (pool_jobs (running_job_pool cc))))"
    "running_job_pool cc ! running_job_idx cc \<noteq> None \<Longrightarrow>
       running_job_pool cc' ! running_job_idx cc' = running_job_pool cc ! running_job_idx cc"
    "n \<noteq> int (length (running_job_pool cc)) \<Longrightarrow> running_job_pool cc' = tightened (running_job_pool cc')"
    "n = int (length (running_job_pool cc)) \<Longrightarrow> running_job_pool cc' = running_job_pool cc"
    "job_pool_size cc' = n"
proof -
  let ?p = "running_job_pool cc"
  let ?k = "length (pool_jobs ?p)"
  let ?c = "cc\<lparr>job_pool_size := n\<rparr>"
  have ok': "cc_ok ?c"
    using ok by (simp add: cc_ok_def)
  have kl: "?k \<le> length ?p"
    by (rule pool_jobs_length)
  obtain idx where idx: "tighten_jobs ?c = (?c\<lparr>running_job_pool := tightened ?p, running_job_idx := idx\<rparr>, Inr ())"
    "?p ! running_job_idx cc \<noteq> None \<Longrightarrow> idx < ?k \<and> tightened ?p ! idx = ?p ! running_job_idx cc"
    "?p ! running_job_idx cc = None \<Longrightarrow> idx = running_job_idx cc"
    using tighten_jobs_spec [OF ok'] by auto
  have i0: "?p ! running_job_idx cc = None \<Longrightarrow> idx = 0"
    using idx(3) cur by simp
  consider "n < int (length ?p)" | "n > int (length ?p)" | "n = int (length ?p)"
    by linarith
  then show ?thesis
  proof cases
    case 1
    define m where "m = min (length ?p - ?k) (nat (n - int ?k))"
    let ?cc' = "?c\<lparr>running_job_pool := pool_jobs ?p @ replicate m None, running_job_idx := idx\<rparr>"
    have d: "drop_free_tail n (tightened ?p) = pool_jobs ?p @ replicate m None"
      unfolding tightened_def m_def by (rule drop_free_tail_spec) simp
    have m: "int (?k + m) = max n (int ?k)"
      using 1 kl by (simp add: m_def)
    have u: "update_job_pool_size cc n = (?cc', Inr ())"
      using 1 n m by (simp add: update_job_pool_size_def Let_def shrink_resource_def idx(1) d)
    have "cc_ok ?cc'"
      using idx(2) i0 m n by (cases "?p ! running_job_idx cc") (auto simp: cc_ok_def)
    then show ?thesis
      by (rule that [OF u]) (use idx(2) m 1 in \<open>auto simp: tightened_def nth_append pool_jobs_def\<close>)
  next
    case 2
    let ?cc' = "?c\<lparr>running_job_pool := tightened ?p @ replicate (nat (n - int (length ?p))) None, running_job_idx := idx\<rparr>"
    have u: "update_job_pool_size cc n = (?cc', Inr ())"
      using 2 n by (simp add: update_job_pool_size_def Let_def grow_resource_def idx(1))
    have i: "idx < length ?p"
      using idx(2) i0 kl ok by (cases "?p ! running_job_idx cc") (auto simp: cc_ok_def)
    show ?thesis
      by (rule that [OF u]) (use i idx(2) 2 kl in
        \<open>auto simp: cc_ok_def nth_append tightened_def replicate_add [symmetric] pool_jobs_def\<close>)
  next
    case 3
    have u: "update_job_pool_size cc n = (?c, Inr ())"
      using 3 n by (auto simp: update_job_pool_size_def Let_def)
    show ?thesis
      by (rule that [OF u]) (use ok' 3 kl in \<open>auto simp: max_def\<close>)
  qed
qed

subsection \<open>One round of the scheduler\<close>

lemma rotate_to_job_spec:
  assumes "rotate_to_job n idx pool = (idx', r)" and "pool \<noteq> []" and "idx < length pool"
  shows "idx' < length pool" and "r \<noteq> None \<Longrightarrow> pool ! idx' = r"
  using assms by (induction n arbitrary: idx) (auto simp: Let_def split: option.splits)

text \<open>Step 4 changes no slot before its start, and keeps the size of the pool and its index.\<close>

lemma schedule_next_job_size [simp]:
  "schedule_next_job sc jm = (r, sc', jm') \<Longrightarrow> current_pool_size sc' = current_pool_size sc"
  by (auto simp: schedule_next_job_def split: list.splits prod.splits)

lemma fill_slots_cc:
  assumes "fill_slots off next sc jm = (next', sc', jm')"
  shows "length (running_job_pool (cc_controller sc')) = length (running_job_pool (cc_controller sc))
    \<and> running_job_idx (cc_controller sc') = running_job_idx (cc_controller sc)
    \<and> (\<forall>i < off. running_job_pool (cc_controller sc') ! i = running_job_pool (cc_controller sc) ! i)
    \<and> current_pool_size sc' = current_pool_size sc"
  using assms
proof (induction off "next" sc jm rule: fill_slots.induct)
  case (1 off "next" sc jm)
  obtain r s1 jm1 where s1: "schedule_next_job sc jm = (r, s1, jm1)"
    by (cases "schedule_next_job sc jm")
  show ?case
  proof (cases "off < length (running_job_pool (cc_controller sc)) \<and> r \<noteq> None")
    case True
    then obtain j where r: "r = Some j"
      by blast
    let ?s2 = "s1\<lparr>cc_controller := (cc_controller s1)\<lparr>running_job_pool :=
        (running_job_pool (cc_controller s1))[off := Some j]\<rparr>\<rparr>"
    have "fill_slots (off + 1) (if next = None then Some j else next) ?s2 jm1 = (next', sc', jm')"
      using 1(2) True s1 r by (simp add: fill_slots.simps [of off])
    then show ?thesis
      using 1(1) [OF refl _ s1 [symmetric, unfolded r] refl refl] True s1 by simp
  next
    case False
    then show ?thesis
      using 1(2) s1 by (cases "off < length (running_job_pool (cc_controller sc))")
        (auto simp: fill_slots.simps [of off])
  qed
qed

lemma length_free_completed [simp]: "length (free_completed jm pool) = length pool"
  by (simp add: free_completed_def)

text \<open>The state before Step 4 of a round.\<close>

lemma round_robin_to_fill:
  assumes ok: "cc_ok (cc_controller sc)" and n: "1 \<le> current_pool_size sc"
  obtains cc3 "next" where
    "round_robin_get_job sc jm =
       (let (next', sc', jm') = fill_slots (first_free (running_job_pool cc3)) next (sc\<lparr>cc_controller := cc3\<rparr>) jm
        in ((sc', jm'), Inr next'))"
    "cc_ok cc3"
    "pool_jobs (running_job_pool cc3) = pool_jobs (free_completed jm (running_job_pool (cc_controller sc)))"
    "int (length (running_job_pool cc3)) = max (current_pool_size sc) (int (length (pool_jobs (running_job_pool cc3))))"
    "current_pool_size sc \<noteq> int (length (running_job_pool (cc_controller sc))) \<longrightarrow>
       running_job_pool cc3 = tightened (running_job_pool cc3)"
    "current_pool_size sc = int (length (running_job_pool (cc_controller sc))) \<longrightarrow>
       running_job_pool cc3 = free_completed jm (running_job_pool (cc_controller sc))"
proof -
  let ?cc = "cc_controller sc"
  let ?p1 = "free_completed jm (running_job_pool ?cc)"
  obtain idx2 nxt where r: "rotate_to_job (length ?p1) (running_job_idx ?cc) ?p1 = (idx2, nxt)"
    by (cases "rotate_to_job (length ?p1) (running_job_idx ?cc) ?p1")
  let ?cc2 = "?cc\<lparr>running_job_pool := ?p1, running_job_idx := (if nxt = None then 0 else idx2)\<rparr>"
  have p1: "?p1 \<noteq> []" "running_job_idx ?cc < length ?p1"
    using ok by (auto simp: cc_ok_def simp flip: length_greater_0_conv)
  note rot = rotate_to_job_spec [OF r p1]
  have ok2: "cc_ok ?cc2"
    using rot p1 by (auto simp: cc_ok_def)
  have cur: "running_job_pool ?cc2 ! running_job_idx ?cc2 = None \<Longrightarrow> running_job_idx ?cc2 = 0"
    using rot by (auto split: if_splits)
  obtain cc3 where "update_job_pool_size ?cc2 (current_pool_size sc) = (cc3, Inr ())" "cc_ok cc3"
    "pool_jobs (running_job_pool cc3) = pool_jobs ?p1"
    "int (length (running_job_pool cc3)) = max (current_pool_size sc) (int (length (pool_jobs ?p1)))"
    "current_pool_size sc \<noteq> int (length ?p1) \<Longrightarrow> running_job_pool cc3 = tightened (running_job_pool cc3)"
    "current_pool_size sc = int (length ?p1) \<Longrightarrow> running_job_pool cc3 = ?p1"
    by (rule update_job_pool_size_spec [OF ok2 n cur]) auto
  then show ?thesis
    using that [of cc3 nxt] r by (simp add: round_robin_get_job_def Let_def)
qed

lemma first_free_tightened:
  assumes "None \<notin> set js"
  shows "first_free (js @ replicate m None) = length js"
  using assms by (induction js) (cases m, auto simp: eq_commute [of None])

text \<open>In a pool without holes, Step 4 overwrites no running job.\<close>

lemma fill_slots_keeps:
  assumes t: "running_job_pool (cc_controller sc) = tightened (running_job_pool (cc_controller sc))"
    and f: "fill_slots (first_free (running_job_pool (cc_controller sc))) nxt sc jm = (next', sc', jm')"
    and j: "Some j \<in> set (running_job_pool (cc_controller sc))"
  shows "Some j \<in> set (running_job_pool (cc_controller sc'))"
proof -
  let ?p = "running_job_pool (cc_controller sc)"
  have "first_free ?p = length (pool_jobs ?p)"
    by (subst t, unfold tightened_def, rule first_free_tightened) simp
  moreover have "Some j \<in> set (pool_jobs ?p)"
    using j by (simp add: pool_jobs_def)
  moreover have "take (length (pool_jobs ?p)) ?p = pool_jobs ?p"
    by (subst (2) t) (simp add: tightened_def)
  ultimately obtain i where i: "i < first_free ?p" "i < length ?p" "?p ! i = Some j"
    by (metis in_set_conv_nth length_take min_less_iff_conj nth_take)
  then show ?thesis
    using fill_slots_cc [OF f] by (metis nth_mem)
qed

subsection \<open>The list of due times\<close>

definition due_sorted :: "scheduler \<Rightarrow> bool" where
  "due_sorted sc \<longleftrightarrow> sorted (map snd (due_jobs_list sc))"

lemma bisect_left_spec:
  assumes "sorted a" and "lo \<le> hi" and "hi \<le> length a"
    and "\<forall>i < lo. a ! i < x" and "\<forall>i. hi \<le> i \<and> i < length a \<longrightarrow> x \<le> a ! i"
  shows "bisect_left a x lo hi \<le> length a \<and> (\<forall>i < bisect_left a x lo hi. a ! i < x)
    \<and> (\<forall>i. bisect_left a x lo hi \<le> i \<and> i < length a \<longrightarrow> x \<le> a ! i)"
  using assms
proof (induction a x lo hi rule: bisect_left.induct)
  case (1 a x lo hi)
  let ?mid = "(lo + hi) div 2"
  show ?case
  proof (cases "lo < hi")
    case True
    then have mid: "lo \<le> ?mid" "?mid < hi"
      by auto
    have mono: "i \<le> k \<Longrightarrow> k < length a \<Longrightarrow> a ! i \<le> a ! k" for i k
      using 1(3) by (simp add: sorted_nth_mono)
    show ?thesis
    proof (cases "a ! ?mid < x")
      case less: True
      have "\<forall>i < ?mid + 1. a ! i < x"
      proof (intro allI impI)
        fix i
        assume "i < ?mid + 1"
        then have "a ! i \<le> a ! ?mid"
          using mid 1(5) by (intro mono) auto
        with less show "a ! i < x"
          by simp
      qed
      moreover have "bisect_left a x lo hi = bisect_left a x (?mid + 1) hi"
        using True less by (simp add: bisect_left.simps [of a x lo hi] Let_def)
      ultimately show ?thesis
        using 1(1) [OF True refl less 1(3)] mid(2) 1(5,7) by simp
    next
      case False
      have "\<forall>i. ?mid \<le> i \<and> i < length a \<longrightarrow> x \<le> a ! i"
      proof (intro allI impI)
        fix i
        assume "?mid \<le> i \<and> i < length a"
        then have "a ! ?mid \<le> a ! i"
          by (intro mono) auto
        with False show "x \<le> a ! i"
          by simp
      qed
      moreover have "bisect_left a x lo hi = bisect_left a x lo ?mid"
        using True False by (simp add: bisect_left.simps [of a x lo hi] Let_def)
      ultimately show ?thesis
        using 1(2) [OF True refl False 1(3) mid(1) _ 1(6)] mid(2) 1(5) by simp
    qed
  next
    case False
    then have "bisect_left a x lo hi = lo"
      by (subst bisect_left.simps) simp
    moreover have "lo = hi"
      using False 1(4) by simp
    ultimately show ?thesis
      using 1(5-7) by simp
  qed
qed

lemma insert_at_sorted:
  assumes "sorted (map f xs)" and "i \<le> length xs" and "\<forall>k < i. f (xs ! k) < f x"
    and "\<forall>k. i \<le> k \<and> k < length xs \<longrightarrow> f x \<le> f (xs ! k)"
  shows "sorted (map f (insert_at i x xs))"
proof -
  have 1: "y \<in> set (take i xs) \<Longrightarrow> f y < f x" for y
    using assms(2,3) by (auto simp: in_set_conv_nth)
  have 2: "y \<in> set (drop i xs) \<Longrightarrow> f x \<le> f y" for y
    using assms(2,4) by (auto simp: in_set_conv_nth)
  have "sorted (map f (take i xs @ drop i xs))"
    using assms(1) by simp
  then have s: "sorted (map f (take i xs))" "sorted (map f (drop i xs))"
    by (simp_all only: map_append sorted_append)
  show ?thesis
    using s 1 2 by (fastforce simp: insert_at_def sorted_append)
qed

lemma append_job_sorted: "due_sorted sc \<Longrightarrow> due_sorted (append_job now sc j d)"
  using bisect_left_spec [of "map snd (due_jobs_list sc)" 0 "length (due_jobs_list sc)" "now + of_int d"]
  by (auto simp: due_sorted_def append_job_def Let_def intro!: insert_at_sorted)

lemma sorted_takeWhile_filter:
  fixes c :: real
  assumes "sorted (map f xs)"
  shows "dropWhile (\<lambda>x. f x \<le> c) xs = filter (\<lambda>x. c < f x) xs
     \<and> set (takeWhile (\<lambda>x. f x \<le> c) xs) = {x \<in> set xs. f x \<le> c}"
  using assms
proof (induction xs)
  case (Cons a xs)
  show ?case
  proof (cases "f a \<le> c")
    case False
    then have "\<forall>x \<in> set xs. c < f x"
      using Cons.prems by auto
    then show ?thesis
      using False by (auto simp: not_le)
  qed (use Cons in auto)
qed simp

lemma expire_jobs_spec:
  assumes "due_sorted sc"
  shows "due_jobs_list (expire_jobs now sc) = filter (\<lambda>it. now < snd it) (due_jobs_list sc)"
    and "inactive_jobs (expire_jobs now sc) = inactive_jobs sc \<union> fst ` {it \<in> set (due_jobs_list sc). snd it \<le> now}"
  using sorted_takeWhile_filter [of snd "due_jobs_list sc" now] assms
  by (simp_all add: due_sorted_def expire_jobs_def Let_def dropWhile_eq_drop takeWhile_eq_take [symmetric])

lemma expire_jobs_sorted: "due_sorted sc \<Longrightarrow> due_sorted (expire_jobs now sc)"
  using expire_jobs_spec(1) [of sc now] by (simp add: due_sorted_def sorted_filter)

lemma pop_active_none [simp]: "pop_active {} j q = (j, q)"
  by (cases q) simp_all

subsection \<open>Runs of the due list\<close>

datatype due_call = DueAppend real job_id int | DueExpire real

fun due_exec :: "scheduler \<Rightarrow> due_call \<Rightarrow> scheduler" where
  "due_exec sc (DueAppend now j d) = append_job now sc j d"
| "due_exec sc (DueExpire now) = expire_jobs now sc"

lemma due_sorted_run: "due_sorted sc \<Longrightarrow> due_sorted (foldl due_exec sc calls)"
proof (induction calls arbitrary: sc)
  case (Cons c calls)
  then show ?case
    by (cases c) (simp_all add: append_job_sorted expire_jobs_sorted)
qed simp

subsection \<open>Properties\<close>

text \<open>
  C36. A scheduling round never raises: from a pool whose current index is inside it and with a
  configured size of at least one, \<open>round_robin_get_job\<close> returns, the index stays inside the pool,
  and the pool has the configured number of slots, or as many as there are running jobs when these
  are more.
\<close>

theorem round_robin_never_raises:
  assumes "cc_ok (cc_controller sc)" and "1 \<le> current_pool_size sc"
  shows "\<exists>sc' jm' next. round_robin_get_job sc jm = ((sc', jm'), Inr next) \<and> cc_ok (cc_controller sc')
     \<and> int (length (running_job_pool (cc_controller sc')))
       = max (current_pool_size sc)
           (int (length (pool_jobs (free_completed jm (running_job_pool (cc_controller sc))))))"
proof -
  obtain cc3 nxt where rr: "round_robin_get_job sc jm =
       (let (next', sc', jm') = fill_slots (first_free (running_job_pool cc3)) nxt (sc\<lparr>cc_controller := cc3\<rparr>) jm
        in ((sc', jm'), Inr next'))"
    and ok: "cc_ok cc3"
    and l: "int (length (running_job_pool cc3)) = max (current_pool_size sc) (int (length (pool_jobs (running_job_pool cc3))))"
      "pool_jobs (running_job_pool cc3) = pool_jobs (free_completed jm (running_job_pool (cc_controller sc)))"
    by (rule round_robin_to_fill [OF assms, of jm])
  obtain next' sc' jm' where f: "fill_slots (first_free (running_job_pool cc3)) nxt (sc\<lparr>cc_controller := cc3\<rparr>) jm
      = (next', sc', jm')"
    by (cases "fill_slots (first_free (running_job_pool cc3)) nxt (sc\<lparr>cc_controller := cc3\<rparr>) jm")
  show ?thesis
    using fill_slots_cc [OF f] rr f ok l by (auto simp: cc_ok_def)
qed

definition demo_sched :: "job_id option list \<Rightarrow> nat \<Rightarrow> job_id list \<Rightarrow> scheduler" where
  "demo_sched pool n q =
     \<lparr>jobs_queue = q, inactive_jobs = {}, due_jobs_list = [],
      cc_controller = \<lparr>running_job_pool = pool, job_pool_size = int n, running_job_idx = 0\<rparr>,
      current_pool_size = int n\<rparr>"

theorem round_robin_never_raises_witness:
  "\<exists>sc' jm' next. round_robin_get_job (demo_sched [None, Some 5, None] 2 [8]) JobManager = ((sc', jm'), Inr next)
     \<and> length (running_job_pool (cc_controller sc')) = 2"
  using round_robin_never_raises [of "demo_sched [None, Some 5, None] 2 [8]" JobManager]
  by (auto simp: demo_sched_def cc_ok_def free_completed_def JobManager_def get_job_status_def)

text \<open>
  Resizing the pool loses no job: \<open>update_job_pool_size\<close> keeps the running jobs in their order
  and the current job current.
\<close>

lemma resize_keeps_jobs:
  assumes "cc_ok cc" and "1 \<le> n" and "running_job_pool cc ! running_job_idx cc = Some j"
  shows "\<exists>cc'. update_job_pool_size cc n = (cc', Inr ())
     \<and> pool_jobs (running_job_pool cc') = pool_jobs (running_job_pool cc)
     \<and> running_job_pool cc' ! running_job_idx cc' = Some j"
proof -
  obtain cc' where "update_job_pool_size cc n = (cc', Inr ())"
    "pool_jobs (running_job_pool cc') = pool_jobs (running_job_pool cc)"
    "running_job_pool cc ! running_job_idx cc \<noteq> None \<Longrightarrow>
       running_job_pool cc' ! running_job_idx cc' = running_job_pool cc ! running_job_idx cc"
    by (rule update_job_pool_size_spec [OF assms(1,2)]) (use assms(3) in auto)
  with assms(3) show ?thesis
    by auto
qed

lemma resize_keeps_jobs_witness:
  "\<exists>cc'. update_job_pool_size
       \<lparr>running_job_pool = [None, Some 4, None, Some 6], job_pool_size = 4, running_job_idx = 3\<rparr> 3 = (cc', Inr ())
     \<and> running_job_pool cc' ! running_job_idx cc' = Some 6"
  using resize_keeps_jobs [of
      "\<lparr>running_job_pool = [None, Some 4, None, Some 6], job_pool_size = 4, running_job_idx = 3\<rparr>" 3 6]
  by (auto simp: cc_ok_def)

text \<open>
  C37. A round keeps every running job that is not completed, provided the pool was resized in that
  round or has no free slot before a running job.
\<close>

theorem round_robin_keeps_running_jobs:
  assumes "cc_ok (cc_controller sc)" and "1 \<le> current_pool_size sc"
    and "pool1 = free_completed jm (running_job_pool (cc_controller sc))"
    and "current_pool_size sc \<noteq> int (length pool1) \<or> pool1 = tightened pool1"
    and "Some j \<in> set pool1" and "round_robin_get_job sc jm = ((sc', jm'), r)"
  shows "Some j \<in> set (running_job_pool (cc_controller sc'))"
proof -
  obtain cc3 nxt where rr: "round_robin_get_job sc jm =
       (let (next', sc', jm') = fill_slots (first_free (running_job_pool cc3)) nxt (sc\<lparr>cc_controller := cc3\<rparr>) jm
        in ((sc', jm'), Inr next'))"
    and p: "pool_jobs (running_job_pool cc3) = pool_jobs pool1"
    and t: "current_pool_size sc \<noteq> int (length (running_job_pool (cc_controller sc))) \<longrightarrow>
       running_job_pool cc3 = tightened (running_job_pool cc3)"
      "current_pool_size sc = int (length (running_job_pool (cc_controller sc))) \<longrightarrow> running_job_pool cc3 = pool1"
    unfolding assms(3) by (rule round_robin_to_fill [OF assms(1,2), of jm])
  obtain next' where f: "fill_slots (first_free (running_job_pool cc3)) nxt (sc\<lparr>cc_controller := cc3\<rparr>) jm
      = (next', sc', jm')"
    using assms(6) rr by (auto simp: Let_def split: prod.splits)
  have "running_job_pool cc3 = tightened (running_job_pool cc3)"
    using assms(3,4) t by auto
  moreover have "Some j \<in> set (running_job_pool cc3)"
  proof -
    have "Some j \<in> set (pool_jobs (running_job_pool cc3))"
      unfolding p using assms(5) by (simp add: pool_jobs_def)
    then show ?thesis
      by (simp add: pool_jobs_def)
  qed
  ultimately show ?thesis
    using fill_slots_keeps [of "sc\<lparr>cc_controller := cc3\<rparr>" nxt jm next' sc' jm' j] f by simp
qed

theorem round_robin_keeps_running_jobs_witness:
  "Some 5 \<in> set (running_job_pool (cc_controller (fst (fst
     (round_robin_get_job (demo_sched [None, Some 5, None] 2 [8, 9]) JobManager)))))"
  by (rule round_robin_keeps_running_jobs [of "demo_sched [None, Some 5, None] 2 [8, 9]" "[None, Some 5, None]" JobManager 5 _
        "snd (fst (round_robin_get_job (demo_sched [None, Some 5, None] 2 [8, 9]) JobManager))"
        "snd (round_robin_get_job (demo_sched [None, Some 5, None] 2 [8, 9]) JobManager)"])
    (simp_all add: demo_sched_def cc_ok_def free_completed_def JobManager_def get_job_status_def)

text \<open>
  When the pool keeps its size and a slot before a running job is free, a round with two queued
  jobs puts the second one into the slot of the running job: that job leaves the pool although it
  is not completed.
\<close>

lemma round_robin_drops_running_job:
  assumes "free_completed jm (running_job_pool (cc_controller sc)) = [None, Some b]"
    and "running_job_idx (cc_controller sc) < 2" and "current_pool_size sc = 2"
    and "jobs_queue sc = c # d # q" and "inactive_jobs sc = {}" and "b \<notin> {c, d}"
  shows "\<exists>sc' jm' r. round_robin_get_job sc jm = ((sc', jm'), Inr r)
     \<and> running_job_pool (cc_controller sc') = [Some c, Some d]
     \<and> Some b \<notin> set (running_job_pool (cc_controller sc'))"
proof -
  have l: "length (running_job_pool (cc_controller sc)) = 2"
    using arg_cong [OF assms(1), of length] by simp
  have ok: "cc_ok (cc_controller sc)"
    using assms(2) l by (simp add: cc_ok_def)
  obtain cc3 nxt where rr: "round_robin_get_job sc jm =
       (let (next', sc', jm') = fill_slots (first_free (running_job_pool cc3)) nxt (sc\<lparr>cc_controller := cc3\<rparr>) jm
        in ((sc', jm'), Inr next'))"
    and p: "running_job_pool cc3 = [None, Some b]"
    by (rule round_robin_to_fill [OF ok, of jm]) (use assms(1,3) l in auto)
  show ?thesis
    using assms(4-6) p unfolding rr
    by (simp add: fill_slots.simps schedule_next_job_def Let_def)
qed

lemma round_robin_drops_running_job_witness:
  "\<exists>sc' jm' r. round_robin_get_job (demo_sched [None, Some 5] 2 [8, 9]) JobManager = ((sc', jm'), Inr r)
     \<and> running_job_pool (cc_controller sc') = [Some 8, Some 9]"
  using round_robin_drops_running_job [of JobManager "demo_sched [None, Some 5] 2 [8, 9]" 5 8 9 "[]"]
  by (auto simp: demo_sched_def free_completed_def JobManager_def get_job_status_def)

text \<open>
  The due list stays sorted through every sequence of submissions and expirations, and an
  expiration moves exactly the jobs whose due time has passed to the inactive set.
\<close>

lemma expire_removes_exactly_due:
  "due_sorted (foldl due_exec (JobScheduler n) calls) \<and>
   due_jobs_list (expire_jobs now (foldl due_exec (JobScheduler n) calls))
     = filter (\<lambda>it. now < snd it) (due_jobs_list (foldl due_exec (JobScheduler n) calls)) \<and>
   inactive_jobs (expire_jobs now (foldl due_exec (JobScheduler n) calls))
     = inactive_jobs (foldl due_exec (JobScheduler n) calls)
       \<union> fst ` {it \<in> set (due_jobs_list (foldl due_exec (JobScheduler n) calls)). snd it \<le> now}"
proof -
  have "due_sorted (JobScheduler n)"
    by (simp add: due_sorted_def JobScheduler_def Let_def)
  from due_sorted_run [OF this] show ?thesis
    using expire_jobs_spec by blast
qed

text \<open>
  An expired job that is alone in the queue is still started: the scheduler returns it and the
  job manager moves it to the jobs in progress.
\<close>

lemma expired_job_still_started:
  assumes "jobs_queue sc = [j]" and "j \<in> inactive_jobs sc" and "pending_jobs jm j = Some m"
    and "in_progress_jobs jm j = None"
  shows "fst (schedule_next_job sc jm) = Some j \<and>
    in_progress_jobs (snd (snd (schedule_next_job sc jm))) j = Some (m\<lparr>meta_status := IN_PROGRESS\<rparr>)"
  using assms by (simp add: schedule_next_job_def start_execute_job_def)

end
