(* ===== verification/Batch_Driver.thy ===== *)
theory Batch_Driver
  imports Batch_Scheduler
begin

text \<open>
  The batch driver of \<^verbatim>\<open>aibrix/batch/driver.py\<close> over the local disk, with the request proxy of
  \<^verbatim>\<open>aibrix/batch/request_proxy.py\<close>: uploading and creating a job, the loop that executes one
  request of one job per turn, and reading the results. The clock and the fresh job id are
  arguments. A turn that would not return is \<open>None\<close>.
\<close>

record driver =
  d_disk :: disk
  d_cache :: "json request_cache"
  d_jobs :: job_manager
  d_sched :: scheduler

definition BatchDriver :: driver where
  "BatchDriver =
     \<lparr>d_disk = Map.empty,
      d_cache = \<lparr>current_job_offsets = Map.empty, job_input_requests = Map.empty\<rparr>,
      d_jobs = JobManager,
      d_sched = JobScheduler (int DEFAULT_JOB_POOL_SIZE)\<rparr>"

definition upload_batch_data :: "driver \<Rightarrow> job_id \<Rightarrow> string list option \<Rightarrow> (driver, job_id) outcome" where
  "upload_batch_data d j f =
     (case write_job_input_data json_loads json_dumps (d_disk d) j f of
        (dk, written) \<Rightarrow>
          (case upload_input_data (d_cache d) j written of
             (c, r) \<Rightarrow> (d\<lparr>d_disk := dk, d_cache := c\<rparr>, r)))"

definition driver_create_job :: "real \<Rightarrow> driver \<Rightarrow> job_id \<Rightarrow> string \<Rightarrow> string \<Rightarrow> (driver, unit) outcome" where
  "driver_create_job now d j endpoint window =
     (case create_job (get_job_number_requests (d_disk d) j) (d_jobs d) j endpoint window of
        (jm, Inl e) \<Rightarrow> (d\<lparr>d_jobs := jm\<rparr>, Inl e)
      | (jm, Inr _) \<Rightarrow>
          (d\<lparr>d_jobs := jm, d_sched := append_job now (d_sched d) j (get_job_window_due jm j)\<rparr>, Inr ()))"

definition driver_job_status :: "driver \<Rightarrow> job_id \<Rightarrow> job_status option" where
  "driver_job_status d j = get_job_status (d_jobs d) j"

definition retrieve_job_result :: "driver \<Rightarrow> job_id \<Rightarrow> py_error + json list" where
  "retrieve_job_result d j =
     read_job_output_data json_loads (d_disk d) j 0 (get_job_number_requests (d_disk d) j)"

definition clear_job :: "driver \<Rightarrow> job_id \<Rightarrow> driver" where
  "clear_job d j = d\<lparr>d_disk := delete_job_data (d_disk d) j\<rparr>"

text \<open>The request proxy.\<close>

definition inference_request :: "string option \<Rightarrow> 'v \<Rightarrow> 'v" where
  "inference_request endpoint prompt_list = prompt_list"

definition fetch_request_input :: "driver \<Rightarrow> job_id \<Rightarrow> int \<Rightarrow> (driver, json) outcome" where
  "fetch_request_input d j request_id =
     (case read_job_requests (read_job_input_data json_loads (d_disk d)) (d_cache d) j request_id 1 of
        (c, Inl e) \<Rightarrow> (d\<lparr>d_cache := c\<rparr>, Inl e)
      | (c, Inr requests) \<Rightarrow> (d\<lparr>d_cache := c\<rparr>, py_index requests 0))"

definition store_output :: "driver \<Rightarrow> job_id \<Rightarrow> int \<Rightarrow> json \<Rightarrow> driver" where
  "store_output d j request_id result =
     d\<lparr>d_disk := write_job_output_data json_dumps (d_disk d) j request_id [result]\<rparr>"

definition sync_job_status :: "driver \<Rightarrow> job_id \<Rightarrow> int \<Rightarrow> (driver, unit) outcome" where
  "sync_job_status d j request_id =
     (case mark_job_progress (d_jobs d) j [request_id] of
        (jm, Inl e) \<Rightarrow> (d\<lparr>d_jobs := jm\<rparr>, Inl e)
      | (jm, Inr _) \<Rightarrow> (d\<lparr>d_jobs := jm\<rparr>, Inr ()))"

definition execute_queries :: "driver \<Rightarrow> job_id \<Rightarrow> (driver, unit) outcome option" where
  "execute_queries d j =
     (case get_job_next_request (d_jobs d) j of
        None \<Rightarrow> None
      | Some (Inl e) \<Rightarrow> Some (d, Inl e)
      | Some (Inr request_id) \<Rightarrow>
          if request_id = -1 then Some (d, Inr ())
          else
            let endpoint = get_job_endpoint (d_jobs d) j in
            Some (obind (fetch_request_input d j request_id) (\<lambda>d request_input.
              sync_job_status
                (store_output d j request_id (inference_request endpoint request_input)) j request_id)))"

text \<open>One turn of \<open>jobs_running_loop\<close>, and a number of turns; an exception ends the loop.\<close>

definition running_turn :: "driver \<Rightarrow> (driver, unit) outcome option" where
  "running_turn d =
     (case round_robin_get_job (d_sched d) (d_jobs d) of
        ((sc, jm), Inl e) \<Rightarrow> Some (d\<lparr>d_sched := sc, d_jobs := jm\<rparr>, Inl e)
      | ((sc, jm), Inr None) \<Rightarrow> Some (d\<lparr>d_sched := sc, d_jobs := jm\<rparr>, Inr ())
      | ((sc, jm), Inr (Some j)) \<Rightarrow> execute_queries (d\<lparr>d_sched := sc, d_jobs := jm\<rparr>) j)"

fun running_turns :: "nat \<Rightarrow> driver \<Rightarrow> (driver, unit) outcome option" where
  "running_turns 0 d = Some (d, Inr ())"
| "running_turns (Suc n) d =
     (case running_turn d of
        None \<Rightarrow> None
      | Some (d', Inl e) \<Rightarrow> Some (d', Inl e)
      | Some (d', Inr _) \<Rightarrow> running_turns n d')"

subsection \<open>The life of one job\<close>

text \<open>The storage side of a job of which the first \<open>k\<close> requests have been executed.\<close>

definition stored :: "driver \<Rightarrow> job_id \<Rightarrow> json list \<Rightarrow> nat \<Rightarrow> bool" where
  "stored d j vs k \<longleftrightarrow>
     disk_inputs json_dumps json_valid (d_disk d) j vs \<and>
     disk_outputs json_dumps json_valid (d_disk d) j (take k vs) \<and>
     cache_ok vs (d_cache d) j \<and>
     (\<exists>off. current_job_offsets (d_cache d) j = Some off \<and> off \<le> int k)"

text \<open>The job manager side: in progress, with exactly the first \<open>k\<close> of \<open>n\<close> bits set.\<close>

definition executing :: "job_manager \<Rightarrow> job_id \<Rightarrow> nat \<Rightarrow> nat \<Rightarrow> bool" where
  "executing jm j n k \<longleftrightarrow>
     jm_inv jm \<and> pending_jobs jm j = None \<and>
     (\<exists>m. in_progress_jobs jm j = Some m \<and> length (request_progress_bits m) = n \<and>
          (\<forall>i < n. request_progress_bits m ! i \<longleftrightarrow> i < k))"

definition finished :: "job_manager \<Rightarrow> job_id \<Rightarrow> bool" where
  "finished jm j \<longleftrightarrow>
     pending_jobs jm j = None \<and> in_progress_jobs jm j = None \<and>
     map_option meta_status (done_jobs jm j) = Some COMPLETED"

lemma executing_next:
  assumes "executing jm j n k" and "k < n"
  shows "get_job_next_request jm j = Some (Inr (int k))"
proof -
  obtain m where m: "in_progress_jobs jm j = Some m" "length (request_progress_bits m) = n"
    "\<forall>i < n. request_progress_bits m ! i \<longleftrightarrow> i < k" and inv: "jm_inv jm"
    using assms(1) by (auto simp: executing_def)
  have "wf_meta m" "\<not> all_done m"
    using jm_invD(2) [OF inv m(1)] by (simp_all add: running_ok_def)
  then obtain i where i: "next_request_id m = Some (Inr (int i))" "i < n"
    "\<not> request_progress_bits m ! i" "\<forall>l < i. request_progress_bits m ! l"
    by (rule next_request_id_spec) (use m(2) in blast)
  then have "i = k"
    using m(3) assms(2) by (metis linorder_neqE_nat less_irrefl)
  then show ?thesis
    using i(1) m(1) by (simp add: get_job_next_request_def)
qed

lemma executing_mark:
  assumes e: "executing jm j n k" and k: "k < n"
  obtains jm' where "mark_job_progress jm j [int k] = (jm', Inr True)"
    "if Suc k = n then finished jm' j else executing jm' j n (Suc k)"
proof -
  obtain m where m: "in_progress_jobs jm j = Some m" "length (request_progress_bits m) = n"
    "\<forall>i < n. request_progress_bits m ! i \<longleftrightarrow> i < k" and inv: "jm_inv jm" and p: "pending_jobs jm j = None"
    using e by (auto simp: executing_def)
  have n: "num_requests m = int n"
    using jm_invD(2) [OF inv m(1)] m(2) by (simp add: running_ok_def wf_meta_def)
  obtain m' where m': "wf_meta m'" "request_progress_bits m' = set_bits (request_progress_bits m) [int k]"
    "meta_shape m' = meta_shape m" "meta_status m' = (if all_done m' then COMPLETED else IN_PROGRESS)"
    and mk: "mark_job_progress jm j [int k] =
       (if all_done m'
        then jm\<lparr>in_progress_jobs := (in_progress_jobs jm)(j := None), done_jobs := (done_jobs jm)(j \<mapsto> m')\<rparr>
        else jm\<lparr>in_progress_jobs := (in_progress_jobs jm)(j \<mapsto> m')\<rparr>,
        Inr (\<forall>r \<in> set [int k]. 0 \<le> r \<and> r < num_requests m))"
    by (rule mark_job_progress_spec [OF inv m(1)])
  have bits: "length (request_progress_bits m') = n" "\<forall>i < n. request_progress_bits m' ! i \<longleftrightarrow> i < Suc k"
    using m(2,3) by (auto simp: m'(2) set_bits_nth)
  have "all_done m' \<longleftrightarrow> Suc k = n"
    unfolding all_done_def bits(1) using bits(2) k by (metis Suc_lessI less_irrefl)
  moreover have "jm_inv (fst (mark_job_progress jm j [int k]))"
    using inv by (rule jm_inv_mark)
  ultimately show ?thesis
    using that mk n k bits m'(4) p by (auto simp: finished_def executing_def split: if_splits)
qed

lemma stored_fetch:
  assumes s: "stored d j vs k" and k: "k < length vs"
  obtains c where "fetch_request_input d j (int k) = (d\<lparr>d_cache := c\<rparr>, Inr (vs ! k))"
    "stored (d\<lparr>d_cache := c\<rparr>) j vs k"
proof -
  obtain off where off: "current_job_offsets (d_cache d) j = Some off" "off \<le> int k"
    and i: "disk_inputs json_dumps json_valid (d_disk d) j vs" and c: "cache_ok vs (d_cache d) j"
    using s by (auto simp: stored_def)
  obtain c' off' where c': "read_job_requests (read_job_input_data json_loads (d_disk d)) (d_cache d) j (int k) (int 1)
      = (c', Inr (take 1 (drop k vs)))" "cache_ok vs c' j" "current_job_offsets c' j = Some off'" "off' \<le> int k"
    using json.disk.read_job_requests_ok [OF i c off(1), of k 1] k off(2) by auto
  have "take 1 (drop k vs) = [vs ! k]"
    using k by (simp add: take_Suc_conv_app_nth)
  then show ?thesis
    using that [of c'] c' s by (simp add: fetch_request_input_def stored_def py_index_def)
qed

lemma stored_store:
  assumes s: "stored d j vs k" and k: "k < length vs"
  shows "stored (store_output d j r (vs ! k)) j vs (Suc k)"
proof -
  have "list_all json_valid [vs ! k]"
    using s k by (auto simp: stored_def disk_inputs_def list_all_length)
  from json.write_output_appends [OF _ this, of "d_disk d" j "take k vs" r]
  show ?thesis
    using s k json.write_output_keeps_inputs [of "d_disk d" j vs j r "[vs ! k]"]
    by (auto simp: stored_def store_output_def take_Suc_conv_app_nth)
qed

lemma execute_one:
  assumes "stored d j vs k" and "executing (d_jobs d) j (length vs) k" and "k < length vs"
  obtains d' where "execute_queries d j = Some (d', Inr ())" "stored d' j vs (Suc k)" "d_sched d' = d_sched d"
    "if Suc k = length vs then finished (d_jobs d') j else executing (d_jobs d') j (length vs) (Suc k)"
proof -
  obtain c where c: "fetch_request_input d j (int k) = (d\<lparr>d_cache := c\<rparr>, Inr (vs ! k))"
    "stored (d\<lparr>d_cache := c\<rparr>) j vs k"
    using stored_fetch [OF assms(1,3)] .
  obtain jm' where jm': "mark_job_progress (d_jobs d) j [int k] = (jm', Inr True)"
    "if Suc k = length vs then finished jm' j else executing jm' j (length vs) (Suc k)"
    using executing_mark [OF assms(2,3)] .
  let ?d1 = "store_output (d\<lparr>d_cache := c\<rparr>) j (int k) (vs ! k)"
  have "execute_queries d j = Some (?d1\<lparr>d_jobs := jm'\<rparr>, Inr ())"
    using executing_next [OF assms(2,3)] c(1) jm'(1)
    by (simp add: execute_queries_def inference_request_def sync_job_status_def store_output_def)
  moreover have "stored (?d1\<lparr>d_jobs := jm'\<rparr>) j vs (Suc k)"
    using stored_store [OF c(2) assms(3), of "int k"] by (simp add: stored_def)
  ultimately show ?thesis
    using that jm'(2) by (simp add: store_output_def)
qed

text \<open>The scheduler side, with the single slot of the default pool.\<close>

definition one_slot :: "scheduler \<Rightarrow> job_id option \<Rightarrow> bool" where
  "one_slot sc s \<longleftrightarrow>
     running_job_pool (cc_controller sc) = [s] \<and> running_job_idx (cc_controller sc) = 0 \<and>
     current_pool_size sc = 1"

lemma turn_running:
  assumes "one_slot sc (Some j)" and "get_job_status jm j \<noteq> Some COMPLETED"
  obtains sc' where "round_robin_get_job sc jm = ((sc', jm), Inr (Some j))" "one_slot sc' (Some j)"
proof -
  have "round_robin_get_job sc jm =
      ((sc\<lparr>cc_controller := (cc_controller sc)\<lparr>job_pool_size := 1\<rparr>\<rparr>, jm), Inr (Some j))"
    using assms by (cases "cc_controller sc") (auto simp: round_robin_get_job_def one_slot_def free_completed_def
        update_job_pool_size_def Let_def fill_slots.simps)
  then show ?thesis
    using that assms(1) by (simp add: one_slot_def)
qed

lemma turn_start:
  assumes "one_slot sc None" and "jobs_queue sc = [j]"
  obtains sc' where "round_robin_get_job sc jm = ((sc', fst (start_execute_job jm j)), Inr (Some j))"
    "one_slot sc' (Some j)"
proof -
  let ?cc = "(cc_controller sc)\<lparr>job_pool_size := 1, running_job_pool := [Some j]\<rparr>"
  have "round_robin_get_job sc jm =
      ((sc\<lparr>cc_controller := ?cc, jobs_queue := []\<rparr>, fst (start_execute_job jm j)), Inr (Some j))"
    using assms by (cases "cc_controller sc") (auto simp: round_robin_get_job_def one_slot_def free_completed_def
        update_job_pool_size_def Let_def fill_slots.simps schedule_next_job_def)
  then show ?thesis
    using that assms(1) by (simp add: one_slot_def)
qed

lemma executing_status: "executing jm j n k \<Longrightarrow> get_job_status jm j = Some IN_PROGRESS"
  by (auto simp: executing_def get_job_status_def running_ok_def dest: jm_invD(2))

lemma finished_status: "finished jm j \<Longrightarrow> get_job_status jm j = Some COMPLETED"
  by (simp add: finished_def get_job_status_def)

lemma turns_to_finish:
  assumes "stored d j vs k" and "executing (d_jobs d) j (length vs) k" and "one_slot (d_sched d) (Some j)"
    and "k < length vs"
  shows "\<exists>d'. running_turns (length vs - k) d = Some (d', Inr ()) \<and> stored d' j vs (length vs)
           \<and> finished (d_jobs d') j"
  using assms
proof (induction "length vs - k" arbitrary: d k)
  case (Suc n)
  obtain sc' where rr: "round_robin_get_job (d_sched d) (d_jobs d) = ((sc', d_jobs d), Inr (Some j))"
    "one_slot sc' (Some j)"
    by (rule turn_running [OF Suc.prems(3), of "d_jobs d"]) (use executing_status [OF Suc.prems(2)] in auto)
  obtain d' where d': "execute_queries (d\<lparr>d_sched := sc', d_jobs := d_jobs d\<rparr>) j = Some (d', Inr ())"
    "stored d' j vs (Suc k)" "d_sched d' = sc'"
    "if Suc k = length vs then finished (d_jobs d') j else executing (d_jobs d') j (length vs) (Suc k)"
  proof (rule execute_one [of "d\<lparr>d_sched := sc', d_jobs := d_jobs d\<rparr>" j vs k])
    show "stored (d\<lparr>d_sched := sc', d_jobs := d_jobs d\<rparr>) j vs k"
      using Suc.prems(1) by (simp add: stored_def)
  qed (use Suc.prems(2,4) in auto)
  have t: "running_turn d = Some (d', Inr ())"
    using rr(1) d'(1) by (simp add: running_turn_def)
  have l: "length vs - k = Suc (length vs - Suc k)"
    using Suc.prems(4) by simp
  show ?case
  proof (cases "Suc k = length vs")
    case True
    then show ?thesis
      using d' t unfolding l by auto
  next
    case False
    then have "\<exists>d''. running_turns (length vs - Suc k) d' = Some (d'', Inr ()) \<and> stored d'' j vs (length vs)
        \<and> finished (d_jobs d'') j"
      using Suc.hyps(1) [of "Suc k" d'] Suc.hyps(2) d' rr(2) Suc.prems(4) by auto
    then show ?thesis
      using t unfolding l by simp
  qed
qed simp

lemma upload_stored:
  assumes "read_input_file json_loads f = Inr vs" and "upload_batch_data BatchDriver j f = (d, r)"
  shows "stored d j vs 0" and "d_jobs d = JobManager" and "d_sched d = JobScheduler 1"
  using assms json.read_input_valid [OF assms(1)]
  by (auto simp: upload_batch_data_def BatchDriver_def write_job_input_data_def upload_input_data_def
      stored_def disk_inputs_def disk_outputs_def cache_ok_def DEFAULT_JOB_POOL_SIZE_def)

lemma create_ready:
  assumes "stored d j vs 0" and "vs \<noteq> []" and "parse_window w = Inr (Some win)"
    and "d_jobs d = JobManager" and "d_sched d = JobScheduler n" and "driver_create_job now d j e w = (d', r)"
  shows "stored d' j vs 0" and "one_slot (d_sched d') None" and "jobs_queue (d_sched d') = [j]"
    and "executing (fst (start_execute_job (d_jobs d') j)) j (length vs) 0"
proof -
  have n: "get_job_number_requests (d_disk d) j = int (length vs)"
    using assms(1) json.inputs_count by (simp add: stored_def)
  obtain m where m: "validate_job (int (length vs)) ((JobMetaInfo e w)\<lparr>meta_status := VALIDATING\<rparr>) = (m, Inr True)"
    "request_progress_bits m = replicate (length vs) False"
    using assms(2,3) by (auto simp: validate_job_def JobMetaInfo_def Let_def)
  let ?jm = "JobManager\<lparr>pending_jobs := Map.empty(j \<mapsto> m\<lparr>meta_status := PENDING\<rparr>)\<rparr>"
  have c: "create_job (int (length vs)) JobManager j e w = (?jm, Inr ())"
    using m(1) by (simp add: create_job_def JobManager_def)
  have d': "d' = d\<lparr>d_jobs := ?jm, d_sched := append_job now (d_sched d) j (get_job_window_due ?jm j)\<rparr>"
    using assms(4,6) n c by (simp add: driver_create_job_def)
  show "stored d' j vs 0"
    using assms(1) d' by (simp add: stored_def)
  show "one_slot (d_sched d') None" "jobs_queue (d_sched d') = [j]"
    using d' assms(5) by (simp_all add: one_slot_def append_job_def JobScheduler_def
        BasicCongestionControl_def DEFAULT_JOB_POOL_SIZE_def Let_def)
  have "jm_inv (fst (start_execute_job ?jm j))"
    using jm_inv_start [OF jm_inv_create [OF jm_inv_init, of "int (length vs)" j e w]] c by simp
  then show "executing (fst (start_execute_job (d_jobs d') j)) j (length vs) 0"
    using d' m(2) by (simp add: executing_def start_execute_job_def JobManager_def)
qed

subsection \<open>Properties\<close>

text \<open>
  C3. A submitted job is carried through: from a fresh driver, uploading a file with \<open>n > 0\<close>
  requests and creating the job with a valid completion window, the running loop ends \<open>n\<close> turns
  without an exception, the job is then \<open>COMPLETED\<close>, and the retrieved results are one result per
  request, in the order of the input file.
\<close>

theorem driver_completes_job:
  assumes "read_input_file json_loads f = Inr vs" and "vs \<noteq> []" and "parse_window w = Inr (Some win)"
    and "upload_batch_data BatchDriver j f = (d1, r1)" and "driver_create_job now d1 j e w = (d2, r2)"
  shows "\<exists>d'. running_turns (length vs) d2 = Some (d', Inr ())
           \<and> driver_job_status d' j = Some COMPLETED \<and> retrieve_job_result d' j = Inr vs"
proof -
  note u = upload_stored [OF assms(1,4)]
  note c = create_ready [OF u(1) assms(2,3) u(2,3) assms(5)]
  let ?jm = "fst (start_execute_job (d_jobs d2) j)"
  obtain sc' where rr: "round_robin_get_job (d_sched d2) (d_jobs d2) = ((sc', ?jm), Inr (Some j))"
    "one_slot sc' (Some j)"
    by (rule turn_start [OF c(2,3)])
  let ?d = "d2\<lparr>d_sched := sc', d_jobs := ?jm\<rparr>"
  have s: "stored ?d j vs 0"
    using c(1) by (simp add: stored_def)
  obtain d' where d': "execute_queries ?d j = Some (d', Inr ())" "stored d' j vs 1" "d_sched d' = sc'"
    "if 1 = length vs then finished (d_jobs d') j else executing (d_jobs d') j (length vs) 1"
    by (rule execute_one [OF s]) (use c(4) assms(2) in auto)
  have t: "running_turn d2 = Some (d', Inr ())"
    using rr(1) d'(1) by (simp add: running_turn_def)
  have "\<exists>d''. running_turns (length vs - 1) d' = Some (d'', Inr ()) \<and> stored d'' j vs (length vs) \<and> finished (d_jobs d'') j"
  proof (cases "length vs = 1")
    case False
    then show ?thesis
      using turns_to_finish [OF d'(2)] d'(3,4) rr(2) assms(2) by (cases vs) auto
  qed (use d' in auto)
  then obtain d'' where d'': "running_turns (length vs - 1) d' = Some (d'', Inr ())" "stored d'' j vs (length vs)"
    "finished (d_jobs d'') j"
    by blast
  have "running_turns (length vs) d2 = Some (d'', Inr ())"
    using t d''(1) assms(2) by (cases vs) simp_all
  moreover have "retrieve_job_result d'' j = Inr vs"
    using d''(2) json.inputs_count [of "d_disk d''" j vs] assms(2)
      json.read_output_slice [of "d_disk d''" j vs 0 "length vs"]
    by (auto simp: stored_def retrieve_job_result_def)
  ultimately show ?thesis
    using finished_status [OF d''(3)] by (simp add: driver_job_status_def)
qed

theorem driver_completes_job_witness:
  "\<exists>d1 r1 d2 r2 d'.
     upload_batch_data BatchDriver 7 (Some [''[1, true]\<newline>'', ''\<newline>'', ''null'']) = (d1, r1)
     \<and> driver_create_job 0 d1 7 ''gpt'' ''1h'' = (d2, r2)
     \<and> running_turns 2 d2 = Some (d', Inr ())
     \<and> retrieve_job_result d' 7 = Inr [JArr [JInt 1, JBool True], JNull]"
proof -
  let ?f = "Some [''[1, true]\<newline>'', ''\<newline>'', ''null'']"
  have f: "read_input_file json_loads ?f = Inr [JArr [JInt 1, JBool True], JNull]"
    by code_simp
  obtain d1 r1 where 1: "upload_batch_data BatchDriver 7 ?f = (d1, r1)"
    by (rule prod.exhaust)
  obtain d2 r2 where 2: "driver_create_job 0 d1 7 ''gpt'' ''1h'' = (d2, r2)"
    by (rule prod.exhaust)
  show ?thesis
    using driver_completes_job [OF f _ demo_window 1 2] 1 2 by (auto simp: numeral_2_eq_2)
qed

text \<open>
  The scheduler treats the completion window, which the job manager keeps in minutes, as a number
  of seconds: a job submitted at time \<open>now\<close> with a window of \<open>n\<close> minutes is due at \<open>now + n\<close>.
\<close>

lemma window_minutes_used_as_seconds:
  assumes "read_input_file json_loads f = Inr vs" and "vs \<noteq> []"
    and "upload_batch_data BatchDriver j f = (d1, r1)"
    and "driver_create_job now d1 j e (nat_str n @ ''m'') = (d2, r2)"
  shows "due_jobs_list (d_sched d2) = [(j, now + real n)]"
proof -
  note u = upload_stored [OF assms(1,3)]
  have n: "get_job_number_requests (d_disk d1) j = int (length vs)"
    using u(1) json.inputs_count by (simp add: stored_def)
  have w: "parse_window (nat_str n @ ''m'') = Inr (Some (int n))"
    by (simp add: parse_window_def py_int_nat_str)
  show ?thesis
    using assms(2,4) n u(2,3) w
    by (auto simp: driver_create_job_def create_job_def validate_job_def JobMetaInfo_def JobManager_def
        get_job_window_due_def append_job_def JobScheduler_def insert_at_def Let_def)
qed

lemma window_minutes_used_as_seconds_witness:
  "\<exists>d1 r1 d2 r2. upload_batch_data BatchDriver 7 (Some [''null'']) = (d1, r1)
     \<and> driver_create_job 100 d1 7 ''gpt'' (nat_str 30 @ ''m'') = (d2, r2)
     \<and> due_jobs_list (d_sched d2) = [(7, 130)]"
proof -
  have f: "read_input_file json_loads (Some [''null'']) = Inr [JNull]"
    by code_simp
  obtain d1 r1 where 1: "upload_batch_data BatchDriver 7 (Some [''null'']) = (d1, r1)"
    by (rule prod.exhaust)
  obtain d2 r2 where 2: "driver_create_job 100 d1 7 ''gpt'' (nat_str 30 @ ''m'') = (d2, r2)"
    by (rule prod.exhaust)
  show ?thesis
    using window_minutes_used_as_seconds [OF f _ 1 2] 1 2 by simp
qed

end
