(* ===== verification/Floats.thy ===== *)
theory Floats
  imports Prelude
begin

text \<open>
  Floating point numbers as the numerical code sees them: the reals extended by the two infinities
  and by NaN, with the IEEE rules for them. Rounding and the sign of zero are not modelled, so a
  division by zero is a division by positive zero. The operators are those of NumPy arrays, which
  return infinities and NaN where plain Python would raise.
\<close>

datatype flt = Fin real | PInf | MInf | NaN

subsection \<open>Operators\<close>

definition signed_inf :: "real \<Rightarrow> flt" where
  "signed_inf s = (if s > 0 then PInf else if s < 0 then MInf else NaN)"

fun fsign :: "flt \<Rightarrow> real" where
  "fsign (Fin x) = sgn x"
| "fsign PInf = 1"
| "fsign MInf = - 1"
| "fsign NaN = 0"

fun fadd :: "flt \<Rightarrow> flt \<Rightarrow> flt" where
  "fadd (Fin x) (Fin y) = Fin (x + y)"
| "fadd NaN _ = NaN"
| "fadd _ NaN = NaN"
| "fadd PInf MInf = NaN"
| "fadd MInf PInf = NaN"
| "fadd PInf _ = PInf"
| "fadd MInf _ = MInf"
| "fadd _ y = y"

fun fneg :: "flt \<Rightarrow> flt" where
  "fneg (Fin x) = Fin (- x)"
| "fneg PInf = MInf"
| "fneg MInf = PInf"
| "fneg NaN = NaN"

fun fmul :: "flt \<Rightarrow> flt \<Rightarrow> flt" where
  "fmul (Fin x) (Fin y) = Fin (x * y)"
| "fmul NaN _ = NaN"
| "fmul _ NaN = NaN"
| "fmul x y = signed_inf (fsign x * fsign y)"

fun fdiv :: "flt \<Rightarrow> flt \<Rightarrow> flt" where
  "fdiv (Fin x) (Fin y) = (if y = 0 then signed_inf x else Fin (x / y))"
| "fdiv NaN _ = NaN"
| "fdiv _ NaN = NaN"
| "fdiv (Fin x) _ = Fin 0"
| "fdiv x (Fin y) = signed_inf (fsign x * (if y < 0 then - 1 else 1))"
| "fdiv _ _ = NaN"

instantiation flt :: "{plus, minus, uminus, times, inverse, ord}"
begin

definition plus_flt :: "flt \<Rightarrow> flt \<Rightarrow> flt" where
  "plus_flt = fadd"

definition uminus_flt :: "flt \<Rightarrow> flt" where
  "uminus_flt = fneg"

definition minus_flt :: "flt \<Rightarrow> flt \<Rightarrow> flt" where
  "minus_flt x y = fadd x (fneg y)"

definition times_flt :: "flt \<Rightarrow> flt \<Rightarrow> flt" where
  "times_flt = fmul"

definition divide_flt :: "flt \<Rightarrow> flt \<Rightarrow> flt" where
  "divide_flt = fdiv"

definition inverse_flt :: "flt \<Rightarrow> flt" where
  "inverse_flt x = fdiv (Fin 1) x"

text \<open>Every comparison with NaN is false.\<close>

fun less_eq_flt :: "flt \<Rightarrow> flt \<Rightarrow> bool" where
  "less_eq_flt (Fin x) (Fin y) = (x \<le> y)"
| "less_eq_flt NaN _ = False"
| "less_eq_flt _ NaN = False"
| "less_eq_flt MInf _ = True"
| "less_eq_flt _ PInf = True"
| "less_eq_flt _ _ = False"

fun less_flt :: "flt \<Rightarrow> flt \<Rightarrow> bool" where
  "less_flt (Fin x) (Fin y) = (x < y)"
| "less_flt NaN _ = False"
| "less_flt _ NaN = False"
| "less_flt MInf MInf = False"
| "less_flt MInf _ = True"
| "less_flt PInf _ = False"
| "less_flt _ PInf = True"
| "less_flt _ MInf = False"

instance ..

end

text \<open>\<open>np.minimum\<close>, \<open>np.maximum\<close> (NaN wins), \<open>np.clip\<close>, \<open>np.log\<close>, \<open>np.sqrt\<close>.\<close>

definition fmin :: "flt \<Rightarrow> flt \<Rightarrow> flt" where
  "fmin x y = (if x = NaN \<or> y = NaN then NaN else if x \<le> y then x else y)"

definition fmax :: "flt \<Rightarrow> flt \<Rightarrow> flt" where
  "fmax x y = (if x = NaN \<or> y = NaN then NaN else if x \<le> y then y else x)"

definition fclip :: "flt \<Rightarrow> flt \<Rightarrow> flt \<Rightarrow> flt" where
  "fclip lo hi x = fmin (fmax x lo) hi"

fun flog :: "flt \<Rightarrow> flt" where
  "flog (Fin x) = (if x > 0 then Fin (ln x) else if x = 0 then MInf else NaN)"
| "flog PInf = PInf"
| "flog MInf = NaN"
| "flog NaN = NaN"

fun fsqrt :: "flt \<Rightarrow> flt" where
  "fsqrt (Fin x) = (if x \<ge> 0 then Fin (sqrt x) else NaN)"
| "fsqrt PInf = PInf"
| "fsqrt MInf = NaN"
| "fsqrt NaN = NaN"

definition fsum :: "flt list \<Rightarrow> flt" where
  "fsum xs = foldl (+) (Fin 0) xs"

definition fmean :: "flt list \<Rightarrow> flt" where
  "fmean xs = fsum xs / Fin (real (length xs))"

text \<open>The population standard deviation, \<open>np.std\<close>.\<close>

definition fstd :: "flt list \<Rightarrow> flt" where
  "fstd xs = (let m = fmean xs in fsqrt (fmean (map (\<lambda>x. (x - m) * (x - m)) xs)))"

subsection \<open>Computation with finite numbers\<close>

lemma Fin_ops [simp]:
  "Fin x + Fin y = Fin (x + y)"
  "Fin x - Fin y = Fin (x - y)"
  "Fin x * Fin y = Fin (x * y)"
  "- Fin x = Fin (- x)"
  "y \<noteq> 0 \<Longrightarrow> Fin x / Fin y = Fin (x / y)"
  "Fin x \<le> Fin y \<longleftrightarrow> x \<le> y"
  "Fin x < Fin y \<longleftrightarrow> x < y"
  by (simp_all add: plus_flt_def minus_flt_def times_flt_def uminus_flt_def divide_flt_def)

lemma Fin_minmax [simp]:
  "fmin (Fin x) (Fin y) = Fin (min x y)"
  "fmax (Fin x) (Fin y) = Fin (max x y)"
  by (simp_all add: fmin_def fmax_def)

lemma fclip_Fin [simp]: "fclip (Fin a) (Fin b) (Fin x) = Fin (min (max x a) b)"
  by (simp add: fclip_def)

lemma flog_Fin [simp]: "x > 0 \<Longrightarrow> flog (Fin x) = Fin (ln x)"
  by simp

lemma fsum_Fin: "fsum (map Fin xs) = Fin (sum_list xs)"
proof -
  have "foldl (+) (Fin a) (map Fin xs) = Fin (a + sum_list xs)" for a
    by (induction xs arbitrary: a) (simp_all add: add.assoc)
  then show ?thesis
    by (simp add: fsum_def)
qed

lemma fmean_Fin: "xs \<noteq> [] \<Longrightarrow> fmean (map Fin xs) = Fin (sum_list xs / real (length xs))"
  by (simp add: fmean_def fsum_Fin)

definition is_fin :: "flt \<Rightarrow> bool" where
  "is_fin x \<longleftrightarrow> (\<exists>r. x = Fin r)"

lemma is_fin_Fin [simp]: "is_fin (Fin r)"
  by (simp add: is_fin_def)

lemma is_fin_map: "list_all is_fin xs \<Longrightarrow> \<exists>rs. xs = map Fin rs"
proof (induction xs)
  case (Cons x xs)
  then obtain r rs where "x = Fin r" "xs = map Fin rs"
    by (auto simp: is_fin_def)
  then show ?case
    by (intro exI [of _ "r # rs"]) simp
qed simp

lemma fclip_range:
  assumes "a \<le> b"
  shows "fclip (Fin a) (Fin b) x = NaN \<or> (\<exists>r. fclip (Fin a) (Fin b) x = Fin r \<and> a \<le> r \<and> r \<le> b)"
  using assms by (cases x) (auto simp: fclip_def fmin_def fmax_def)

subsection \<open>Largest elements and positions\<close>

text \<open>Python's \<open>min\<close> and \<open>max\<close> of two values: the first one unless the second is strictly better.\<close>

definition py_min :: "flt \<Rightarrow> flt \<Rightarrow> flt" where
  "py_min x y = (if y < x then y else x)"

definition py_max :: "flt \<Rightarrow> flt \<Rightarrow> flt" where
  "py_max x y = (if x < y then y else x)"

text \<open>Python's \<open>max\<close> with a key: the first of the largest.\<close>

definition py_max_by :: "('a \<Rightarrow> flt) \<Rightarrow> 'a list \<Rightarrow> 'a" where
  "py_max_by f xs = foldl (\<lambda>b x. if f x > f b then x else b) (hd xs) (tl xs)"

fun list_index :: "'a \<Rightarrow> 'a list \<Rightarrow> nat" where
  "list_index x [] = 0"
| "list_index x (y # ys) = (if x = y then 0 else Suc (list_index x ys))"

lemma list_index_nth: "p \<in> set pods \<Longrightarrow> list_index p pods < length pods \<and> pods ! list_index p pods = p"
  by (induction pods) auto

lemma py_max_by_Fin:
  assumes "xs \<noteq> []" "\<forall>x \<in> set xs. f x = Fin (g x)"
  shows "py_max_by f xs \<in> set xs \<and> (\<forall>x \<in> set xs. f x \<le> f (py_max_by f xs))"
proof -
  have "foldl (\<lambda>b x. if f x > f b then x else b) b ys \<in> insert b (set ys) \<and>
      (\<forall>x \<in> insert b (set ys). g x \<le> g (foldl (\<lambda>b x. if f x > f b then x else b) b ys))"
    if "\<forall>x \<in> insert b (set ys). f x = Fin (g x)" for b ys
    using that
  proof (induction ys arbitrary: b)
    case (Cons y ys)
    let ?b = "if f y > f b then y else b"
    let ?m = "foldl (\<lambda>b x. if f x > f b then x else b) ?b ys"
    have b: "g y \<le> g ?b" "g b \<le> g ?b" "?b \<in> {y, b}"
      using Cons.prems by auto
    have m: "?m \<in> insert ?b (set ys)" "\<forall>x \<in> insert ?b (set ys). g x \<le> g ?m"
      using Cons.IH [of ?b] Cons.prems by auto
    then have "g ?b \<le> g ?m"
      by blast
    then have "g y \<le> g ?m" "g b \<le> g ?m"
      using b by linarith+
    then show ?case
      using m by (cases "f b < f y") auto
  qed simp
  from this [of "hd xs" "tl xs"] show ?thesis
    using assms by (cases xs) (auto simp: py_max_by_def)
qed

end
