(* ===== verification/Rewards.thy ===== *)
theory Rewards
  imports Floats
begin

text \<open>
  The reward labels of \<^verbatim>\<open>routing_agent_service/agent_codes/rewards.py\<close>: the element-wise reward
  shapes, the bucketed ones, and the dispatcher \<open>compute_rewards\<close>. A column is a list of floats.
  The percentile routine of NumPy and the quantile routine of pandas are arguments.
\<close>

record reward_result =
  ttft_rewards :: "flt list"
  tpot_rewards :: "flt list"
  combined_rewards :: "flt list"

subsection \<open>Element-wise reward shapes\<close>

text \<open>\<open>max(0, 1 - w)\<close> is Python's \<open>max\<close>: the first argument unless the second is larger.\<close>

definition calculate_combined_rewards :: "flt list \<Rightarrow> flt list \<Rightarrow> flt \<Rightarrow> flt list" where
  "calculate_combined_rewards ttft tpot w =
     (let v = (if Fin 1 - w > Fin 0 then Fin 1 - w else Fin 0) in map2 (\<lambda>t p. w * t + v * p) ttft tpot)"

definition elementwise :: "(flt \<Rightarrow> flt) \<Rightarrow> (flt \<Rightarrow> flt) \<Rightarrow> flt list \<Rightarrow> flt list \<Rightarrow> flt \<Rightarrow> reward_result" where
  "elementwise f g ttft tpot w =
     \<lparr>ttft_rewards = map f ttft, tpot_rewards = map g tpot,
      combined_rewards = calculate_combined_rewards (map f ttft) (map g tpot) w\<rparr>"

definition simple_ttft :: "flt \<Rightarrow> flt \<Rightarrow> flt" where
  "simple_ttft slo x =
     (if x \<le> Fin 0 then Fin 0.5
      else if x \<le> slo then Fin 0.5 - Fin 0.4 * x / slo
      else Fin (- 0.1) - Fin 0.4 * fmin (Fin 1) ((x - slo) / slo))"

definition simple_tpot :: "flt \<Rightarrow> flt \<Rightarrow> flt" where
  "simple_tpot slo x =
     (if x \<le> Fin 0 then Fin (- 0.5)
      else if x \<le> slo then Fin 0.1 + Fin 0.4 * (Fin 1 - x / slo)
      else Fin (- 0.1) - Fin 0.4 * fmin (Fin 1) ((x - slo) / slo))"

definition calculate_rewards_simple :: "flt list \<Rightarrow> flt list \<Rightarrow> flt \<Rightarrow> flt \<Rightarrow> flt \<Rightarrow> reward_result" where
  "calculate_rewards_simple ttft tpot ttft_slo avg_tpot_slo w =
     elementwise (simple_ttft ttft_slo) (simple_tpot avg_tpot_slo) ttft tpot w"

definition extended_ttft :: "flt \<Rightarrow> flt \<Rightarrow> flt" where
  "extended_ttft slo x =
     (if x \<le> Fin 0 then Fin 0.5
      else if x \<le> slo then Fin 0.5 - Fin 0.4 * x / slo
      else Fin (- 0.1) - Fin 0.4 * fmin (Fin 4) ((x - slo) / slo))"

definition extended_tpot :: "flt \<Rightarrow> flt \<Rightarrow> flt" where
  "extended_tpot slo x =
     (if x \<le> Fin 0 then Fin (- 0.5)
      else if x \<le> slo then Fin 0.1 + Fin 0.4 * (Fin 1 - x / slo)
      else Fin (- 0.1) - Fin 0.4 * fmin (Fin 3) ((x - slo) / slo))"

definition calculate_rewards_simple_extended :: "flt list \<Rightarrow> flt list \<Rightarrow> flt \<Rightarrow> flt \<Rightarrow> flt \<Rightarrow> reward_result" where
  "calculate_rewards_simple_extended ttft tpot ttft_slo avg_tpot_slo w =
     elementwise (extended_ttft ttft_slo) (extended_tpot avg_tpot_slo) ttft tpot w"

definition steeper_ttft :: "flt \<Rightarrow> flt \<Rightarrow> flt" where
  "steeper_ttft slo x =
     (if x \<le> Fin 0 then Fin 2.1
      else if x \<le> slo then Fin 0.5 + Fin 1.6 * (Fin 1 - x / slo)
      else Fin (- 0.1) - Fin 0.4 * fmin (Fin 4) ((x - slo) / slo))"

definition steeper_tpot :: "flt \<Rightarrow> flt \<Rightarrow> flt" where
  "steeper_tpot slo x =
     (if x \<le> Fin 0 then Fin (- 0.5)
      else if x \<le> slo then Fin 0.5 + Fin 1.2 * (Fin 1 - x / slo)
      else Fin (- 0.1) - Fin 0.4 * fmin (Fin 3) ((x - slo) / slo))"

definition calculate_rewards_piecewise_linear_steeper_gradient ::
  "flt list \<Rightarrow> flt list \<Rightarrow> flt \<Rightarrow> flt \<Rightarrow> flt \<Rightarrow> reward_result" where
  "calculate_rewards_piecewise_linear_steeper_gradient ttft tpot ttft_slo avg_tpot_slo w =
     elementwise (steeper_ttft ttft_slo) (steeper_tpot avg_tpot_slo) ttft tpot w"

definition inverse_ttft :: "flt \<Rightarrow> flt" where
  "inverse_ttft x = (Fin 1000 / (x + Fin 100) - Fin 5.05) / Fin 4.95"

definition inverse_tpot :: "flt \<Rightarrow> flt" where
  "inverse_tpot x = (Fin 100 / (x + Fin 10) - Fin 5.05) / Fin 4.95"

definition calculate_rewards_inverse_latency :: "flt list \<Rightarrow> flt list \<Rightarrow> flt \<Rightarrow> flt \<Rightarrow> flt \<Rightarrow> reward_result" where
  "calculate_rewards_inverse_latency ttft tpot ttft_slo avg_tpot_slo w =
     elementwise inverse_ttft inverse_tpot ttft tpot w"

definition optimization_ttft :: "flt \<Rightarrow> flt \<Rightarrow> flt" where
  "optimization_ttft slo x =
     (if x \<le> Fin 0 then Fin 2
      else if x \<le> slo then Fin 2 - Fin 2 * x / slo
      else Fin (- 0.5) - Fin 0.4 * fmin (Fin 3.75) ((x - slo) / slo))"

definition optimization_tpot :: "flt \<Rightarrow> flt \<Rightarrow> flt" where
  "optimization_tpot slo x =
     (if x \<le> Fin 0 then Fin (- 0.5)
      else if x \<le> slo then Fin 1.5 - Fin 1.5 * x / slo
      else Fin (- 0.5) - Fin 0.4 * fmin (Fin 2.5) ((x - slo) / slo))"

definition calculate_rewards_latency_optimization ::
  "flt list \<Rightarrow> flt list \<Rightarrow> flt \<Rightarrow> flt \<Rightarrow> flt \<Rightarrow> reward_result" where
  "calculate_rewards_latency_optimization ttft tpot ttft_slo avg_tpot_slo w =
     elementwise (optimization_ttft ttft_slo) (optimization_tpot avg_tpot_slo) ttft tpot w"

definition log_latency :: "flt \<Rightarrow> flt" where
  "log_latency x = - flog (x + Fin 1)"

definition calculate_rewards_simple_latency_minimization :: "flt list \<Rightarrow> flt list \<Rightarrow> flt \<Rightarrow> reward_result" where
  "calculate_rewards_simple_latency_minimization ttft tpot w = elementwise log_latency log_latency ttft tpot w"

definition reciprocal_latency :: "flt \<Rightarrow> flt" where
  "reciprocal_latency x = Fin (- 1000) / fmax x (Fin 1)"

definition calculate_rewards_negative_reciprocal :: "flt list \<Rightarrow> flt list \<Rightarrow> flt \<Rightarrow> reward_result" where
  "calculate_rewards_negative_reciprocal ttft tpot w = elementwise reciprocal_latency reciprocal_latency ttft tpot w"

definition linear_latency :: "flt \<Rightarrow> flt" where
  "linear_latency x = (- x) / Fin 1000"

definition calculate_rewards_negative_linear :: "flt list \<Rightarrow> flt list \<Rightarrow> flt \<Rightarrow> reward_result" where
  "calculate_rewards_negative_linear ttft tpot w = elementwise linear_latency linear_latency ttft tpot w"

definition squared_latency :: "flt \<Rightarrow> flt" where
  "squared_latency x = - ((x / Fin 1000) * (x / Fin 1000))"

definition calculate_rewards_negative_squared :: "flt list \<Rightarrow> flt list \<Rightarrow> flt \<Rightarrow> reward_result" where
  "calculate_rewards_negative_squared ttft tpot w = elementwise squared_latency squared_latency ttft tpot w"

text \<open>The loop over the selected pods: a pod without a differential column has no bonus.\<close>

fun locality_bonus :: "(string \<rightharpoonup> flt list) \<Rightarrow> nat \<Rightarrow> string list \<Rightarrow> py_error + flt list" where
  "locality_bonus base i [] = Inr []"
| "locality_bonus base i (pod # pods) =
     (case base (pod @ ''-kv_differential'') of
        None \<Rightarrow> map_sum id ((#) (Fin 0)) (locality_bonus base (i + 1) pods)
      | Some col \<Rightarrow>
          (case py_index col (int i) of
             Inl e \<Rightarrow> Inl e
           | Inr x \<Rightarrow> map_sum id ((#) (x / Fin 100)) (locality_bonus base (i + 1) pods)))"

definition calculate_rewards_negative_linear_and_prefix_locality ::
  "flt list \<Rightarrow> flt list \<Rightarrow> flt \<Rightarrow> string list \<Rightarrow> (string \<rightharpoonup> flt list) \<Rightarrow> (string \<rightharpoonup> flt) \<Rightarrow> py_error + reward_result" where
  "calculate_rewards_negative_linear_and_prefix_locality ttft tpot w selected_pods base_data hyperparameters =
     (let r = calculate_rewards_negative_linear ttft tpot w;
          plw = (case hyperparameters ''PREFIX_LOCALITY_WEIGHT'' of None \<Rightarrow> Fin 0.5 | Some x \<Rightarrow> x)
      in case locality_bonus base_data 0 selected_pods of
           Inl e \<Rightarrow> Inl e
         | Inr bonus \<Rightarrow> Inr (r\<lparr>combined_rewards := map2 (\<lambda>c b. c + plw * b) (combined_rewards r) bonus\<rparr>))"

definition absolute_latency :: "flt \<Rightarrow> flt \<Rightarrow> flt" where
  "absolute_latency slo x =
     (if x \<le> slo then Fin 1 - x / slo else - fclip (Fin 0) (Fin 5) (x / slo - Fin 1))"

definition calculate_rewards_absolute_latency :: "flt list \<Rightarrow> flt list \<Rightarrow> flt \<Rightarrow> flt \<Rightarrow> flt \<Rightarrow> reward_result" where
  "calculate_rewards_absolute_latency ttft tpot ttft_slo tpot_slo w =
     elementwise (absolute_latency ttft_slo) (absolute_latency tpot_slo) ttft tpot w"

definition log_throughput :: "flt \<Rightarrow> flt \<Rightarrow> flt" where
  "log_throughput tokens x = flog (tokens / fmax (x / Fin 1000) (Fin 0.001) + Fin 1)"

definition calculate_rewards_throughput_based :: "flt list \<Rightarrow> flt list \<Rightarrow> flt list \<Rightarrow> flt \<Rightarrow> reward_result" where
  "calculate_rewards_throughput_based ttft tpot input_tokens w =
     (let tr = map2 log_throughput input_tokens ttft; pr = map (log_throughput (Fin 1)) tpot in
      \<lparr>ttft_rewards = tr, tpot_rewards = pr, combined_rewards = calculate_combined_rewards tr pr w\<rparr>)"

definition log_normal :: "flt \<Rightarrow> flt \<Rightarrow> flt" where
  "log_normal p99 x = flog (x + Fin 1) / flog (p99 + Fin 1)"

definition calculate_rewards_log_normalized :: "flt list \<Rightarrow> flt list \<Rightarrow> flt \<Rightarrow> flt \<Rightarrow> flt \<Rightarrow> reward_result" where
  "calculate_rewards_log_normalized ttft tpot ttft_p99 tpot_p99 w =
     (let tn = map (log_normal ttft_p99) ttft; pn = map (log_normal tpot_p99) tpot in
      \<lparr>ttft_rewards = map uminus tn, tpot_rewards = map uminus pn,
       combined_rewards = map2 (\<lambda>t p. - (w * t + (Fin 1 - w) * p)) tn pn\<rparr>)"

subsection \<open>Context-aware rewards\<close>

record context_result = reward_result +
  effective_input_tokens :: "flt list"
  expected_ttft :: "flt list"
  adaptive_ttft_slo :: "flt list"
  ttft_efficiency :: "flt list"
  adaptive_tpot_slo :: "flt list"

definition BASE_OVERHEAD_MS :: flt where
  "BASE_OVERHEAD_MS = Fin 50"

definition PER_TOKEN_LATENCY_MS :: flt where
  "PER_TOKEN_LATENCY_MS = Fin 0.4"

definition effective_tokens :: "flt \<Rightarrow> flt \<Rightarrow> flt" where
  "effective_tokens tokens hit = tokens * (Fin 1 - hit)"

definition expected_latency :: "flt \<Rightarrow> flt" where
  "expected_latency effective = BASE_OVERHEAD_MS + effective * PER_TOKEN_LATENCY_MS"

definition adaptive_slo :: "flt \<Rightarrow> flt \<Rightarrow> flt" where
  "adaptive_slo base_slo tokens = fmax base_slo (BASE_OVERHEAD_MS + tokens * PER_TOKEN_LATENCY_MS * Fin 1.5)"

definition efficiency :: "flt \<Rightarrow> flt \<Rightarrow> flt" where
  "efficiency expected x = (if x > Fin 0 then expected / fmax x (Fin 1) else Fin 1)"

definition context_ttft :: "flt \<Rightarrow> flt \<Rightarrow> flt \<Rightarrow> flt" where
  "context_ttft slo eff x =
     (if x \<le> Fin 0 then Fin 2
      else if x \<le> slo then Fin 0.5 + Fin 1.5 * (eff - Fin 1)
      else Fin (- 0.5) - Fin 1 * fmin (Fin 3) ((x - slo) / slo))"

definition context_factor :: "flt \<Rightarrow> flt" where
  "context_factor n = (if n < Fin 4000 then Fin 1 else fmin (Fin 1.2) (Fin 1 + (n - Fin 4000) / Fin 20000))"

definition context_tpot :: "flt \<Rightarrow> flt \<Rightarrow> flt" where
  "context_tpot slo x =
     (if x \<le> Fin 0 then Fin (- 0.5)
      else if x \<le> slo then Fin 1.5 - Fin 1.5 * x / slo
      else Fin (- 0.5) - Fin 0.5 * fmin (Fin 2.5) ((x - slo) / slo))"

definition calculate_rewards_context_aware ::
  "flt list \<Rightarrow> flt list \<Rightarrow> flt list \<Rightarrow> flt list \<Rightarrow> flt list \<Rightarrow> flt \<Rightarrow> flt \<Rightarrow> flt \<Rightarrow> context_result" where
  "calculate_rewards_context_aware ttft tpot input_tokens output_tokens hits base_ttft_slo avg_tpot_slo w =
     (let eit = map2 effective_tokens input_tokens hits;
          exp = map expected_latency eit;
          aslo = map (adaptive_slo base_ttft_slo) input_tokens;
          eff = map2 efficiency exp ttft;
          tr = map2 (\<lambda>(slo, e) x. context_ttft slo e x) (zip aslo eff) ttft;
          atpot = map2 (\<lambda>i out. avg_tpot_slo * context_factor (i + out)) input_tokens output_tokens;
          pr = map2 context_tpot atpot tpot
      in \<lparr>ttft_rewards = tr, tpot_rewards = pr, combined_rewards = calculate_combined_rewards tr pr w,
          effective_input_tokens = eit, expected_ttft = exp, adaptive_ttft_slo = aslo,
          ttft_efficiency = eff, adaptive_tpot_slo = atpot\<rparr>)"

subsection \<open>Bucketed rewards\<close>

text \<open>\<open>xs[mask]\<close> and \<open>xs[mask] = news\<close>.\<close>

definition masked :: "bool list \<Rightarrow> 'a list \<Rightarrow> 'a list" where
  "masked ms xs = map snd (filter fst (zip ms xs))"

fun set_masked :: "bool list \<Rightarrow> 'a list \<Rightarrow> 'a list \<Rightarrow> 'a list" where
  "set_masked (True # ms) (n # ns) (x # xs) = n # set_masked ms ns xs"
| "set_masked (False # ms) ns (x # xs) = x # set_masked ms ns xs"
| "set_masked _ _ xs = xs"

text \<open>The negative Z-scores of one bucket, clipped to three standard deviations.\<close>

definition bucket_scores :: "flt list \<Rightarrow> flt list" where
  "bucket_scores xs =
     (let m = fmean xs; sd = fstd xs in
      map (fclip (Fin (- 3)) (Fin 3))
        (if sd > Fin 0.000001 then map (\<lambda>x. (- (x - m)) / sd) xs else map (\<lambda>_. Fin 0) xs))"

definition bucket_mask :: "flt list \<Rightarrow> flt list \<Rightarrow> nat \<Rightarrow> bool list" where
  "bucket_mask q input_tokens i =
     map (\<lambda>x. q ! i \<le> x \<and> (i < 2 \<longrightarrow> x < q ! (i + 1))) input_tokens"

definition score_bucket :: "flt list \<Rightarrow> flt list \<Rightarrow> flt list \<Rightarrow> nat \<Rightarrow> flt list \<Rightarrow> flt list" where
  "score_bucket q input_tokens values i rewards =
     (let mask = bucket_mask q input_tokens i in
      if count_true mask = 0 then rewards else set_masked mask (bucket_scores (masked mask values)) rewards)"

definition quantile_scores :: "flt list \<Rightarrow> flt list \<Rightarrow> flt list \<Rightarrow> flt list" where
  "quantile_scores q input_tokens values =
     foldl (\<lambda>r i. score_bucket q input_tokens values i r) (map (\<lambda>_. Fin 0) values) [0, 1, 2]"

text \<open>\<open>percentile\<close> is \<open>np.percentile\<close> at a list of percentages.\<close>

definition calculate_rewards_quantile_based ::
  "(flt list \<Rightarrow> real list \<Rightarrow> py_error + flt list) \<Rightarrow> flt list \<Rightarrow> flt list \<Rightarrow> flt list \<Rightarrow> flt list \<Rightarrow> flt \<Rightarrow>
   py_error + reward_result" where
  "calculate_rewards_quantile_based percentile ttft tpot input_tokens output_tokens w =
     (case percentile input_tokens [0, 33, 67, 100] of
        Inl e \<Rightarrow> Inl e
      | Inr q \<Rightarrow>
          let tr = quantile_scores q input_tokens ttft; pr = quantile_scores q input_tokens tpot in
          Inr \<lparr>ttft_rewards = tr, tpot_rewards = pr, combined_rewards = calculate_combined_rewards tr pr w\<rparr>)"

text \<open>\<open>np.digitize(x, bins, right=True)\<close> on increasing bins, clipped into the buckets.\<close>

definition bucket_index :: "flt list \<Rightarrow> nat \<Rightarrow> flt \<Rightarrow> nat" where
  "bucket_index bins n x = min (length (filter (\<lambda>b. b < x) bins)) (n - 1)"

definition bucket_mean :: "nat list \<Rightarrow> flt list \<Rightarrow> nat \<Rightarrow> flt" where
  "bucket_mean idx values b =
     (let mask = map (\<lambda>i. i = b) idx in if count_true mask > 0 then fmean (masked mask values) else Fin 0)"

definition linspace_0_100 :: "nat \<Rightarrow> real list" where
  "linspace_0_100 n = map (\<lambda>i. 100 * real i / real n) [0..<n + 1]"

definition calculate_rewards_quantile_advantage ::
  "(flt list \<Rightarrow> real list \<Rightarrow> py_error + flt list) \<Rightarrow> flt list \<Rightarrow> flt list \<Rightarrow> int \<Rightarrow> py_error + reward_result" where
  "calculate_rewards_quantile_advantage percentile latency input_tokens num_buckets =
     (let n = nat (max 1 (min num_buckets (int (length input_tokens)))) in
      case percentile input_tokens (linspace_0_100 n) of
        Inl e \<Rightarrow> Inl e
      | Inr edges \<Rightarrow>
          let idx = map (bucket_index (butlast (tl edges)) n) input_tokens;
              baseline = map (bucket_mean idx latency) idx;
              zeros = map (\<lambda>_. Fin 0) latency
          in Inr \<lparr>ttft_rewards = zeros, tpot_rewards = zeros,
                  combined_rewards = map2 (\<lambda>x b. (- (x - b)) / Fin 1000) latency baseline\<rparr>)"

subsection \<open>End-to-end latency rewards\<close>

record e2e_kwargs =
  kw_e2e_p99 :: "flt option"
  kw_e2e_slo :: "flt option"
  kw_ttft_slo :: "flt option"
  kw_input_tokens :: "flt list option"
  kw_output_tokens :: "flt list option"
  kw_num_buckets :: "int option"

definition e2e_slo_reward :: "flt \<Rightarrow> flt \<Rightarrow> flt" where
  "e2e_slo_reward slo x =
     (if x \<le> Fin 0 then Fin 2
      else if x \<le> slo then Fin 2 - Fin 2 * x / slo
      else Fin (- 0.5) - Fin 0.4 * fmin (Fin 4) ((x - slo) / slo))"

text \<open>The 99th percentile of the data is used when none is given or the given one is not positive.\<close>

definition e2e_p99 :: "(flt list \<Rightarrow> real list \<Rightarrow> py_error + flt list) \<Rightarrow> flt option \<Rightarrow> flt list \<Rightarrow> py_error + flt" where
  "e2e_p99 percentile given e2e =
     (case given of
        Some p \<Rightarrow>
          if p \<le> Fin 0
          then map_sum id (\<lambda>q. if hd q \<le> Fin 0 then Fin 1 else hd q) (percentile e2e [99])
          else Inr p
      | None \<Rightarrow> map_sum id (\<lambda>q. if hd q \<le> Fin 0 then Fin 1 else hd q) (percentile e2e [99]))"

definition e2e_tokens :: "e2e_kwargs \<Rightarrow> flt list \<Rightarrow> flt list" where
  "e2e_tokens kw e2e =
     (case (kw_input_tokens kw, kw_output_tokens kw) of
        (Some i, Some out) \<Rightarrow> map2 (+) i out
      | (Some i, None) \<Rightarrow> i
      | (None, _) \<Rightarrow> map (\<lambda>_. Fin 1) e2e)"

definition e2e_shape ::
  "(flt list \<Rightarrow> real list \<Rightarrow> py_error + flt list) \<Rightarrow> flt list \<Rightarrow> string \<Rightarrow> e2e_kwargs \<Rightarrow> py_error + flt list" where
  "e2e_shape percentile e2e name kw =
     (if name = ''negative_linear'' then Inr (map linear_latency e2e)
      else if name = ''negative_squared'' then Inr (map squared_latency e2e)
      else if name = ''negative_reciprocal'' then Inr (map reciprocal_latency e2e)
      else if name = ''simple_latency_minimization'' then Inr (map log_latency e2e)
      else if name = ''log_normalized'' then
        map_sum id (\<lambda>p. map (\<lambda>x. (- flog (x + Fin 1)) / flog (p + Fin 1)) e2e)
          (e2e_p99 percentile (kw_e2e_p99 kw) e2e)
      else if name = ''inverse_latency'' then Inr (map inverse_ttft e2e)
      else if name \<in> {''linear_simple'', ''linear_simple_extended'',
                      ''piecewise_linear_steeper_gradient'', ''latency_optimized''} then
        Inr (map (e2e_slo_reward
                (case kw_e2e_slo kw of
                   Some s \<Rightarrow> s
                 | None \<Rightarrow> (case kw_ttft_slo kw of Some s \<Rightarrow> s | None \<Rightarrow> Fin 1000))) e2e)
      else if name = ''throughput_based'' then Inr (map2 log_throughput (e2e_tokens kw e2e) e2e)
      else if name = ''quantile_based'' then
        (case kw_input_tokens kw of
           None \<Rightarrow> Inr (map linear_latency e2e)
         | Some i \<Rightarrow> map_sum id (\<lambda>q. quantile_scores q i e2e) (percentile i [0, 33, 67, 100]))
      else if name = ''quantile_advantage'' then
        (case kw_input_tokens kw of
           None \<Rightarrow> Inr (map linear_latency e2e)
         | Some i \<Rightarrow>
             map_sum id combined_rewards
               (calculate_rewards_quantile_advantage percentile e2e i
                  (case kw_num_buckets kw of None \<Rightarrow> 5 | Some n \<Rightarrow> n)))
      else Inr (map linear_latency e2e))"

definition calculate_rewards_e2e ::
  "(flt list \<Rightarrow> real list \<Rightarrow> py_error + flt list) \<Rightarrow> flt list \<Rightarrow> string \<Rightarrow> e2e_kwargs \<Rightarrow> py_error + reward_result" where
  "calculate_rewards_e2e percentile e2e name kw =
     map_sum id (\<lambda>r. \<lparr>ttft_rewards = map (\<lambda>_. Fin 0) e2e, tpot_rewards = map (\<lambda>_. Fin 0) e2e, combined_rewards = r\<rparr>)
       (e2e_shape percentile e2e name kw)"

subsection \<open>The dispatcher\<close>

definition SLO_REWARDS :: "(string \<times> (flt list \<Rightarrow> flt list \<Rightarrow> flt \<Rightarrow> flt \<Rightarrow> flt \<Rightarrow> reward_result)) list" where
  "SLO_REWARDS =
     [(''linear_simple'', calculate_rewards_simple),
      (''linear_simple_extended'', calculate_rewards_simple_extended),
      (''piecewise_linear_steeper_gradient'', calculate_rewards_piecewise_linear_steeper_gradient),
      (''inverse_latency'', calculate_rewards_inverse_latency),
      (''latency_optimized'', calculate_rewards_latency_optimization)]"

definition LATENCY_REWARDS :: "(string \<times> (flt list \<Rightarrow> flt list \<Rightarrow> flt \<Rightarrow> reward_result)) list" where
  "LATENCY_REWARDS =
     [(''simple_latency_minimization'', calculate_rewards_simple_latency_minimization),
      (''negative_reciprocal'', calculate_rewards_negative_reciprocal),
      (''negative_linear'', calculate_rewards_negative_linear),
      (''negative_squared'', calculate_rewards_negative_squared)]"

definition SPECIAL_REWARDS :: "string list" where
  "SPECIAL_REWARDS =
     [''quantile_based'', ''throughput_based'', ''absolute_latency'', ''log_normalized'',
      ''quantile_advantage'', ''context_aware'']"

definition KNOWN_REWARD_FUNCTIONS :: "string set" where
  "KNOWN_REWARD_FUNCTIONS = set (map fst SLO_REWARDS) \<union> set (map fst LATENCY_REWARDS) \<union> set SPECIAL_REWARDS"

type_synonym frame = "string \<rightharpoonup> flt list"
type_synonym hyper = "string \<rightharpoonup> flt"

text \<open>
  The \<open>log_normalized\<close> branch: resolve the two percentiles, write them back, reject a non-positive
  one and NaN results. The closing log line takes the minimum of the rewards, which raises
  \<open>ValueError\<close> on an empty column. \<open>quantile99\<close> is the pandas quantile at 0.99.
\<close>

definition resolve_p99 :: "(flt list \<Rightarrow> flt) \<Rightarrow> flt list \<Rightarrow> flt list \<Rightarrow> hyper \<Rightarrow> hyper \<times> flt \<times> flt" where
  "resolve_p99 quantile99 ttft tpot hp =
     (let (hp1, tp, pp) =
        (case (hp ''TTFT_P99'', hp ''TPOT_P99'') of
           (Some a, Some b) \<Rightarrow> (hp, a, b)
         | _ \<Rightarrow>
             let a = quantile99 ttft; b = quantile99 tpot in
             (hp(''TTFT_P99'' \<mapsto> a, ''TPOT_P99'' \<mapsto> b), a, b))
      in if pp \<le> Fin 0 then (hp1(''TPOT_P99'' \<mapsto> Fin 1), tp, Fin 1) else (hp1, tp, pp))"

definition compute_log_normalized ::
  "(flt list \<Rightarrow> flt) \<Rightarrow> flt list \<Rightarrow> flt list \<Rightarrow> flt \<Rightarrow> hyper \<Rightarrow> (hyper, reward_result) outcome" where
  "compute_log_normalized quantile99 ttft tpot w hp =
     (let (hp', tp, pp) = resolve_p99 quantile99 ttft tpot hp in
      if tp \<le> Fin 0 then (hp', Inl ValueError)
      else
        let r = calculate_rewards_log_normalized ttft tpot tp pp w in
        if NaN \<in> set (ttft_rewards r) \<or> NaN \<in> set (tpot_rewards r) \<or> NaN \<in> set (combined_rewards r)
        then (hp', Inl ValueError)
        else if ttft_rewards r = [] \<or> tpot_rewards r = [] \<or> combined_rewards r = []
        then (hp', Inl ValueError)
        else (hp', Inr r))"

definition dispatch_special ::
  "(flt list \<Rightarrow> real list \<Rightarrow> py_error + flt list) \<Rightarrow> (flt list \<Rightarrow> flt) \<Rightarrow> string \<Rightarrow> frame \<Rightarrow>
   flt list \<Rightarrow> flt list \<Rightarrow> flt \<Rightarrow> flt \<Rightarrow> flt \<Rightarrow> hyper \<Rightarrow> (hyper, reward_result) outcome" where
  "dispatch_special percentile quantile99 name df ttft tpot ttft_slo avg_tpot_slo w hp =
     (if name = ''quantile_based'' then
        (hp, case (df ''input_tokens'', df ''output_tokens'') of
               (Some i, Some out) \<Rightarrow> calculate_rewards_quantile_based percentile ttft tpot i out w
             | _ \<Rightarrow> Inr (calculate_rewards_latency_optimization ttft tpot ttft_slo avg_tpot_slo w))
      else if name = ''throughput_based'' then
        (hp, Inr (case df ''input_tokens'' of
                    Some i \<Rightarrow> calculate_rewards_throughput_based ttft tpot i w
                  | None \<Rightarrow> calculate_rewards_simple_latency_minimization ttft tpot w))
      else if name = ''absolute_latency'' then
        (hp, Inr (calculate_rewards_absolute_latency ttft tpot ttft_slo avg_tpot_slo w))
      else if name = ''quantile_advantage'' then
        (hp, case df ''input_tokens'' of
               Some i \<Rightarrow> calculate_rewards_quantile_advantage percentile ttft i 5
             | None \<Rightarrow> Inr (calculate_rewards_negative_linear ttft tpot w))
      else if name = ''context_aware'' then
        (hp, Inr (calculate_rewards_latency_optimization ttft tpot ttft_slo avg_tpot_slo w))
      else if name = ''log_normalized'' then compute_log_normalized quantile99 ttft tpot w hp
      else (hp, Inl ValueError))"

definition compute_rewards ::
  "(flt list \<Rightarrow> real list \<Rightarrow> py_error + flt list) \<Rightarrow> (flt list \<Rightarrow> flt) \<Rightarrow> string \<Rightarrow> frame \<Rightarrow> hyper \<Rightarrow>
   (hyper, reward_result) outcome" where
  "compute_rewards percentile quantile99 name df hp =
     (case (df ''ttft'', df ''avg_tpot'', hp ''TTFT_SLO'', hp ''AVG_TPOT_SLO'', hp ''TTFT_REWARD_WEIGHT'') of
        (Some ttft, Some tpot, Some ttft_slo, Some avg_tpot_slo, Some w) \<Rightarrow>
          (case map_of SLO_REWARDS name of
             Some f \<Rightarrow> (hp, Inr (f ttft tpot ttft_slo avg_tpot_slo w))
           | None \<Rightarrow>
               (case map_of LATENCY_REWARDS name of
                  Some f \<Rightarrow> (hp, Inr (f ttft tpot w))
                | None \<Rightarrow> dispatch_special percentile quantile99 name df ttft tpot ttft_slo avg_tpot_slo w hp))
      | _ \<Rightarrow> (hp, Inl KeyError))"

subsection \<open>The shape of the SLO rewards\<close>

text \<open>
  All SLO rewards are instances of one piecewise shape over the reals: \<open>t0\<close> for a non-positive
  latency, then linear from \<open>a\<close> down to \<open>a - b\<close> at the SLO \<open>s\<close>, then a penalty from \<open>- c\<close> on
  that grows with slope \<open>d\<close> up to \<open>k\<close> times the SLO.
\<close>

definition slo_shape :: "real \<Rightarrow> real \<Rightarrow> real \<Rightarrow> real \<Rightarrow> real \<Rightarrow> real \<Rightarrow> real \<Rightarrow> real \<Rightarrow> real" where
  "slo_shape t0 a b c d k s x =
     (if x \<le> 0 then t0 else if x \<le> s then a - b * x / s else - c - d * min k ((x - s) / s))"

lemma slo_shapes:
  assumes "0 < s"
  shows "simple_ttft (Fin s) (Fin x) = Fin (slo_shape 0.5 0.5 0.4 0.1 0.4 1 s x)"
    and "simple_tpot (Fin s) (Fin x) = Fin (slo_shape (- 0.5) 0.5 0.4 0.1 0.4 1 s x)"
    and "extended_ttft (Fin s) (Fin x) = Fin (slo_shape 0.5 0.5 0.4 0.1 0.4 4 s x)"
    and "extended_tpot (Fin s) (Fin x) = Fin (slo_shape (- 0.5) 0.5 0.4 0.1 0.4 3 s x)"
    and "steeper_ttft (Fin s) (Fin x) = Fin (slo_shape 2.1 2.1 1.6 0.1 0.4 4 s x)"
    and "steeper_tpot (Fin s) (Fin x) = Fin (slo_shape (- 0.5) 1.7 1.2 0.1 0.4 3 s x)"
    and "optimization_ttft (Fin s) (Fin x) = Fin (slo_shape 2 2 2 0.5 0.4 3.75 s x)"
    and "optimization_tpot (Fin s) (Fin x) = Fin (slo_shape (- 0.5) 1.5 1.5 0.5 0.4 2.5 s x)"
    and "e2e_slo_reward (Fin s) (Fin x) = Fin (slo_shape 2 2 2 0.5 0.4 4 s x)"
    and "context_tpot (Fin s) (Fin x) = Fin (slo_shape (- 0.5) 1.5 1.5 0.5 0.5 2.5 s x)"
  using assms
  by (simp_all add: simple_ttft_def simple_tpot_def extended_ttft_def extended_tpot_def steeper_ttft_def
      steeper_tpot_def optimization_ttft_def optimization_tpot_def e2e_slo_reward_def context_tpot_def
      slo_shape_def field_simps)

lemma slo_shape_antitone:
  assumes s: "0 < s" and p: "0 \<le> b" "0 \<le> d" "0 \<le> k" "a \<le> t0" "- c \<le> a - b" and xy: "0 \<le> x" "x \<le> y"
  shows "slo_shape t0 a b c d k s y \<le> slo_shape t0 a b c d k s x"
proof -
  have div: "x / s \<le> y / s" "0 \<le> x / s"
    using s xy by (simp_all add: divide_right_mono)
  have lin: "b * x / s \<le> b * y / s" "0 \<le> b * y / s"
    using p(1) div xy s mult_left_mono [OF div(1) p(1)] by simp_all
  have over: "- c - d * min k ((y - s) / s) \<le> - c" if "s < y"
    using p(2,3) s that by simp
  have inside: "x \<le> s \<Longrightarrow> b * x / s \<le> b"
    using p(1) s by (simp add: pos_divide_le_eq mult_left_mono)
  have pen: "d * min k ((x - s) / s) \<le> d * min k ((y - s) / s)"
    using p(2) s xy by (intro mult_left_mono min.mono divide_right_mono) auto
  consider "y \<le> 0" | "x \<le> 0" "0 < y" "y \<le> s" | "x \<le> 0" "s < y" | "0 < x" "y \<le> s"
    | "0 < x" "x \<le> s" "s < y" | "s < x"
    by linarith
  then show ?thesis
  proof cases
    case 2
    then have "slo_shape t0 a b c d k s y = a - b * y / s" "slo_shape t0 a b c d k s x = t0"
      by (simp_all add: slo_shape_def)
    then show ?thesis
      using lin p by linarith
  next
    case 3
    then have "slo_shape t0 a b c d k s y = - c - d * min k ((y - s) / s)" "slo_shape t0 a b c d k s x = t0"
      using s by (simp_all add: slo_shape_def)
    then show ?thesis
      using over [OF 3(2)] p by linarith
  next
    case 5
    then have "slo_shape t0 a b c d k s y = - c - d * min k ((y - s) / s)"
      "slo_shape t0 a b c d k s x = a - b * x / s"
      using s by (simp_all add: slo_shape_def)
    then show ?thesis
      using over [OF 5(3)] inside [OF 5(2)] p by linarith
  qed (use xy p s lin pen in \<open>simp_all add: slo_shape_def\<close>)
qed

lemma slo_shape_range:
  assumes s: "0 < s" and p: "0 \<le> b" "0 \<le> d" "0 \<le> k" "lo \<le> t0" "lo \<le> a - b" "lo \<le> - c - d * k"
    "t0 \<le> hi" "a \<le> hi" "- c \<le> hi"
  shows "lo \<le> slo_shape t0 a b c d k s x \<and> slo_shape t0 a b c d k s x \<le> hi"
proof -
  consider "x \<le> 0" | "0 < x" "x \<le> s" | "0 < x" "s < x"
    by linarith
  then show ?thesis
  proof cases
    case 1
    then show ?thesis
      using p by (simp add: slo_shape_def)
  next
    case 2
    then have "slo_shape t0 a b c d k s x = a - b * x / s" "b * x / s \<le> b" "0 \<le> b * x / s"
      using p(1) s by (simp_all add: slo_shape_def pos_divide_le_eq mult_left_mono)
    then show ?thesis
      using p by linarith
  next
    case 3
    then have "slo_shape t0 a b c d k s x = - c - d * min k ((x - s) / s)"
      "d * min k ((x - s) / s) \<le> d * k" "0 \<le> d * min k ((x - s) / s)"
      using p s by (simp_all add: slo_shape_def mult_left_mono)
    then show ?thesis
      using p by linarith
  qed
qed

subsection \<open>Lower latency, higher reward\<close>

text \<open>A function on finite latencies whose value does not grow with the latency.\<close>

definition prefers_lower :: "(flt \<Rightarrow> flt) \<Rightarrow> bool" where
  "prefers_lower f \<longleftrightarrow> (\<forall>x y. 0 \<le> x \<longrightarrow> x \<le> y \<longrightarrow> f (Fin y) \<le> f (Fin x))"

lemma prefers_lower_slo:
  assumes "0 < s"
  shows "prefers_lower (simple_ttft (Fin s))" "prefers_lower (extended_ttft (Fin s))"
    "prefers_lower (steeper_ttft (Fin s))" "prefers_lower (optimization_ttft (Fin s))"
  using assms by (simp_all add: prefers_lower_def slo_shapes slo_shape_antitone)

lemma prefers_lower_inverse: "prefers_lower inverse_ttft"
  unfolding prefers_lower_def
proof (intro allI impI)
  fix x y :: real
  assume "0 \<le> x" "x \<le> y"
  then have "1000 / (y + 100) \<le> 1000 / (x + 100)"
    by (intro divide_left_mono) auto
  with \<open>0 \<le> x\<close> \<open>x \<le> y\<close> show "inverse_ttft (Fin y) \<le> inverse_ttft (Fin x)"
    by (simp add: inverse_ttft_def divide_right_mono)
qed

lemma prefers_lower_latency:
  "prefers_lower log_latency" "prefers_lower linear_latency" "prefers_lower squared_latency"
  by (auto simp: prefers_lower_def log_latency_def linear_latency_def squared_latency_def intro!: mult_mono)

lemma absolute_shape:
  "0 < s \<Longrightarrow> absolute_latency (Fin s) (Fin x) =
     Fin (if x / s \<le> 1 then 1 - x / s else - min (max (x / s - 1) 0) 5)"
  by (simp add: absolute_latency_def)

lemma absolute_shape_mono:
  fixes u v :: real
  shows "u \<le> v \<Longrightarrow> (if v \<le> 1 then 1 - v else - min (max (v - 1) 0) 5)
     \<le> (if u \<le> 1 then 1 - u else - min (max (u - 1) 0) 5)"
  by (auto simp: min_def max_def)

lemma prefers_lower_absolute:
  assumes "0 < s"
  shows "prefers_lower (absolute_latency (Fin s))"
  unfolding prefers_lower_def
proof (intro allI impI)
  fix x y :: real
  assume "0 \<le> x" "x \<le> y"
  then have "x / s \<le> y / s"
    using assms by (simp add: divide_right_mono)
  then have "(if y / s \<le> 1 then 1 - y / s else - min (max (y / s - 1) 0) 5)
      \<le> (if x / s \<le> 1 then 1 - x / s else - min (max (x / s - 1) 0) 5)"
    by (rule absolute_shape_mono)
  then show "absolute_latency (Fin s) (Fin y) \<le> absolute_latency (Fin s) (Fin x)"
    by (simp only: absolute_shape [OF assms] Fin_ops)
qed

lemma reciprocal_increasing: "1 \<le> x \<Longrightarrow> x < y \<Longrightarrow> reciprocal_latency (Fin x) < reciprocal_latency (Fin y)"
  by (simp add: reciprocal_latency_def max_def divide_strict_left_mono)

subsection \<open>Sums over a bucket\<close>

lemma masked_Cons [simp]:
  "masked (m # ms) (x # xs) = (if m then x # masked ms xs else masked ms xs)" "masked [] xs = []"
  by (simp_all add: masked_def)

lemma masked_bucket:
  "length idx = length xs \<Longrightarrow>
   masked (map (\<lambda>i. i = b) idx) (map2 g xs idx) = map (\<lambda>x. g x b) (masked (map (\<lambda>i. i = b) idx) xs)"
  by (induction idx xs rule: list_induct2) auto

lemma masked_map: "length ms = length xs \<Longrightarrow> masked ms (map f xs) = map f (masked ms xs)"
  by (induction ms xs rule: list_induct2) (auto simp: masked_def)

lemma count_true_masked: "length ms = length xs \<Longrightarrow> count_true ms = length (masked ms xs)"
  by (induction ms xs rule: list_induct2) (auto simp: masked_def)

lemma sum_minus_mean:
  fixes xs :: "real list"
  assumes "xs \<noteq> []"
  shows "sum_list (map (\<lambda>x. - (x - sum_list xs / real (length xs)) / 1000) xs) = 0"
proof -
  have s: "sum_list (map (\<lambda>x. - (x - c) / 1000) xs) = (real (length xs) * c - sum_list xs) / 1000" for c
    by (induction xs) (simp_all add: field_simps)
  show ?thesis
    unfolding s using assms by simp
qed

lemma advantage_centered:
  assumes "length idx = length xs"
  shows "fsum (masked (map (\<lambda>i. i = b) idx)
           (map2 (\<lambda>x i. (- (x - bucket_mean idx (map Fin xs) i)) / Fin 1000) (map Fin xs) idx)) = Fin 0"
proof -
  let ?ms = "map (\<lambda>i. i = b) idx"
  let ?B = "masked ?ms xs"
  have l: "length ?ms = length xs"
    using assms by simp
  have e: "masked ?ms (map2 (\<lambda>x i. (- (x - bucket_mean idx (map Fin xs) i)) / Fin 1000) (map Fin xs) idx)
      = map (\<lambda>x. (- (x - bucket_mean idx (map Fin xs) b)) / Fin 1000) (map Fin ?B)"
    unfolding masked_map [OF l, symmetric] by (rule masked_bucket) (simp add: assms)
  show ?thesis
  proof (cases "?B = []")
    case False
    then have "bucket_mean idx (map Fin xs) b = Fin (sum_list ?B / real (length ?B))"
      using count_true_masked [OF l] masked_map [OF l, of Fin] fmean_Fin [OF False] False by (simp add: bucket_mean_def Let_def)
    then have "map (\<lambda>x. (- (x - bucket_mean idx (map Fin xs) b)) / Fin 1000) (map Fin ?B)
        = map Fin (map (\<lambda>x. - (x - sum_list ?B / real (length ?B)) / 1000) ?B)"
      by simp
    then show ?thesis
      unfolding e by (simp only: fsum_Fin sum_minus_mean [OF False])
  qed (simp add: e fsum_def)
qed

subsection \<open>Dispatch on the name\<close>

text \<open>The columns and parameters every reward function reads.\<close>

definition frame_ok :: "frame \<Rightarrow> hyper \<Rightarrow> flt list \<Rightarrow> flt list \<Rightarrow> real \<Rightarrow> real \<Rightarrow> flt \<Rightarrow> bool" where
  "frame_ok df hp ttft tpot s1 s2 w \<longleftrightarrow>
     df ''ttft'' = Some ttft \<and> df ''avg_tpot'' = Some tpot \<and> length tpot = length ttft \<and>
     hp ''TTFT_SLO'' = Some (Fin s1) \<and> hp ''AVG_TPOT_SLO'' = Some (Fin s2) \<and>
     hp ''TTFT_REWARD_WEIGHT'' = Some w \<and> 0 < s1 \<and> 0 < s2"

lemmas dispatch_defs = compute_rewards_def dispatch_special_def SLO_REWARDS_def LATENCY_REWARDS_def

lemmas shape_defs = elementwise_def calculate_rewards_simple_def calculate_rewards_simple_extended_def
  calculate_rewards_piecewise_linear_steeper_gradient_def calculate_rewards_inverse_latency_def
  calculate_rewards_latency_optimization_def calculate_rewards_simple_latency_minimization_def
  calculate_rewards_negative_reciprocal_def calculate_rewards_negative_linear_def
  calculate_rewards_negative_squared_def calculate_rewards_absolute_latency_def

definition latency_preferring :: "string list" where
  "latency_preferring =
     [''linear_simple'', ''linear_simple_extended'', ''piecewise_linear_steeper_gradient'',
      ''inverse_latency'', ''latency_optimized'', ''simple_latency_minimization'', ''negative_linear'',
      ''negative_squared'', ''absolute_latency'', ''context_aware'']"

text \<open>The element function of each of these names.\<close>

definition ttft_shape :: "string \<Rightarrow> flt \<Rightarrow> flt \<Rightarrow> flt" where
  "ttft_shape name slo =
     (if name = ''linear_simple'' then simple_ttft slo
      else if name = ''linear_simple_extended'' then extended_ttft slo
      else if name = ''piecewise_linear_steeper_gradient'' then steeper_ttft slo
      else if name = ''inverse_latency'' then inverse_ttft
      else if name = ''simple_latency_minimization'' then log_latency
      else if name = ''negative_linear'' then linear_latency
      else if name = ''negative_squared'' then squared_latency
      else if name = ''absolute_latency'' then absolute_latency slo
      else optimization_ttft slo)"

lemma prefers_lower_if: "prefers_lower f \<Longrightarrow> prefers_lower g \<Longrightarrow> prefers_lower (if b then f else g)"
  by simp

lemma prefers_lower_shape: "0 < s \<Longrightarrow> prefers_lower (ttft_shape name (Fin s))"
  unfolding ttft_shape_def
  by (intro prefers_lower_if prefers_lower_slo prefers_lower_inverse prefers_lower_latency prefers_lower_absolute)

lemma latency_preferring_cases:
  assumes "name \<in> set latency_preferring"
  obtains "name = ''linear_simple''" | "name = ''linear_simple_extended''"
  | "name = ''piecewise_linear_steeper_gradient''" | "name = ''inverse_latency''"
  | "name = ''latency_optimized''" | "name = ''simple_latency_minimization''"
  | "name = ''negative_linear''" | "name = ''negative_squared''"
  | "name = ''absolute_latency''" | "name = ''context_aware''"
  using assms unfolding latency_preferring_def list.set by (elim insertE emptyE) (rule that, assumption)+

lemma dispatch_shape:
  assumes "frame_ok df hp ttft tpot s1 s2 w" and "name \<in> set latency_preferring"
    and "compute_rewards percentile quantile99 name df hp = (hp', Inr r)"
  shows "ttft_rewards r = map (ttft_shape name (Fin s1)) ttft"
  using assms(2)
  by (cases rule: latency_preferring_cases)
    (use assms(1,3) in \<open>simp add: dispatch_defs shape_defs ttft_shape_def frame_ok_def, fastforce?\<close>)+

subsection \<open>Shapes and bounds of the results\<close>

definition sized :: "nat \<Rightarrow> reward_result \<Rightarrow> bool" where
  "sized n r \<longleftrightarrow>
     length (ttft_rewards r) = n \<and> length (tpot_rewards r) = n \<and> length (combined_rewards r) = n"

lemma length_combined [simp]:
  "length (calculate_combined_rewards xs ys w) = min (length xs) (length ys)"
  by (simp add: calculate_combined_rewards_def Let_def)

lemma sized_elementwise: "length tpot = length ttft \<Longrightarrow> sized (length ttft) (elementwise f g ttft tpot w)"
  by (simp add: sized_def elementwise_def)

lemma length_set_masked [simp]: "length (set_masked ms ns xs) = length xs"
  by (induction ms ns xs rule: set_masked.induct) simp_all

lemma length_quantile_scores [simp]: "length (quantile_scores q ts xs) = length xs"
  by (simp add: quantile_scores_def score_bucket_def Let_def)

lemmas special_defs = calculate_rewards_quantile_based_def calculate_rewards_throughput_based_def
  calculate_rewards_quantile_advantage_def

lemma special_cases:
  assumes "name \<in> set SPECIAL_REWARDS" "name \<noteq> ''log_normalized''"
  obtains "name = ''quantile_based''" | "name = ''throughput_based''"
  | "name = ''absolute_latency''" | "name = ''quantile_advantage''" | "name = ''context_aware''"
  using assms(1) unfolding SPECIAL_REWARDS_def list.set
  by (elim insertE emptyE) ((rule that, assumption) | (rule notE [OF assms(2)], assumption))+

lemma sized_special:
  assumes "length tpot = n" "length ttft = n"
    and "\<And>xs. df ''input_tokens'' = Some xs \<Longrightarrow> length xs = n"
    and "\<And>xs ps. \<exists>q. percentile xs ps = Inr q"
    and "name \<in> set SPECIAL_REWARDS" "name \<noteq> ''log_normalized''"
  shows "\<exists>r. dispatch_special percentile quantile99 name df ttft tpot s1 s2 w hp = (hp, Inr r) \<and> sized n r"
proof -
  obtain q where q: "\<And>xs ps. percentile xs ps = Inr (q xs ps)"
    using assms(4) by metis
  show ?thesis
    using assms(5,6)
    by (cases rule: special_cases; cases "df ''input_tokens''"; cases "df ''output_tokens''";
        simp add: dispatch_special_def q sized_def shape_defs special_defs Let_def assms(1,2) assms(3))
qed

lemma convex_range:
  fixes t p v :: real
  assumes "lo \<le> t" "t \<le> hi" "lo \<le> p" "p \<le> hi" "0 \<le> v" "v \<le> 1"
  shows "lo \<le> v * t + (1 - v) * p \<and> v * t + (1 - v) * p \<le> hi"
proof -
  have "v * lo \<le> v * t" "v * t \<le> v * hi" "(1 - v) * lo \<le> (1 - v) * p" "(1 - v) * p \<le> (1 - v) * hi"
    using assms by (simp_all add: mult_left_mono)
  then show ?thesis
    by (simp add: algebra_simps)
qed

text \<open>A reward function whose values on finite latencies lie in an interval.\<close>

definition ranged :: "real \<Rightarrow> real \<Rightarrow> (flt \<Rightarrow> flt) \<Rightarrow> bool" where
  "ranged lo hi f \<longleftrightarrow> (\<forall>x. \<exists>y. f (Fin x) = Fin y \<and> lo \<le> y \<and> y \<le> hi)"

lemma ranged_combined:
  assumes "ranged lo hi f" "ranged lo hi g" "list_all is_fin ttft" "list_all is_fin tpot"
    and "0 \<le> v" "v \<le> 1" and "c \<in> set (combined_rewards (elementwise f g ttft tpot (Fin v)))"
  shows "Fin lo \<le> c \<and> c \<le> Fin hi"
proof -
  obtain t p where tp: "t \<in> set ttft" "p \<in> set tpot"
    "c = Fin v * f t + (if Fin 1 - Fin v > Fin 0 then Fin 1 - Fin v else Fin 0) * g p"
    using assms(7) by (auto simp: elementwise_def calculate_combined_rewards_def Let_def dest!: set_zip_leftD set_zip_rightD
        elim!: in_set_zipE)
  obtain x y where "t = Fin x" "p = Fin y"
    using tp(1,2) assms(3,4) unfolding list_all_iff is_fin_def by blast
  moreover obtain a b where "f (Fin x) = Fin a" "lo \<le> a" "a \<le> hi" "g (Fin y) = Fin b" "lo \<le> b" "b \<le> hi"
    using assms(1,2) unfolding ranged_def by blast
  ultimately show ?thesis
    using tp(3) convex_range [of lo a hi b v] assms(5,6) by (simp split: if_splits)
qed

lemma sized_slo:
  assumes "map_of SLO_REWARDS name = Some f" "length tpot = length ttft"
  shows "sized (length ttft) (f ttft tpot s1 s2 w)"
proof -
  have "list_all (\<lambda>(_, f). sized (length ttft) (f ttft tpot s1 s2 w)) SLO_REWARDS"
    using assms(2) by (simp add: SLO_REWARDS_def sized_def shape_defs)
  with map_of_SomeD [OF assms(1)] show ?thesis
    by (auto simp: list_all_iff)
qed

lemma sized_latency:
  assumes "map_of LATENCY_REWARDS name = Some f" "length tpot = length ttft"
  shows "sized (length ttft) (f ttft tpot w)"
proof -
  have "list_all (\<lambda>(_, f). sized (length ttft) (f ttft tpot w)) LATENCY_REWARDS"
    using assms(2) by (simp add: LATENCY_REWARDS_def sized_def shape_defs)
  with map_of_SomeD [OF assms(1)] show ?thesis
    by (auto simp: list_all_iff)
qed

lemma ranged_shape:
  assumes "\<And>x. f (Fin x) = Fin (slo_shape t0 a b c d k s x)"
    and "0 < s" "0 \<le> b" "0 \<le> d" "0 \<le> k" "lo \<le> t0" "lo \<le> a - b" "lo \<le> - c - d * k"
    "t0 \<le> hi" "a \<le> hi" "- c \<le> hi"
  shows "ranged lo hi f"
  using slo_shape_range [OF assms(2-)] by (simp add: ranged_def assms(1))

lemma ranged_slo:
  assumes "0 < s"
  shows "ranged (- 0.5) 0.5 (simple_ttft (Fin s))" "ranged (- 0.5) 0.5 (simple_tpot (Fin s))"
    "ranged (- 1.7) 0.5 (extended_ttft (Fin s))" "ranged (- 1.7) 0.5 (extended_tpot (Fin s))"
    "ranged (- 1.7) 2.1 (steeper_ttft (Fin s))" "ranged (- 1.7) 2.1 (steeper_tpot (Fin s))"
    "ranged (- 2) 2 (optimization_ttft (Fin s))" "ranged (- 2) 2 (optimization_tpot (Fin s))"
  by (rule ranged_shape, rule slo_shapes [OF assms], (simp add: assms; fail)+)+

text \<open>The intervals of the SLO rewards and their element functions.\<close>

definition slo_intervals :: "(string \<times> real \<times> real) list" where
  "slo_intervals =
     [(''linear_simple'', - 0.5, 0.5), (''linear_simple_extended'', - 1.7, 0.5),
      (''piecewise_linear_steeper_gradient'', - 1.7, 2.1), (''latency_optimized'', - 2, 2)]"

lemma slo_interval_cases:
  assumes "map_of slo_intervals name = Some (lo, hi)"
  obtains "name = ''linear_simple''" "lo = - 0.5" "hi = 0.5"
  | "name = ''linear_simple_extended''" "lo = - 1.7" "hi = 0.5"
  | "name = ''piecewise_linear_steeper_gradient''" "lo = - 1.7" "hi = 2.1"
  | "name = ''latency_optimized''" "lo = - 2" "hi = 2"
  using map_of_SomeD [OF assms] unfolding slo_intervals_def list.set prod.inject
  by (elim insertE emptyE; elim Pair_inject; use that in simp)

lemma dispatch_slo:
  assumes "frame_ok df hp ttft tpot s1 s2 w" "map_of slo_intervals name = Some (lo, hi)"
  obtains f g where "compute_rewards percentile quantile99 name df hp = (hp, Inr (elementwise f g ttft tpot w))"
    "ranged lo hi f" "ranged lo hi g"
  using assms(2)
proof (cases rule: slo_interval_cases)
  case 1
  show ?thesis
    by (rule that [of "simple_ttft (Fin s1)" "simple_tpot (Fin s2)"])
      (use assms(1) ranged_slo in \<open>simp_all add: 1 frame_ok_def dispatch_defs calculate_rewards_simple_def\<close>)
next
  case 2
  show ?thesis
    by (rule that [of "extended_ttft (Fin s1)" "extended_tpot (Fin s2)"])
      (use assms(1) ranged_slo in \<open>simp_all add: 2 frame_ok_def dispatch_defs calculate_rewards_simple_extended_def\<close>)
next
  case 3
  show ?thesis
    by (rule that [of "steeper_ttft (Fin s1)" "steeper_tpot (Fin s2)"])
      (use assms(1) ranged_slo in \<open>simp_all add: 3 frame_ok_def dispatch_defs
        calculate_rewards_piecewise_linear_steeper_gradient_def\<close>)
next
  case 4
  show ?thesis
    by (rule that [of "optimization_ttft (Fin s1)" "optimization_tpot (Fin s2)"])
      (use assms(1) ranged_slo in \<open>simp_all add: 4 frame_ok_def dispatch_defs
        calculate_rewards_latency_optimization_def\<close>)
qed

subsection \<open>Properties\<close>

text \<open>
  C23. With one of the latency-preferring reward functions, \<open>compute_rewards\<close> never gives a request
  with a lower time to first token a lower TTFT reward than a slower one.
\<close>

theorem lower_latency_rewarded_more:
  assumes "frame_ok df hp ttft tpot s1 s2 w" and "name \<in> set latency_preferring"
    and "compute_rewards percentile quantile99 name df hp = (hp', Inr r)"
    and "i < length ttft" "j < length ttft" "ttft ! i = Fin x" "ttft ! j = Fin y" "0 \<le> x" "x \<le> y"
  shows "ttft_rewards r ! j \<le> ttft_rewards r ! i"
proof -
  have "prefers_lower (ttft_shape name (Fin s1))"
    using assms(1) by (intro prefers_lower_shape) (simp add: frame_ok_def)
  then show ?thesis
    using dispatch_shape [OF assms(1-3)] assms(4-) by (simp add: prefers_lower_def)
qed

definition sample_frame :: frame where
  "sample_frame = [''ttft'' \<mapsto> [Fin 100, Fin 400], ''avg_tpot'' \<mapsto> [Fin 20, Fin 30], ''input_tokens'' \<mapsto> [Fin 10, Fin 10]]"

definition sample_hyper :: hyper where
  "sample_hyper = [''TTFT_SLO'' \<mapsto> Fin 200, ''AVG_TPOT_SLO'' \<mapsto> Fin 25, ''TTFT_REWARD_WEIGHT'' \<mapsto> Fin 0.5]"

lemma sample_frame_ok:
  "frame_ok sample_frame sample_hyper [Fin 100, Fin 400] [Fin 20, Fin 30] 200 25 (Fin 0.5)"
  by (simp add: frame_ok_def sample_frame_def sample_hyper_def)

theorem lower_latency_rewarded_more_witness:
  "\<exists>r. compute_rewards (\<lambda>_ _. Inl IndexError) (\<lambda>_. NaN) ''negative_linear'' sample_frame sample_hyper
          = (sample_hyper, Inr r) \<and> ttft_rewards r ! 1 \<le> ttft_rewards r ! 0"
proof -
  have c: "compute_rewards (\<lambda>_ _. Inl IndexError) (\<lambda>_. NaN) ''negative_linear'' sample_frame sample_hyper
      = (sample_hyper, Inr (calculate_rewards_negative_linear [Fin 100, Fin 400] [Fin 20, Fin 30] (Fin 0.5)))"
    by (simp add: dispatch_defs sample_frame_def sample_hyper_def)
  show ?thesis
    using lower_latency_rewarded_more [OF sample_frame_ok _ c, of 0 1 100 400] c
    by (simp add: latency_preferring_def)
qed

text \<open>
  \<open>negative_reciprocal\<close> prefers the slower request: from one millisecond on, a strictly higher
  latency gets a strictly higher TTFT reward.
\<close>

lemma negative_reciprocal_prefers_slow:
  assumes "frame_ok df hp ttft tpot s1 s2 w"
    and "compute_rewards percentile quantile99 ''negative_reciprocal'' df hp = (hp', Inr r)"
    and "i < length ttft" "j < length ttft" "ttft ! i = Fin x" "ttft ! j = Fin y" "1 \<le> x" "x < y"
  shows "ttft_rewards r ! i < ttft_rewards r ! j"
proof -
  have "ttft_rewards r = map reciprocal_latency ttft"
    using assms(1,2) by (auto simp: dispatch_defs shape_defs frame_ok_def)
  then show ?thesis
    using assms(3-) reciprocal_increasing by simp
qed

lemma negative_reciprocal_prefers_slow_witness:
  "\<exists>r. compute_rewards (\<lambda>_ _. Inl IndexError) (\<lambda>_. NaN) ''negative_reciprocal'' sample_frame sample_hyper
          = (sample_hyper, Inr r) \<and> ttft_rewards r ! 0 < ttft_rewards r ! 1"
proof -
  have c: "compute_rewards (\<lambda>_ _. Inl IndexError) (\<lambda>_. NaN) ''negative_reciprocal'' sample_frame sample_hyper
      = (sample_hyper, Inr (calculate_rewards_negative_reciprocal [Fin 100, Fin 400] [Fin 20, Fin 30] (Fin 0.5)))"
    by (simp add: dispatch_defs sample_frame_def sample_hyper_def)
  show ?thesis
    using negative_reciprocal_prefers_slow [OF sample_frame_ok c, of 0 1 100 400] c by simp
qed

text \<open>
  C39. Bounds of the combined reward: for finite latencies and a TTFT weight in \<open>[0, 1]\<close> it stays in
  the interval of the chosen SLO reward function, whatever the latencies.
\<close>

theorem combined_reward_bounds:
  assumes "frame_ok df hp ttft tpot s1 s2 (Fin v)" and "0 \<le> v" "v \<le> 1"
    and "list_all is_fin ttft" "list_all is_fin tpot" and "map_of slo_intervals name = Some (lo, hi)"
  shows "\<exists>r. compute_rewards percentile quantile99 name df hp = (hp, Inr r) \<and>
           (\<forall>c \<in> set (combined_rewards r). Fin lo \<le> c \<and> c \<le> Fin hi)"
proof -
  obtain f g where "compute_rewards percentile quantile99 name df hp = (hp, Inr (elementwise f g ttft tpot (Fin v)))"
    and fg: "ranged lo hi f" "ranged lo hi g"
    using dispatch_slo [OF assms(1,6)] .
  then show ?thesis
    using ranged_combined [OF fg assms(4,5) assms(2,3)] by simp
qed

theorem combined_reward_bounds_witness:
  "\<exists>r. compute_rewards (\<lambda>_ _. Inl IndexError) (\<lambda>_. NaN) ''latency_optimized'' sample_frame sample_hyper
          = (sample_hyper, Inr r) \<and> (\<forall>c \<in> set (combined_rewards r). Fin (- 2) \<le> c \<and> c \<le> Fin 2)"
  by (rule combined_reward_bounds [OF sample_frame_ok]) (simp_all add: slo_intervals_def)



text \<open>
  The advantage rewards are centred: within every input-length bucket the combined rewards of
  \<open>quantile_advantage\<close> add up to zero, so a bucket of long prompts is not rewarded below one of
  short prompts.
\<close>

lemma quantile_advantage_centered:
  assumes "length tokens = length xs"
    and "percentile tokens (linspace_0_100 n) = Inr edges"
    and "n = nat (max 1 (min num_buckets (int (length tokens))))"
  shows "\<exists>r. calculate_rewards_quantile_advantage percentile (map Fin xs) tokens num_buckets = Inr r \<and>
    fsum (masked (map (\<lambda>x. bucket_index (butlast (tl edges)) n x = b) tokens) (combined_rewards r)) = Fin 0"
proof -
  let ?idx = "map (bucket_index (butlast (tl edges)) n) tokens"
  have "map2 (\<lambda>x b. (- (x - b)) / Fin 1000) (map Fin xs) (map (bucket_mean ?idx (map Fin xs)) ?idx)
      = map2 (\<lambda>x i. (- (x - bucket_mean ?idx (map Fin xs) i)) / Fin 1000) (map Fin xs) ?idx"
    by (simp add: zip_map2 split_beta)
  then show ?thesis
    using advantage_centered [of ?idx xs b] assms
    by (simp add: calculate_rewards_quantile_advantage_def Let_def comp_def)
qed

lemma quantile_advantage_centered_witness:
  "\<exists>r. calculate_rewards_quantile_advantage (\<lambda>_ _. Inr [Fin 10, Fin 15, Fin 20])
          (map Fin [100, 300]) [Fin 10, Fin 20] 5 = Inr r \<and>
     fsum (masked (map (\<lambda>x. bucket_index (butlast (tl [Fin 10, Fin 15, Fin 20])) 2 x = 1) [Fin 10, Fin 20])
       (combined_rewards r)) = Fin 0"
  by (rule quantile_advantage_centered) simp_all

end
