(* ===== verification/Prefix_Groups.thy ===== *)
theory Prefix_Groups
  imports Floats "HOL-Library.Word"
begin

unbundle bit_operations_syntax

text \<open>
  Prefix groups of the routing agent (\<open>routing_agent_service.py\<close>): the deterministic choice of
  candidate pods for a prefix hash, and \<open>PrefixGroupManager\<close>, which keeps a number of candidates K
  per dominant group and moves it by one according to the load of the candidates. The lock of the
  manager makes its methods atomic, so they are state transformers.
\<close>

subsection \<open>Python hashes of integer pairs\<close>

text \<open>
  \<open>hash((i, p))\<close> of a pair of integers as CPython computes it: integers are reduced modulo
  \<open>2^61 - 1\<close> with the sign kept, the value \<open>-1\<close> is reserved, and the tuple is an xxHash round
  per element over 64-bit words.
\<close>

definition int_hash :: "int \<Rightarrow> int" where
  "int_hash x = (let h = sgn x * (\<bar>x\<bar> mod (2 ^ 61 - 1)) in if h = - 1 then - 2 else h)"

definition xx_round :: "64 word \<Rightarrow> 64 word \<Rightarrow> 64 word" where
  "xx_round acc lane = word_rotl 31 (acc + lane * 14029467366897019727) * 11400714785074694791"

definition pair_hash :: "int \<Rightarrow> int \<Rightarrow> int" where
  "pair_hash x y =
     (let a = xx_round (xx_round 2870177450012600261 (word_of_int (int_hash x))) (word_of_int (int_hash y));
          r = a + (2 XOR (2870177450012600261 XOR 3527539))
      in if r = - 1 then 1546275796 else sint r)"

subsection \<open>Candidate pods\<close>

text \<open>\<open>while h in selected: h = (h + 1) % n\<close>, which may run forever when every slot is taken.\<close>

partial_function (option) probe :: "nat \<Rightarrow> nat list \<Rightarrow> nat \<Rightarrow> nat option" where
  "probe n selected h = (if h \<in> set selected then probe n selected ((h + 1) mod n) else Some h)"

declare probe.simps [code]

fun candidate_loop :: "int \<Rightarrow> string list \<Rightarrow> nat list \<Rightarrow> nat list \<Rightarrow> string list \<Rightarrow> string list option" where
  "candidate_loop prefix_hash pods [] selected candidates = Some candidates"
| "candidate_loop prefix_hash pods (i # is) selected candidates =
     (case probe (length pods) selected (nat (pair_hash (int i) prefix_hash mod int (length pods))) of
        None \<Rightarrow> None
      | Some h \<Rightarrow> candidate_loop prefix_hash pods is (h # selected) (candidates @ [pods ! h]))"

definition select_candidate_pods :: "int \<Rightarrow> string list \<Rightarrow> int \<Rightarrow> string list option" where
  "select_candidate_pods prefix_hash pods k =
     candidate_loop prefix_hash pods [0..<nat (min k (int (length pods)))] [] []"

subsection \<open>The group manager\<close>

record prefix_manager =
  default_k :: int
  adjust_interval :: flt
  group_k :: "int \<rightharpoonup> int"
  RING_SIZE :: nat
  ring_buffer :: "int list"
  pod_waiting :: "string \<rightharpoonup> flt"
  pod_gpu_kv :: "string \<rightharpoonup> flt"
  all_pod_ids :: "string list"
  WAITING_HIGH :: flt
  WAITING_LOW :: flt
  DOMINANT_PCT :: real
  MIN_K :: int
  COOLDOWN_PERIODS :: int
  group_cooldown :: "int \<rightharpoonup> int"
  num_adjustments :: nat

text \<open>The thresholds are the defaults of the environment variables.\<close>

definition PrefixGroupManager :: "int \<Rightarrow> flt \<Rightarrow> prefix_manager" where
  "PrefixGroupManager k interval =
     \<lparr>default_k = k, adjust_interval = interval, group_k = Map.empty, RING_SIZE = 200, ring_buffer = [],
      pod_waiting = Map.empty, pod_gpu_kv = Map.empty, all_pod_ids = [],
      WAITING_HIGH = Fin 10, WAITING_LOW = Fin 3, DOMINANT_PCT = 10, MIN_K = 2, COOLDOWN_PERIODS = 3,
      group_cooldown = Map.empty, num_adjustments = 0\<rparr>"

text \<open>The two feature dictionaries are \<open>None\<close> when their extraction failed.\<close>

definition update_pod_states ::
  "(string \<rightharpoonup> flt) option \<Rightarrow> (string \<rightharpoonup> flt) option \<Rightarrow> string list \<Rightarrow> prefix_manager \<Rightarrow> prefix_manager" where
  "update_pod_states gpu_kv waiting pods pm =
     pm\<lparr>all_pod_ids := pods,
        pod_gpu_kv := (case gpu_kv of None \<Rightarrow> pod_gpu_kv pm | Some d \<Rightarrow> d),
        pod_waiting := (case waiting of None \<Rightarrow> pod_waiting pm | Some d \<Rightarrow> d)\<rparr>"

definition record_filtered_request :: "int \<Rightarrow> prefix_manager \<Rightarrow> prefix_manager" where
  "record_filtered_request prefix_hash pm =
     (if prefix_hash = 0 then pm
      else pm\<lparr>ring_buffer := last_n (RING_SIZE pm) (ring_buffer pm @ [prefix_hash])\<rparr>)"

definition is_dominant :: "int \<Rightarrow> prefix_manager \<Rightarrow> bool" where
  "is_dominant prefix_hash pm \<longleftrightarrow>
     10 \<le> length (ring_buffer pm) \<and>
     DOMINANT_PCT pm < real (count_list (ring_buffer pm) prefix_hash) * 100 / real (length (ring_buffer pm))"

definition get_k :: "int \<Rightarrow> prefix_manager \<Rightarrow> int" where
  "get_k prefix_hash pm = (case group_k pm prefix_hash of None \<Rightarrow> default_k pm | Some k \<Rightarrow> k)"

definition dominant_groups :: "prefix_manager \<Rightarrow> int list" where
  "dominant_groups pm =
     filter (\<lambda>h. real (count_list (ring_buffer pm) h) > real (length (ring_buffer pm)) * DOMINANT_PCT pm / 100)
       (rev (remdups (rev (ring_buffer pm))))"

definition cleanup_groups :: "prefix_manager \<Rightarrow> prefix_manager" where
  "cleanup_groups pm =
     pm\<lparr>group_k := group_k pm |` set (dominant_groups pm),
        group_cooldown := group_cooldown pm |` (- (dom (group_k pm) - set (dominant_groups pm)))\<rparr>"

definition dict_get :: "(string \<rightharpoonup> flt) \<Rightarrow> string \<Rightarrow> flt" where
  "dict_get d p = (case d p of None \<Rightarrow> Fin 0 | Some x \<Rightarrow> x)"

text \<open>The new K of a group whose candidates wait \<open>avg_waiting\<close> requests on average.\<close>

definition new_k :: "int \<Rightarrow> int \<Rightarrow> flt \<Rightarrow> prefix_manager \<Rightarrow> int option" where
  "new_k prefix_hash current_k avg_waiting pm =
     (if avg_waiting > WAITING_HIGH pm \<and> current_k < int (length (all_pod_ids pm)) then
        (case select_candidate_pods prefix_hash (all_pod_ids pm) (current_k + 1) of
           None \<Rightarrow> None
         | Some next_candidates \<Rightarrow>
             let new_pod = last next_candidates in
             Some (if dict_get (pod_gpu_kv pm) new_pod < Fin 0.85 \<and> dict_get (pod_waiting pm) new_pod < WAITING_HIGH pm
                   then current_k + 1 else current_k))
      else if avg_waiting < WAITING_LOW pm \<and> current_k > MIN_K pm then Some (current_k - 1)
      else Some current_k)"

definition adjust_group :: "int \<Rightarrow> prefix_manager \<Rightarrow> prefix_manager option" where
  "adjust_group prefix_hash pm =
     (let current_k = get_k prefix_hash pm;
          cd = (case group_cooldown pm prefix_hash of None \<Rightarrow> 0 | Some c \<Rightarrow> c)
      in if cd > 0 then Some (pm\<lparr>group_cooldown := (group_cooldown pm)(prefix_hash \<mapsto> cd - 1)\<rparr>)
         else if all_pod_ids pm = [] then Some pm
         else case select_candidate_pods prefix_hash (all_pod_ids pm) current_k of
                None \<Rightarrow> None
              | Some [] \<Rightarrow> Some pm
              | Some candidates \<Rightarrow>
                  (case new_k prefix_hash current_k (fmean (map (dict_get (pod_waiting pm)) candidates)) pm of
                     None \<Rightarrow> None
                   | Some k \<Rightarrow>
                       Some (if k \<noteq> current_k
                             then pm\<lparr>group_k := (group_k pm)(prefix_hash \<mapsto> k),
                                     group_cooldown := (group_cooldown pm)(prefix_hash \<mapsto> COOLDOWN_PERIODS pm)\<rparr>
                             else pm)))"

fun adjust_groups :: "int list \<Rightarrow> prefix_manager \<Rightarrow> prefix_manager option" where
  "adjust_groups [] pm = Some pm"
| "adjust_groups (h # hs) pm = (case adjust_group h pm of None \<Rightarrow> None | Some pm' \<Rightarrow> adjust_groups hs pm')"

definition adjust_all_groups :: "prefix_manager \<Rightarrow> prefix_manager option" where
  "adjust_all_groups pm =
     (if length (ring_buffer pm) < 10 then Some (pm\<lparr>num_adjustments := num_adjustments pm + 1\<rparr>)
      else map_option (\<lambda>pm'. pm'\<lparr>num_adjustments := num_adjustments pm' + 1\<rparr>)
             (adjust_groups (dominant_groups pm) (cleanup_groups pm)))"

subsection \<open>Selection of candidates\<close>

lemma probe_steps:
  assumes "f \<notin> set sel" "0 < n" "h < n" "(h + d) mod n = f"
  shows "\<exists>h'. probe n sel h = Some h' \<and> h' < n \<and> h' \<notin> set sel"
  using assms(3,4)
proof (induction d arbitrary: h)
  case 0
  then show ?case
    using assms(1) by (simp add: probe.simps)
next
  case (Suc d)
  show ?case
  proof (cases "h \<in> set sel")
    case True
    then show ?thesis
      using Suc.IH [of "(h + 1) mod n"] Suc.prems assms(2)
      by (simp add: probe.simps [of n sel h] mod_add_left_eq)
  qed (use Suc.prems in \<open>simp add: probe.simps [of n sel h]\<close>)
qed

lemma probe_returns:
  assumes "length sel < n" "h < n"
  obtains h' where "probe n sel h = Some h'" "h' < n" "h' \<notin> set sel"
proof -
  have "card (set sel) < card {..<n}"
    using assms(1) card_length [of sel] by simp
  then obtain f where f: "f < n" "f \<notin> set sel"
    by (metis card_mono finite_set lessThan_iff linorder_not_less subsetI)
  have "(h + (n - h + f)) mod n = f"
    using assms(2) f(1) by simp
  with f assms show ?thesis
    using probe_steps [of f sel n h "n - h + f"] that by auto
qed

text \<open>The slots behind the candidates: a fresh one per round.\<close>

lemma candidate_loop_spec:
  assumes "distinct sel" "\<forall>x \<in> set sel. x < length pods" "length sel + length is \<le> length pods"
  shows "\<exists>slots. candidate_loop p pods is sel cs = Some (cs @ map ((!) pods) slots) \<and>
           length slots = length is \<and> distinct (slots @ sel) \<and> (\<forall>x \<in> set slots. x < length pods)"
  using assms
proof (induction "is" arbitrary: sel cs)
  case (Cons i "is")
  let ?h = "nat (pair_hash (int i) p mod int (length pods))"
  have n: "0 < length pods" "length sel < length pods"
    using Cons.prems by auto
  then have "?h < length pods"
    by (simp add: nat_less_iff)
  then obtain h where h: "probe (length pods) sel ?h = Some h" "h < length pods" "h \<notin> set sel"
    using probe_returns n(2) by metis
  obtain slots where slots: "candidate_loop p pods is (h # sel) (cs @ [pods ! h])
      = Some ((cs @ [pods ! h]) @ map ((!) pods) slots)" "length slots = length is"
      "distinct (slots @ h # sel)" "\<forall>x \<in> set slots. x < length pods"
    using Cons.IH [of "h # sel" "cs @ [pods ! h]"] Cons.prems h by auto
  then show ?case
    using h by (intro exI [of _ "h # slots"]) auto
qed simp

lemma select_candidate_pods_spec:
  obtains slots where "select_candidate_pods p pods k = Some (map ((!) pods) slots)"
    "length slots = nat (min k (int (length pods)))" "distinct slots" "\<forall>x \<in> set slots. x < length pods"
proof -
  have "nat (min k (int (length pods))) \<le> length pods"
    by (simp add: nat_le_iff)
  then show ?thesis
    using candidate_loop_spec [of "[]" pods "[0..<nat (min k (int (length pods)))]" p "[]"] that
    by (auto simp: select_candidate_pods_def)
qed

lemma candidate_loop_append:
  assumes "distinct sel" "\<forall>x \<in> set sel. x < length pods" "length sel + length is + length js \<le> length pods"
  shows "\<exists>cs' cs''. candidate_loop p pods is sel cs = Some cs' \<and> candidate_loop p pods (is @ js) sel cs = Some (cs' @ cs'')"
  using assms
proof (induction "is" arbitrary: sel cs)
  case Nil
  then show ?case
    using candidate_loop_spec [of sel pods js p cs] by auto
next
  case (Cons i "is")
  let ?h = "nat (pair_hash (int i) p mod int (length pods))"
  have n: "0 < length pods" "length sel < length pods"
    using Cons.prems by auto
  then have "?h < length pods"
    by (simp add: nat_less_iff)
  then obtain h where h: "probe (length pods) sel ?h = Some h" "h < length pods" "h \<notin> set sel"
    using probe_returns n(2) by metis
  then show ?case
    using Cons.IH [of "h # sel" "cs @ [pods ! h]"] Cons.prems by simp
qed

lemma select_candidate_pods_mono:
  assumes "0 \<le> k" "k \<le> k'"
  shows "\<exists>cs cs'. select_candidate_pods p pods k = Some cs \<and> select_candidate_pods p pods k' = Some (cs @ cs')"
proof -
  let ?m = "nat (min k (int (length pods)))" and ?m' = "nat (min k' (int (length pods)))"
  have le: "?m \<le> ?m'" "?m' \<le> length pods"
    using assms by (simp_all add: nat_le_iff nat_mono min.mono)
  have "[0..<?m'] = [0..<?m] @ [?m..<?m']"
    using upt_add_eq_append [of 0 ?m "?m' - ?m"] le(1) by simp
  then show ?thesis
    using candidate_loop_append [of "[]" pods "[0..<?m]" "[?m..<?m']" p "[]"] le
    by (simp add: select_candidate_pods_def)
qed

subsection \<open>Adjusting the groups\<close>

text \<open>One adjustment touches one group: its K moves by at most one and stays between the bounds.\<close>

definition k_step :: "prefix_manager \<Rightarrow> int \<Rightarrow> int \<Rightarrow> bool" where
  "k_step pm k k' \<longleftrightarrow>
     (k' = k + 1 \<and> k' \<le> int (length (all_pod_ids pm))) \<or> (k' = k - 1 \<and> MIN_K pm \<le> k')"

definition group_step :: "prefix_manager \<Rightarrow> int \<Rightarrow> prefix_manager \<Rightarrow> bool" where
  "group_step pm h pm' \<longleftrightarrow>
     pm' = pm
     \<or> (\<exists>c. group_cooldown pm h = Some c \<and> 0 < c \<and>
           pm' = pm\<lparr>group_cooldown := (group_cooldown pm)(h \<mapsto> c - 1)\<rparr>)
     \<or> (\<exists>k. k_step pm (get_k h pm) k \<and>
           pm' = pm\<lparr>group_k := (group_k pm)(h \<mapsto> k),
                    group_cooldown := (group_cooldown pm)(h \<mapsto> COOLDOWN_PERIODS pm)\<rparr>)"

lemma new_k_spec: "\<exists>k'. new_k h k avg pm = Some k' \<and> (k' \<noteq> k \<longrightarrow> k_step pm k k')"
proof -
  obtain slots where "select_candidate_pods h (all_pod_ids pm) (k + 1) = Some (map ((!) (all_pod_ids pm)) slots)"
    by (rule select_candidate_pods_spec)
  then show ?thesis
    by (simp add: new_k_def k_step_def Let_def)
qed

lemma adjust_group_spec: "\<exists>pm'. adjust_group h pm = Some pm' \<and> group_step pm h pm'"
proof -
  define cd where "cd = (case group_cooldown pm h of None \<Rightarrow> 0 | Some c \<Rightarrow> c)"
  obtain cs where cs: "select_candidate_pods h (all_pod_ids pm) (get_k h pm) = Some cs"
    by (rule select_candidate_pods_spec)
  obtain k where k: "new_k h (get_k h pm) (fmean (map (dict_get (pod_waiting pm)) cs)) pm = Some k"
      "k \<noteq> get_k h pm \<longrightarrow> k_step pm (get_k h pm) k"
    using new_k_spec by metis
  consider "0 < cd" | "cd \<le> 0" "all_pod_ids pm = [] \<or> cs = []" | "cd \<le> 0" "all_pod_ids pm \<noteq> []" "cs \<noteq> []"
    by linarith
  then show ?thesis
  proof cases
    case 1
    then obtain c where "group_cooldown pm h = Some c" "0 < c"
      by (auto simp: cd_def split: option.splits)
    then show ?thesis
      by (auto simp: adjust_group_def group_step_def)
  next
    case 2
    then have "adjust_group h pm = Some pm"
      using cs by (auto simp: adjust_group_def Let_def cd_def [symmetric])
    then show ?thesis
      by (simp add: group_step_def)
  next
    case 3
    then obtain c cs' where "cs = c # cs'"
      by (cases cs) auto
    then show ?thesis
      using 3 cs k by (auto simp: adjust_group_def Let_def cd_def [symmetric] group_step_def)
  qed
qed

lemma group_step_frame:
  assumes "group_step pm h pm'"
  shows "default_k pm' = default_k pm" "all_pod_ids pm' = all_pod_ids pm" "ring_buffer pm' = ring_buffer pm"
    "RING_SIZE pm' = RING_SIZE pm" "MIN_K pm' = MIN_K pm" "COOLDOWN_PERIODS pm' = COOLDOWN_PERIODS pm"
    "DOMINANT_PCT pm' = DOMINANT_PCT pm"
    "x \<noteq> h \<Longrightarrow> get_k x pm' = get_k x pm" "\<bar>get_k h pm' - get_k h pm\<bar> \<le> 1"
  using assms by (auto simp: group_step_def get_k_def k_step_def split: option.split)

text \<open>Any property of the state that group steps keep is kept by a whole round, which returns.\<close>

lemma adjust_groups_induct:
  assumes "P pm" "\<And>pm h pm'. h \<in> set hs \<Longrightarrow> P pm \<Longrightarrow> group_step pm h pm' \<Longrightarrow> P pm'"
  shows "\<exists>pm'. adjust_groups hs pm = Some pm' \<and> P pm'"
  using assms
proof (induction hs arbitrary: pm)
  case (Cons h hs)
  obtain pm1 where "adjust_group h pm = Some pm1" "group_step pm h pm1"
    using adjust_group_spec by blast
  moreover have "P pm1"
    using calculation Cons.prems by auto
  ultimately show ?case
    using Cons.IH [of pm1] Cons.prems(2) by auto
qed simp

lemma adjust_groups_k:
  assumes "adjust_groups hs pm = Some pm'" "distinct hs"
  shows "default_k pm' = default_k pm \<and> \<bar>get_k h pm' - get_k h pm\<bar> \<le> 1 \<and> (h \<notin> set hs \<longrightarrow> get_k h pm' = get_k h pm)"
  using assms
proof (induction hs arbitrary: pm)
  case (Cons g hs)
  obtain pm1 where pm1: "adjust_group g pm = Some pm1" "group_step pm g pm1"
    using adjust_group_spec by blast
  then have "default_k pm' = default_k pm1 \<and> \<bar>get_k h pm' - get_k h pm1\<bar> \<le> 1
      \<and> (h \<notin> set hs \<longrightarrow> get_k h pm' = get_k h pm1)"
    using Cons by simp
  then show ?case
    using group_step_frame(1,8,9) [OF pm1(2)] Cons.prems(2) by (cases "h = g") auto
qed simp

subsection \<open>Reachable managers\<close>

inductive pm_step :: "nat \<Rightarrow> prefix_manager \<Rightarrow> prefix_manager \<Rightarrow> bool" for n where
  pm_pods: "length pods \<le> n \<Longrightarrow> pm_step n pm (update_pod_states g w pods pm)"
| pm_record: "pm_step n pm (record_filtered_request h pm)"
| pm_adjust: "adjust_all_groups pm = Some pm' \<Longrightarrow> pm_step n pm pm'"

definition pm_inv :: "nat \<Rightarrow> int \<Rightarrow> prefix_manager \<Rightarrow> bool" where
  "pm_inv n k0 pm \<longleftrightarrow>
     default_k pm = k0 \<and> MIN_K pm = 2 \<and> COOLDOWN_PERIODS pm = 3 \<and> DOMINANT_PCT pm = 10 \<and> RING_SIZE pm = 200 \<and>
     length (all_pod_ids pm) \<le> n \<and> length (ring_buffer pm) \<le> 200 \<and>
     (\<forall>h k. group_k pm h = Some k \<longrightarrow> min k0 2 \<le> k \<and> k \<le> max k0 (int n)) \<and>
     dom (group_cooldown pm) = dom (group_k pm) \<and> (\<forall>h c. group_cooldown pm h = Some c \<longrightarrow> 0 \<le> c \<and> c \<le> 3)"

lemma pm_inv_group_step:
  assumes "pm_inv n k0 pm" "group_step pm h pm'"
  shows "pm_inv n k0 pm'"
proof -
  have g: "min k0 2 \<le> get_k h pm \<and> get_k h pm \<le> max k0 (int n)"
    using assms(1) by (auto simp: pm_inv_def get_k_def split: option.splits)
  show ?thesis
    using assms(2) unfolding group_step_def
  proof (elim disjE exE conjE)
    fix c
    assume "group_cooldown pm h = Some c" "0 < c" "pm' = pm\<lparr>group_cooldown := (group_cooldown pm)(h \<mapsto> c - 1)\<rparr>"
    moreover have "c \<le> 4" "h \<in> dom (group_k pm)"
      using assms(1) calculation(1) by (fastforce simp: pm_inv_def)+
    ultimately show ?thesis
      using assms(1) by (simp add: pm_inv_def insert_absorb)
  next
    fix k
    assume k: "k_step pm (get_k h pm) k" and pm': "pm' = pm\<lparr>group_k := (group_k pm)(h \<mapsto> k),
      group_cooldown := (group_cooldown pm)(h \<mapsto> COOLDOWN_PERIODS pm)\<rparr>"
    have "min k0 2 \<le> k \<and> k \<le> max k0 (int n)"
      using k g assms(1) by (auto simp: k_step_def pm_inv_def)
    then show ?thesis
      using assms(1) pm' by (auto simp: pm_inv_def)
  qed (use assms(1) in simp)
qed

lemma restrict_map_Some: "(m |` A) x = Some y \<longleftrightarrow> x \<in> A \<and> m x = Some y"
  by (simp add: restrict_map_def)

lemma pm_inv_cleanup: "pm_inv n k0 pm \<Longrightarrow> pm_inv n k0 (cleanup_groups pm)"
  by (simp add: pm_inv_def cleanup_groups_def restrict_map_Some dom_restrict) blast

lemma pm_inv_adjust:
  assumes "pm_inv n k0 pm"
  shows "\<exists>pm'. adjust_all_groups pm = Some pm' \<and> pm_inv n k0 pm'"
proof -
  obtain pm' where "adjust_groups (dominant_groups pm) (cleanup_groups pm) = Some pm'" "pm_inv n k0 pm'"
    using adjust_groups_induct [of "pm_inv n k0" "cleanup_groups pm" "dominant_groups pm"]
      pm_inv_cleanup [OF assms] pm_inv_group_step by blast
  then show ?thesis
    using assms by (auto simp: adjust_all_groups_def pm_inv_def)
qed

lemma pm_inv_step: "pm_step n pm pm' \<Longrightarrow> pm_inv n k0 pm \<Longrightarrow> pm_inv n k0 pm'"
proof (induction rule: pm_step.induct)
  case (pm_adjust pm pm')
  then show ?case
    using pm_inv_adjust [of n k0 pm] by simp
qed (auto simp: pm_inv_def update_pod_states_def record_filtered_request_def)

lemma pm_inv_reachable: "(pm_step n)\<^sup>*\<^sup>* (PrefixGroupManager k0 i) pm \<Longrightarrow> pm_inv n k0 pm"
  by (induction rule: rtranclp_induct) (auto simp: pm_inv_step, simp add: pm_inv_def PrefixGroupManager_def)

lemma dominant_groups_iff:
  assumes "10 \<le> length (ring_buffer pm)" "0 \<le> DOMINANT_PCT pm"
  shows "h \<in> set (dominant_groups pm) \<longleftrightarrow> is_dominant h pm"
proof -
  let ?l = "real (length (ring_buffer pm))" and ?c = "real (count_list (ring_buffer pm) h)"
  have "0 < ?l"
    using assms(1) by (cases "ring_buffer pm") auto
  then have "?l * DOMINANT_PCT pm / 100 < ?c \<longleftrightarrow> DOMINANT_PCT pm < ?c * 100 / ?l"
    by (simp add: field_simps)
  moreover have "h \<in> set (ring_buffer pm)" if "?l * DOMINANT_PCT pm / 100 < ?c"
  proof (rule ccontr)
    assume "h \<notin> set (ring_buffer pm)"
    then have "?c = 0"
      by (simp add: count_list_0_iff)
    then show False
      using that mult_nonneg_nonneg [OF of_nat_0_le_iff assms(2), of "length (ring_buffer pm)"] by linarith
  qed
  ultimately show ?thesis
    using assms(1) by (auto simp: dominant_groups_def is_dominant_def)
qed

subsection \<open>Properties\<close>

text \<open>
  C38. The candidate selection ends and yields \<open>min k n\<close> pods from distinct slots, and the candidates
  for a smaller K are the first ones for a larger K. The manager relies on this when it looks at the
  last candidate of K + 1 as the pod that would be added.
\<close>

theorem candidates_distinct_and_nested:
  assumes "0 \<le> k" "k \<le> k'"
  shows "\<exists>slots extra. select_candidate_pods p pods k = Some (map ((!) pods) slots) \<and>
     length slots = nat (min k (int (length pods))) \<and> distinct slots \<and> set slots \<subseteq> {..<length pods} \<and>
     select_candidate_pods p pods k' = Some (map ((!) pods) slots @ extra)"
proof -
  obtain slots where "select_candidate_pods p pods k = Some (map ((!) pods) slots)"
    "length slots = nat (min k (int (length pods)))" "distinct slots" "\<forall>x \<in> set slots. x < length pods"
    by (rule select_candidate_pods_spec)
  then show ?thesis
    using select_candidate_pods_mono [OF assms, of p pods] by (intro exI [of _ slots]) auto
qed

theorem candidates_distinct_and_nested_witness:
  "\<exists>slots extra. select_candidate_pods 5 [''a'', ''b'', ''c'', ''d''] 2 = Some (map ((!) [''a'', ''b'', ''c'', ''d'']) slots) \<and>
     length slots = nat (min 2 (int (length [''a'', ''b'', ''c'', ''d'']))) \<and> distinct slots \<and>
     set slots \<subseteq> {..<length [''a'', ''b'', ''c'', ''d'']} \<and>
     select_candidate_pods 5 [''a'', ''b'', ''c'', ''d''] 3 = Some (map ((!) [''a'', ''b'', ''c'', ''d'']) slots @ extra)"
  by (rule candidates_distinct_and_nested) simp_all

text \<open>
  C5. Through every sequence of manager calls on clusters of at most \<open>n\<close> pods, a periodic adjustment
  returns, every K stays between the minimum 2 and the number of pods (or the default, where that
  lies outside), the recent traffic holds at most 200 hashes, and exactly the groups with a K of
  their own have a cooldown, of at most three periods.
\<close>

theorem prefix_manager_invariant:
  assumes "(pm_step n)\<^sup>*\<^sup>* (PrefixGroupManager k0 interval) pm"
  shows "(\<exists>pm'. adjust_all_groups pm = Some pm') \<and>
    (min k0 2 \<le> get_k h pm \<and> get_k h pm \<le> max k0 (int n)) \<and> length (ring_buffer pm) \<le> 200 \<and>
    dom (group_cooldown pm) = dom (group_k pm) \<and> ran (group_cooldown pm) \<subseteq> {0..3}"
proof -
  note inv = pm_inv_reachable [OF assms]
  have "min k0 2 \<le> get_k h pm \<and> get_k h pm \<le> max k0 (int n)"
    using inv by (auto simp: pm_inv_def get_k_def split: option.splits)
  then show ?thesis
    using inv pm_inv_adjust [OF inv] by (auto simp: pm_inv_def ran_def)
qed

theorem prefix_manager_invariant_witness:
  "\<exists>pm. (pm_step 4)\<^sup>*\<^sup>* (PrefixGroupManager 2 (Fin 2)) pm \<and> ring_buffer pm = [5] \<and>
    (\<exists>pm'. adjust_all_groups pm = Some pm') \<and>
    (min 2 2 \<le> get_k 5 pm \<and> get_k 5 pm \<le> max 2 (int 4)) \<and> length (ring_buffer pm) \<le> 200 \<and>
    dom (group_cooldown pm) = dom (group_k pm) \<and> ran (group_cooldown pm) \<subseteq> {0..3}"
proof -
  let ?pm = "record_filtered_request 5 (PrefixGroupManager 2 (Fin 2))"
  have "(pm_step 4)\<^sup>*\<^sup>* (PrefixGroupManager 2 (Fin 2)) ?pm"
    by (intro r_into_rtranclp pm_record)
  with prefix_manager_invariant [OF this, of 5] show ?thesis
    by (intro exI [of _ ?pm]) (simp add: record_filtered_request_def PrefixGroupManager_def last_n_def)
qed

text \<open>
  With at least ten recent hashes, an adjustment moves the K of a dominant group by at most one
  and resets every other group to the default.
\<close>

lemma adjust_moves_k_by_one:
  assumes "adjust_all_groups pm = Some pm'" "10 \<le> length (ring_buffer pm)" "0 \<le> DOMINANT_PCT pm"
  shows "if is_dominant h pm then \<bar>get_k h pm' - get_k h pm\<bar> \<le> 1 else get_k h pm' = default_k pm"
proof -
  obtain pm1 where pm1: "adjust_groups (dominant_groups pm) (cleanup_groups pm) = Some pm1"
    "pm' = pm1\<lparr>num_adjustments := num_adjustments pm1 + 1\<rparr>"
    using assms(1,2) by (auto simp: adjust_all_groups_def)
  have "distinct (dominant_groups pm)"
    by (simp add: dominant_groups_def)
  note moved = adjust_groups_k [OF pm1(1) this, of h]
  have "get_k h pm' = get_k h pm1"
    using pm1(2) by (simp add: get_k_def split: option.split)
  moreover have "get_k h (cleanup_groups pm) = (if h \<in> set (dominant_groups pm) then get_k h pm else default_k pm)"
    by (simp add: get_k_def cleanup_groups_def restrict_map_def split: option.split)
  ultimately show ?thesis
    using moved dominant_groups_iff [OF assms(2,3), of h] by (simp split: if_splits)
qed

definition busy_manager :: prefix_manager where
  "busy_manager = (PrefixGroupManager 2 (Fin 2))
     \<lparr>ring_buffer := replicate 10 5, all_pod_ids := [''a'', ''b'', ''c''],
      pod_waiting := [''a'' \<mapsto> Fin 0, ''b'' \<mapsto> Fin 0, ''c'' \<mapsto> Fin 0]\<rparr>"

lemma adjust_moves_k_by_one_witness:
  "\<exists>pm'. adjust_all_groups busy_manager = Some pm' \<and>
     (if is_dominant 5 busy_manager then \<bar>get_k 5 pm' - get_k 5 busy_manager\<bar> \<le> 1
      else get_k 5 pm' = default_k busy_manager)"
proof -
  obtain pm' where "adjust_all_groups busy_manager = Some pm'"
    using pm_inv_adjust [of 3 2 busy_manager]
    by (auto simp: busy_manager_def PrefixGroupManager_def pm_inv_def)
  with adjust_moves_k_by_one [OF this, of 5] show ?thesis
    by (simp add: busy_manager_def PrefixGroupManager_def)
qed

end
