(* ===== verification/Normalizer.thy ===== *)
theory Normalizer
  imports Floats "HOL-Library.AList" "HOL-Library.Sublist" "HOL-Library.List_Lexorder" "HOL-Library.Char_ord"
    "HOL-Library.Multiset"
begin

text \<open>
  Feature normalisation of the routing agent (\<open>data_normalizer.py\<close>): running mean and deviation of a
  feature, statistics pooled over the pods, and the normalisation of a data frame, one feature at a
  time (training) or in one batch (inference). A data frame is an association list of columns; the
  single-row dictionary of the inference path is a frame whose columns have length one. The module's
  caches only memoise pure functions and are left out.
\<close>

subsection \<open>Running statistics\<close>

record running_stats =
  rs_count :: nat
  rs_mean :: "flt option"
  rs_sum_sq_diff :: "flt option"
  rs_std :: "flt option"
  rs_min :: "flt option"
  rs_max :: "flt option"
  rs_feature_names :: string

definition RunningStats :: "string \<Rightarrow> running_stats" where
  "RunningStats name =
     \<lparr>rs_count = 0, rs_mean = None, rs_sum_sq_diff = None, rs_std = None, rs_min = None, rs_max = None,
      rs_feature_names = name\<rparr>"

text \<open>\<open>np.var\<close>, \<open>np.min\<close> and \<open>np.max\<close> of a non-empty column.\<close>

definition fvar :: "flt list \<Rightarrow> flt" where
  "fvar xs = (let m = fmean xs in fmean (map (\<lambda>x. (x - m) * (x - m)) xs))"

definition np_min :: "flt list \<Rightarrow> flt" where
  "np_min xs = foldl fmin (hd xs) (tl xs)"

definition np_max :: "flt list \<Rightarrow> flt" where
  "np_max xs = foldl fmax (hd xs) (tl xs)"

definition fnat :: "nat \<Rightarrow> flt" where
  "fnat n = Fin (real n)"

definition replace_stats_from_data :: "flt list \<Rightarrow> running_stats \<Rightarrow> running_stats" where
  "replace_stats_from_data new_data rs =
     (if new_data = [] then rs
      else let n = fnat (length new_data); ssd = fvar new_data * n in
        rs\<lparr>rs_count := length new_data, rs_mean := Some (fmean new_data), rs_sum_sq_diff := Some ssd,
           rs_std := Some (fsqrt (ssd / n)), rs_min := Some (np_min new_data), rs_max := Some (np_max new_data)\<rparr>)"

definition update_min_max :: "flt list \<Rightarrow> running_stats \<Rightarrow> running_stats" where
  "update_min_max new_data rs =
     (case (rs_min rs, rs_max rs) of
        (Some lo, Some hi) \<Rightarrow> rs\<lparr>rs_min := Some (fmin lo (np_min new_data)), rs_max := Some (fmax hi (np_max new_data))\<rparr>
      | _ \<Rightarrow> rs\<lparr>rs_min := Some (np_min new_data), rs_max := Some (np_max new_data)\<rparr>)"

text \<open>Arithmetic with a missing mean or sum raises; the mean is written before the sum is read.\<close>

definition update_stats_incrementally :: "flt list \<Rightarrow> running_stats \<Rightarrow> (running_stats, unit) outcome" where
  "update_stats_incrementally new_data rs =
     (if new_data = [] then (rs, Inr ())
      else
        let n = fnat (length new_data); batch_var = fvar new_data * n in
        if rs_count rs = 0 then
          (update_min_max new_data
             (rs\<lparr>rs_mean := Some (fmean new_data), rs_sum_sq_diff := Some batch_var, rs_count := length new_data,
                 rs_std := Some (fsqrt (batch_var / n))\<rparr>), Inr ())
        else
          let c = fnat (rs_count rs); total = rs_count rs + length new_data; t = fnat total in
          case rs_mean rs of
            None \<Rightarrow> (rs, Inl TypeError)
          | Some m \<Rightarrow>
              let delta = fmean new_data - m; rs1 = rs\<lparr>rs_mean := Some (m + delta * n / t)\<rparr> in
              (case rs_sum_sq_diff rs of
                 None \<Rightarrow> (rs1, Inl TypeError)
               | Some s \<Rightarrow>
                   let ssd = s + batch_var + delta * delta * c * n / t in
                   (update_min_max new_data
                      (rs1\<lparr>rs_sum_sq_diff := Some ssd, rs_std := Some (fsqrt (ssd / t)), rs_count := total\<rparr>), Inr ())))"

text \<open>\<open>np.isclose(x, 0, atol=a)\<close>.\<close>

fun near_zero :: "real \<Rightarrow> flt \<Rightarrow> bool" where
  "near_zero a (Fin x) = (\<bar>x\<bar> \<le> a)"
| "near_zero a _ = False"

definition normalize :: "flt list \<Rightarrow> running_stats \<Rightarrow> py_error + flt list" where
  "normalize data rs =
     (let zeros = map (\<lambda>_. Fin 0) data in
      if rs_count rs = 0 then Inl AssertionError
      else case rs_std rs of
        None \<Rightarrow> Inl TypeError
      | Some sd \<Rightarrow>
          if near_zero (1 / 10 ^ 10) sd \<or> sd = NaN then Inr zeros
          else (case rs_mean rs of
             None \<Rightarrow> Inl TypeError
           | Some m \<Rightarrow>
               let normalized = map (\<lambda>x. (x - m) / sd) data in
               Inr (if NaN \<in> set normalized then zeros else normalized)))"

subsection \<open>Statistics of all features\<close>

record feature_stats =
  stats_of_feature :: "(string \<times> running_stats) list"
  FEATURES_NORMALIZED :: "string list"
  NUM_FEATURES_NORMALIZED :: nat
  TOTAL_FEATURES :: nat

fun initialize_stats :: "string list \<Rightarrow> (string \<times> running_stats) list \<Rightarrow> (string \<times> running_stats) list" where
  "initialize_stats [] st = st"
| "initialize_stats (f # fs) st =
     initialize_stats fs (if f \<in> fst ` set st then st else st @ [(f, RunningStats f)])"

definition FeatureStats :: "string list \<Rightarrow> feature_stats" where
  "FeatureStats names =
     \<lparr>stats_of_feature = initialize_stats names [], FEATURES_NORMALIZED = [], NUM_FEATURES_NORMALIZED = 0,
      TOTAL_FEATURES = length names\<rparr>"

definition get_max_count :: "feature_stats \<Rightarrow> nat" where
  "get_max_count fs = foldl max 0 (map (rs_count \<circ> snd) (stats_of_feature fs))"

definition get_feature_names :: "feature_stats \<Rightarrow> string list" where
  "get_feature_names fs = map fst (stats_of_feature fs)"

definition put_stats :: "string \<Rightarrow> running_stats \<Rightarrow> feature_stats \<Rightarrow> feature_stats" where
  "put_stats f rs fs = fs\<lparr>stats_of_feature := AList.update f rs (stats_of_feature fs)\<rparr>"

definition lookup_stats :: "feature_stats \<Rightarrow> string \<Rightarrow> running_stats option" where
  "lookup_stats fs f = map_of (stats_of_feature fs) f"

subsection \<open>Feature names\<close>

definition extract_pod_feature_type :: "string \<Rightarrow> string option" where
  "extract_pod_feature_type col =
     (if prefix ''pod_'' col \<and> CHR ''-'' \<in> set col then Some (tl (dropWhile (\<lambda>c. c \<noteq> CHR ''-'') col)) else None)"

definition pooled_type :: "string list \<Rightarrow> string \<Rightarrow> string option" where
  "pooled_type no_normalize col =
     (if prefix ''pod_'' col \<and> \<not> sublist ''gpu_model'' col \<and> \<not> sublist ''GPU'' col then
        (case extract_pod_feature_type col of
           None \<Rightarrow> None
         | Some t \<Rightarrow> if t = [] \<or> t \<in> set no_normalize then None else Some t)
      else None)"

text \<open>The normalisable features, the other columns, and the pod feature types (a set, here sorted).\<close>

definition get_normalizable_features :: "string list \<Rightarrow> string list \<Rightarrow> string list \<times> string list \<times> string list" where
  "get_normalizable_features columns no_normalize =
     (let pod_columns = filter (\<lambda>c. pooled_type no_normalize c \<noteq> None) columns;
          types = sort (remdups (map (\<lambda>c. the (pooled_type no_normalize c)) pod_columns));
          normalizable = [''input_tokens'', ''output_tokens'', ''total_tokens''] @ types
      in (normalizable, filter (\<lambda>c. c \<notin> set pod_columns \<and> c \<notin> set normalizable) columns, types))"

definition get_matching_columns :: "string list \<Rightarrow> string \<Rightarrow> string list" where
  "get_matching_columns columns feature_type = filter (\<lambda>c. extract_pod_feature_type c = Some feature_type) columns"

subsection \<open>Normalising a frame\<close>

type_synonym data_frame = "(string \<times> flt list) list"

definition frame_columns :: "data_frame \<Rightarrow> string list" where
  "frame_columns df = map fst df"

text \<open>
  The pooled statistics of one pod feature type. The closing log line reads the first entries of the
  four statistics, so a missing one raises.
\<close>

definition pool_type ::
  "data_frame \<Rightarrow> bool \<Rightarrow> bool \<Rightarrow> string \<Rightarrow> feature_stats \<Rightarrow> (feature_stats, unit) outcome" where
  "pool_type df update_statistics recompute t fs =
     (let matching = get_matching_columns (frame_columns df) t;
          all_values = concat (map (\<lambda>c. the (map_of df c)) matching)
      in if matching = [] then (fs, Inr ())
         else
           let (rs, res) =
             (case lookup_stats fs t of
                None \<Rightarrow> update_stats_incrementally all_values (RunningStats t)
              | Some rs \<Rightarrow>
                  if \<not> update_statistics then (rs, Inr ())
                  else if recompute then (replace_stats_from_data all_values rs, Inr ())
                  else update_stats_incrementally all_values rs)
           in (put_stats t rs fs,
               case res of
                 Inl e \<Rightarrow> Inl e
               | Inr _ \<Rightarrow>
                   if None \<in> {rs_mean rs, rs_std rs, rs_min rs, rs_max rs} then Inl TypeError else Inr ()))"

fun compute_pooled_pod_statistics ::
  "data_frame \<Rightarrow> bool \<Rightarrow> bool \<Rightarrow> string list \<Rightarrow> feature_stats \<Rightarrow> (feature_stats, unit) outcome" where
  "compute_pooled_pod_statistics df upd scratch [] fs = (fs, Inr ())"
| "compute_pooled_pod_statistics df upd scratch (t # ts) fs =
     obind (pool_type df upd scratch t fs) (\<lambda>fs' _. compute_pooled_pod_statistics df upd scratch ts fs')"

definition stats_key :: "string \<Rightarrow> string" where
  "stats_key feature =
     (case extract_pod_feature_type feature of Some t \<Rightarrow> if t = [] then feature else t | None \<Rightarrow> feature)"

definition is_pod_feature :: "string \<Rightarrow> bool" where
  "is_pod_feature feature = (case extract_pod_feature_type feature of Some t \<Rightarrow> t \<noteq> [] | None \<Rightarrow> False)"

definition apply_normalization ::
  "string \<Rightarrow> flt list \<Rightarrow> running_stats \<Rightarrow> data_frame \<times> feature_stats \<Rightarrow> (data_frame \<times> feature_stats, unit) outcome" where
  "apply_normalization feature col rs st =
     (case normalize col rs of
        Inl e \<Rightarrow> (st, Inl e)
      | Inr normalized \<Rightarrow>
          ((if NaN \<in> set normalized then st else (AList.update feature normalized (fst st), snd st)), Inr ()))"

text \<open>
  The statistics of an ordinary column during training: a constant column overwrites count, mean and
  deviation and leaves the bounds; any other one is added to (or replaces) what is known. The flag
  tells whether the column is normalised afterwards.
\<close>

definition learn_column ::
  "string \<Rightarrow> flt list \<Rightarrow> bool \<Rightarrow> feature_stats \<Rightarrow> (feature_stats, bool) outcome" where
  "learn_column feature col recompute fs =
     (let rs = (case lookup_stats fs feature of None \<Rightarrow> RunningStats feature | Some rs \<Rightarrow> rs);
          fs1 = put_stats feature rs fs
      in if near_zero (1 / 10 ^ 10) (fstd col) then
           (put_stats feature
              (rs\<lparr>rs_count := length col, rs_mean := Some (fmean col), rs_std := Some (Fin 0),
                  rs_sum_sq_diff := Some (Fin 0)\<rparr>) fs1, Inr False)
         else if NaN \<in> set col then (fs1, Inl AssertionError)
         else
           let names = (if feature \<in> set (FEATURES_NORMALIZED fs) then FEATURES_NORMALIZED fs
                        else feature # FEATURES_NORMALIZED fs);
               fs2 = fs1\<lparr>FEATURES_NORMALIZED := names, NUM_FEATURES_NORMALIZED := length names\<rparr>
           in if col = [] then (fs2, Inl ValueError)
              else
                let (rs', res) = (if recompute then (replace_stats_from_data col rs, Inr ())
                                  else update_stats_incrementally col rs)
                in (put_stats feature rs' fs2,
                    case (res, rs_std rs') of
                      (Inl e, _) \<Rightarrow> Inl e
                    | (Inr _, None) \<Rightarrow> Inl TypeError
                    | (Inr _, Some sd) \<Rightarrow> Inr (sd \<noteq> Fin 0 \<and> sd \<noteq> NaN)))"

definition normalize_single_feature ::
  "string \<Rightarrow> bool \<Rightarrow> bool \<Rightarrow> data_frame \<times> feature_stats \<Rightarrow> (data_frame \<times> feature_stats, unit) outcome" where
  "normalize_single_feature feature update_statistics recompute st =
     (let (df, fs) = st; key = stats_key feature in
      case map_of df feature of
        None \<Rightarrow> (st, Inl AssertionError)
      | Some col \<Rightarrow>
          if update_statistics then
            if is_pod_feature feature then
              (case lookup_stats fs key of
                 None \<Rightarrow> (st, Inl AssertionError)
               | Some rs \<Rightarrow> apply_normalization feature col rs st)
            else
              (case learn_column feature col recompute fs of
                 (fs', Inl e) \<Rightarrow> ((df, fs'), Inl e)
               | (fs', Inr False) \<Rightarrow> ((df, fs'), Inr ())
               | (fs', Inr True) \<Rightarrow> apply_normalization feature col (the (lookup_stats fs' feature)) (df, fs'))
          else
            (case lookup_stats fs key of
               None \<Rightarrow> (st, Inl AssertionError)
             | Some rs \<Rightarrow>
                 (case rs_std rs of
                    None \<Rightarrow> (st, Inl TypeError)
                  | Some sd \<Rightarrow>
                      if near_zero (1 / 10 ^ 8) sd then (st, Inr ()) else apply_normalization feature col rs st)))"

text \<open>The loop of \<open>normalize_processed_data\<close>: an exception ends the work on one feature only.\<close>

fun normalize_columns ::
  "string list \<Rightarrow> bool \<Rightarrow> data_frame \<times> feature_stats \<Rightarrow> (data_frame \<times> feature_stats, unit) outcome" where
  "normalize_columns [] upd st = (st, Inr ())"
| "normalize_columns (c # cs) upd st =
     obind (normalize_single_feature c upd False st) (\<lambda>st' _. normalize_columns cs upd st')"

fun normalize_features ::
  "string list \<Rightarrow> string list \<Rightarrow> bool \<Rightarrow> data_frame \<times> feature_stats \<Rightarrow> data_frame \<times> feature_stats" where
  "normalize_features [] types upd st = st"
| "normalize_features (f # fs) types upd st =
     normalize_features fs types upd
       (fst (if f \<in> set types then normalize_columns (get_matching_columns (frame_columns (fst st)) f) upd st
             else normalize_single_feature f upd False st))"

text \<open>The batch normalisation of the inference path.\<close>

definition normalize_column_with :: "flt \<Rightarrow> flt \<Rightarrow> string \<Rightarrow> data_frame \<Rightarrow> data_frame" where
  "normalize_column_with m sd col df =
     (let normalized = map (\<lambda>x. (x - m) / sd) (the (map_of df col)) in
      if NaN \<in> set normalized then df else AList.update col normalized df)"

definition batch_columns ::
  "feature_stats \<Rightarrow> string \<Rightarrow> string list \<Rightarrow> data_frame \<Rightarrow> (data_frame, unit) outcome" where
  "batch_columns fs key cols df =
     (case lookup_stats fs key of
        None \<Rightarrow> (df, Inl AssertionError)
      | Some rs \<Rightarrow>
          (case rs_std rs of
             None \<Rightarrow> (df, Inl TypeError)
           | Some sd \<Rightarrow>
               if near_zero (1 / 10 ^ 8) sd \<or> cols = [] \<or> sd = Fin 0 \<or> sd = NaN then (df, Inr ())
               else (case rs_mean rs of
                  None \<Rightarrow> (df, Inl TypeError)
                | Some m \<Rightarrow> (fold (normalize_column_with m sd) cols df, Inr ()))))"

fun batch_types :: "feature_stats \<Rightarrow> string list \<Rightarrow> data_frame \<Rightarrow> (data_frame, unit) outcome" where
  "batch_types fs [] df = (df, Inr ())"
| "batch_types fs (t # ts) df =
     obind (batch_columns fs t (get_matching_columns (frame_columns df) t) df) (\<lambda>df' _. batch_types fs ts df')"

fun batch_features :: "feature_stats \<Rightarrow> string list \<Rightarrow> string list \<Rightarrow> data_frame \<Rightarrow> (data_frame, unit) outcome" where
  "batch_features fs types [] df = (df, Inr ())"
| "batch_features fs types (f # rest) df =
     (if f \<in> set types then batch_features fs types rest df
      else if lookup_stats fs f = None then (df, Inl AssertionError)
      else if f \<notin> set (frame_columns df) then batch_features fs types rest df
      else obind (batch_columns fs f [f] df) (\<lambda>df' _. batch_features fs types rest df'))"

definition normalize_features_batch_inference ::
  "data_frame \<Rightarrow> feature_stats \<Rightarrow> string list \<Rightarrow> string list \<Rightarrow> (data_frame, unit) outcome" where
  "normalize_features_batch_inference df fs normalizable types =
     obind (batch_types fs types df) (\<lambda>df' _. batch_features fs types normalizable df')"

subsection \<open>Incremental statistics are the statistics of all data\<close>

definition rmean :: "real list \<Rightarrow> real" where
  "rmean xs = sum_list xs / real (length xs)"

definition rss :: "real list \<Rightarrow> real" where
  "rss xs = sum_list (map (\<lambda>x. (x - rmean xs) * (x - rmean xs)) xs)"

definition stats_of :: "string \<Rightarrow> real list \<Rightarrow> running_stats" where
  "stats_of name xs =
     \<lparr>rs_count = length xs, rs_mean = Some (Fin (rmean xs)), rs_sum_sq_diff = Some (Fin (rss xs)),
      rs_std = Some (Fin (sqrt (rss xs / real (length xs)))), rs_min = Some (Fin (Min (set xs))),
      rs_max = Some (Fin (Max (set xs))), rs_feature_names = name\<rparr>"

lemma sum_sq_shift:
  "sum_list (map (\<lambda>x. (x - c) * (x - c)) xs) =
     sum_list (map (\<lambda>x. (x - d) * (x - d)) xs) + 2 * (d - c) * (sum_list xs - real (length xs) * d)
       + real (length xs) * ((d - c) * (d - c))"
  by (induction xs) (simp_all add: algebra_simps)

lemma rss_shift: "xs \<noteq> [] \<Longrightarrow> sum_list (map (\<lambda>x. (x - c) * (x - c)) xs)
     = rss xs + real (length xs) * ((rmean xs - c) * (rmean xs - c))"
  using sum_sq_shift [of c xs "rmean xs"] by (simp add: rss_def rmean_def)

lemma lengths_pos: "xs \<noteq> [] \<Longrightarrow> 0 < real (length xs) + real (length ys)"
  by (cases xs) simp_all

lemma rmean_append:
  assumes "xs \<noteq> []" "ys \<noteq> []"
  shows "rmean (xs @ ys) = rmean xs + (rmean ys - rmean xs) * real (length ys) / real (length xs + length ys)"
proof -
  let ?n = "real (length xs)" and ?m = "real (length ys)"
  have n: "sum_list xs = rmean xs * ?n" "sum_list ys = rmean ys * ?m" "0 < ?n + ?m"
    using assms lengths_pos [of xs ys] by (simp_all add: rmean_def)
  have "rmean (xs @ ys) = (rmean xs * ?n + rmean ys * ?m) / (?n + ?m)"
    by (simp add: rmean_def [of "xs @ ys"] n)
  also have "\<dots> = rmean xs + (rmean ys - rmean xs) * ?m / (?n + ?m)"
    using n(3) by (simp add: field_simps)
  finally show ?thesis
    by simp
qed

lemma rss_append:
  assumes "xs \<noteq> []" "ys \<noteq> []"
  shows "rss (xs @ ys) = rss xs + rss ys +
    (rmean ys - rmean xs) * (rmean ys - rmean xs) * real (length xs) * real (length ys) / real (length xs + length ys)"
proof -
  let ?n = "real (length xs)" and ?m = "real (length ys)" and ?d = "rmean ys - rmean xs"
  have p: "0 < ?n + ?m" "?n + ?m \<noteq> 0"
    using lengths_pos [OF assms(1), of ys] by simp_all
  define q where "q = ?d / (?n + ?m)"
  have d: "?d = q * (?n + ?m)"
    using p by (simp add: q_def)
  have r: "rmean (xs @ ys) = rmean xs + q * ?m"
    using rmean_append [OF assms] by (simp add: q_def)
  have mu: "rmean xs - rmean (xs @ ys) = - (q * ?m)" "rmean ys - rmean (xs @ ys) = q * ?n"
    using r d by (simp_all add: distrib_left)
  have "rss (xs @ ys) = rss xs + ?n * (q * ?m * (q * ?m)) + (rss ys + ?m * (q * ?n * (q * ?n)))"
    unfolding rss_def [of "xs @ ys"] map_append sum_list_append rss_shift [OF assms(1)] rss_shift [OF assms(2)] mu
    by simp
  also have "\<dots> = rss xs + rss ys + q * q * (?n + ?m) * ?n * ?m"
    by (simp add: algebra_simps)
  also have "q * q * (?n + ?m) * ?n * ?m = ?d * ?d * ?n * ?m / (?n + ?m)"
    unfolding d using p(2) by simp
  finally show ?thesis
    by simp
qed

lemma np_min_Fin: "xs \<noteq> [] \<Longrightarrow> np_min (map Fin xs) = Fin (Min (set xs))"
proof -
  have "foldl fmin (Fin a) (map Fin xs) = Fin (foldl min a xs)" for a xs
    by (induction xs arbitrary: a) simp_all
  then show "xs \<noteq> [] \<Longrightarrow> ?thesis"
    by (cases xs) (simp_all add: np_min_def Min.set_eq_fold foldl_conv_fold min.commute del: list.set)
qed

lemma np_max_Fin: "xs \<noteq> [] \<Longrightarrow> np_max (map Fin xs) = Fin (Max (set xs))"
proof -
  have "foldl fmax (Fin a) (map Fin xs) = Fin (foldl max a xs)" for a xs
    by (induction xs arbitrary: a) simp_all
  then show "xs \<noteq> [] \<Longrightarrow> ?thesis"
    by (cases xs) (simp_all add: np_max_def Max.set_eq_fold foldl_conv_fold max.commute del: list.set)
qed

lemma fvar_Fin: "xs \<noteq> [] \<Longrightarrow> fvar (map Fin xs) = Fin (rss xs / real (length xs))"
  using fmean_Fin [of xs] fmean_Fin [of "map (\<lambda>x. (x - rmean xs) * (x - rmean xs)) xs"]
  by (simp add: fvar_def Let_def rss_def rmean_def comp_def)

lemma rss_nonneg: "0 \<le> rss xs"
  by (auto simp: rss_def intro!: sum_list_nonneg)

lemmas column_Fin = np_min_Fin np_max_Fin fvar_Fin fmean_Fin rmean_def [symmetric] fnat_def

lemma replace_stats_Fin:
  assumes "xs \<noteq> []"
  shows "replace_stats_from_data (map Fin xs) (RunningStats f) = stats_of f xs"
  using assms rss_nonneg [of xs]
  by (simp add: replace_stats_from_data_def RunningStats_def stats_of_def Let_def column_Fin)

lemma update_stats_first:
  assumes "xs \<noteq> []"
  shows "update_stats_incrementally (map Fin xs) (RunningStats f) = (stats_of f xs, Inr ())"
  using assms rss_nonneg [of xs]
  by (simp add: update_stats_incrementally_def RunningStats_def update_min_max_def stats_of_def Let_def column_Fin)

lemma update_stats_append:
  assumes "xs \<noteq> []" "ys \<noteq> []"
  shows "update_stats_incrementally (map Fin ys) (stats_of f xs) = (stats_of f (xs @ ys), Inr ())"
proof -
  have "real (length xs) + real (length ys) \<noteq> 0"
    using lengths_pos [OF assms(1), of ys] by simp
  then show ?thesis
    using assms rss_nonneg [of "xs @ ys"]
    by (simp add: update_stats_incrementally_def stats_of_def update_min_max_def Let_def column_Fin
        rmean_append rss_append Min_Un Max_Un)
qed

subsection \<open>The batch normalisation does what the loop does\<close>

text \<open>The normalised values of a finite column, given usable statistics.\<close>

definition scaled :: "feature_stats \<Rightarrow> string \<Rightarrow> flt list \<Rightarrow> flt list" where
  "scaled fs key col =
     (let rs = the (lookup_stats fs key); m = the (rs_mean rs); sd = the (rs_std rs) in
      if near_zero (1 / 10 ^ 8) sd then col else map (\<lambda>x. (x - m) / sd) col)"

definition usable :: "feature_stats \<Rightarrow> string \<Rightarrow> bool" where
  "usable fs key \<longleftrightarrow>
     (\<exists>rs m sd. lookup_stats fs key = Some rs \<and> 0 < rs_count rs \<and> rs_mean rs = Some (Fin m) \<and> rs_std rs = Some (Fin sd))"

definition finite_frame :: "data_frame \<Rightarrow> bool" where
  "finite_frame df \<longleftrightarrow> (\<forall>(c, col) \<in> set df. list_all is_fin col)"

definition scale_column :: "feature_stats \<Rightarrow> string \<Rightarrow> data_frame \<Rightarrow> data_frame" where
  "scale_column fs c df = AList.map_entry c (scaled fs (stats_key c)) df"

lemma update_is_map_entry: "map_of df c = Some v \<Longrightarrow> AList.update c (f v) df = AList.map_entry c f df"
  by (induction df) auto

lemma map_entry_same: "map_of df c = Some v \<Longrightarrow> f v = v \<Longrightarrow> AList.map_entry c f df = df"
  by (induction df) auto

lemma map_entry_commute: "c \<noteq> d \<Longrightarrow> AList.map_entry c f (AList.map_entry d g df) = AList.map_entry d g (AList.map_entry c f df)"
  by (induction df) auto

lemma set_map_entry: "(c, v) \<in> set (AList.map_entry k f df) \<Longrightarrow> (c, v) \<in> set df \<or> (\<exists>w. (k, w) \<in> set df \<and> v = f w)"
  by (induction df) (auto split: if_splits)

lemma frame_columns_scale [simp]: "frame_columns (scale_column fs c df) = frame_columns df"
proof -
  have "map fst (AList.map_entry k f df) = map fst df" for k f
    by (induction df) auto
  then show ?thesis
    by (simp add: frame_columns_def scale_column_def)
qed

lemma frame_columns_fold [simp]: "frame_columns (fold (scale_column fs) cs df) = frame_columns df"
  by (induction cs arbitrary: df) simp_all

lemma fin_scaled:
  assumes "list_all is_fin col" "sd \<noteq> 0"
  shows "list_all is_fin (map (\<lambda>x. (x - Fin m) / Fin sd) col)" "NaN \<notin> set (map (\<lambda>x. (x - Fin m) / Fin sd) col)"
proof -
  obtain rs where "col = map Fin rs"
    using is_fin_map [OF assms(1)] by blast
  then show "list_all is_fin (map (\<lambda>x. (x - Fin m) / Fin sd) col)" "NaN \<notin> set (map (\<lambda>x. (x - Fin m) / Fin sd) col)"
    using assms(2) by (auto simp: list_all_iff)
qed

lemma near_zero_nonzero: "\<not> near_zero a (Fin sd) \<Longrightarrow> 0 < a \<Longrightarrow> sd \<noteq> 0"
  by auto

lemma usableE:
  assumes "usable fs key"
  obtains rs m sd where "lookup_stats fs key = Some rs" "0 < rs_count rs" "rs_mean rs = Some (Fin m)" "rs_std rs = Some (Fin sd)"
  using assms by (auto simp: usable_def)

lemma scaled_fin:
  assumes "usable fs key" "list_all is_fin col"
  shows "list_all is_fin (scaled fs key col)"
  using assms(1)
proof (rule usableE)
  fix rs m sd
  assume rs: "lookup_stats fs key = Some rs" "rs_mean rs = Some (Fin m)" "rs_std rs = Some (Fin sd)"
  show ?thesis
  proof (cases "near_zero (1 / 10 ^ 8) (Fin sd)")
    case False
    then have "sd \<noteq> 0"
      by (rule near_zero_nonzero) simp
    then show ?thesis
      using False rs fin_scaled(1) [OF assms(2)] by (simp add: scaled_def Let_def)
  qed (use rs assms(2) in \<open>simp add: scaled_def Let_def\<close>)
qed

lemma finite_frame_scale: "finite_frame df \<Longrightarrow> usable fs (stats_key c) \<Longrightarrow> finite_frame (scale_column fs c df)"
  unfolding finite_frame_def scale_column_def using scaled_fin by (auto dest!: set_map_entry)

lemma finite_column: "finite_frame df \<Longrightarrow> map_of df c = Some col \<Longrightarrow> list_all is_fin col"
  by (auto simp: finite_frame_def dest: map_of_SomeD)

lemma column_present: "c \<in> set (frame_columns df) \<Longrightarrow> \<exists>col. map_of df c = Some col"
  by (auto simp: frame_columns_def weak_map_of_SomeI)

lemma normalize_usable:
  assumes "lookup_stats fs key = Some rs" "0 < rs_count rs" "rs_mean rs = Some (Fin m)" "rs_std rs = Some (Fin sd)"
    "list_all is_fin col" "\<not> near_zero (1 / 10 ^ 8) (Fin sd)"
  shows "normalize col rs = Inr (scaled fs key col)" "NaN \<notin> set (scaled fs key col)"
proof -
  have "sd \<noteq> 0"
    using assms(6) by (rule near_zero_nonzero) simp
  note nan = fin_scaled(2) [OF assms(5) this, of m]
  have "scaled fs key col = map (\<lambda>x. (x - Fin m) / Fin sd) col"
    using assms(1,3,4,6) by (simp add: scaled_def Let_def)
  moreover have "\<not> near_zero (1 / 10 ^ 10) (Fin sd)"
    using assms(6) by simp
  ultimately show "normalize col rs = Inr (scaled fs key col)" "NaN \<notin> set (scaled fs key col)"
    using assms(2-4) nan by (simp_all only: normalize_def Let_def) simp_all
qed

lemma single_inference:
  assumes "c \<in> set (frame_columns df)" "finite_frame df" "usable fs (stats_key c)"
  shows "normalize_single_feature c False b (df, fs) = ((scale_column fs c df, fs), Inr ())"
proof -
  obtain col where col: "map_of df c = Some col"
    using column_present [OF assms(1)] by blast
  note fin = finite_column [OF assms(2) col]
  obtain rs m sd where rs: "lookup_stats fs (stats_key c) = Some rs" "0 < rs_count rs"
    "rs_mean rs = Some (Fin m)" "rs_std rs = Some (Fin sd)"
    using usableE [OF assms(3)] .
  show ?thesis
  proof (cases "near_zero (1 / 10 ^ 8) (Fin sd)")
    case True
    then have "scaled fs (stats_key c) col = col"
      using rs by (simp add: scaled_def Let_def)
    then have "scale_column fs c df = df"
      unfolding scale_column_def by (rule map_entry_same [OF col])
    then show ?thesis
      using True col rs by (simp only: normalize_single_feature_def Let_def) simp
  next
    case False
    have "AList.update c (scaled fs (stats_key c) col) df = scale_column fs c df"
      unfolding scale_column_def by (rule update_is_map_entry [OF col])
    then show ?thesis
      using False col rs normalize_usable [OF rs fin False]
      by (simp only: normalize_single_feature_def Let_def) (simp add: apply_normalization_def)
  qed
qed

lemma loop_columns:
  assumes "set cs \<subseteq> set (frame_columns df)" "finite_frame df" "\<forall>c \<in> set cs. usable fs (stats_key c)"
  shows "normalize_columns cs False (df, fs) = ((fold (scale_column fs) cs df, fs), Inr ()) \<and>
    finite_frame (fold (scale_column fs) cs df)"
  using assms by (induction cs arbitrary: df) (simp_all add: single_inference finite_frame_scale)

definition expand_feature :: "string list \<Rightarrow> string list \<Rightarrow> string \<Rightarrow> string list" where
  "expand_feature cols types f = (if f \<in> set types then get_matching_columns cols f else [f])"

lemma loop_features:
  assumes "finite_frame df"
    "\<forall>f \<in> set feats. set (expand_feature (frame_columns df) types f) \<subseteq> set (frame_columns df)
       \<and> (\<forall>c \<in> set (expand_feature (frame_columns df) types f). usable fs (stats_key c))"
  shows "normalize_features feats types False (df, fs)
    = (fold (scale_column fs) (concat (map (expand_feature (frame_columns df) types) feats)) df, fs)"
  using assms
proof (induction feats arbitrary: df)
  case (Cons f feats)
  let ?cs = "expand_feature (frame_columns df) types f"
  have "normalize_columns ?cs False (df, fs) = ((fold (scale_column fs) ?cs df, fs), Inr ())"
    and fin: "finite_frame (fold (scale_column fs) ?cs df)"
    using loop_columns [of ?cs df fs] Cons.prems by simp_all
  then have step: "fst (if f \<in> set types then normalize_columns (get_matching_columns (frame_columns df) f) False (df, fs)
      else normalize_single_feature f False False (df, fs)) = (fold (scale_column fs) ?cs df, fs)"
    using Cons.prems by (auto simp: expand_feature_def single_inference)
  show ?case
    using Cons.IH [OF fin] Cons.prems by (simp only: normalize_features.simps fst_conv step) simp
qed simp

lemma batch_columns_scale:
  assumes "set cs \<subseteq> set (frame_columns df)" "finite_frame df" "usable fs key" "\<forall>c \<in> set cs. stats_key c = key"
  shows "batch_columns fs key cs df = (fold (scale_column fs) cs df, Inr ()) \<and> finite_frame (fold (scale_column fs) cs df)"
proof -
  obtain rs m sd where rs: "lookup_stats fs key = Some rs" "0 < rs_count rs"
    "rs_mean rs = Some (Fin m)" "rs_std rs = Some (Fin sd)"
    using usableE [OF assms(3)] .
  have "fold (scale_column fs) cs df = (if near_zero (1 / 10 ^ 8) (Fin sd) then df
      else fold (normalize_column_with (Fin m) (Fin sd)) cs df) \<and> finite_frame (fold (scale_column fs) cs df)"
    using assms(1,2,4)
  proof (induction cs arbitrary: df)
    case (Cons c cs)
    obtain col where col: "map_of df c = Some col"
      using column_present [of c df] Cons.prems(1) by auto
    note fin = finite_column [OF Cons.prems(2) col]
    have step: "scale_column fs c df = (if near_zero (1 / 10 ^ 8) (Fin sd) then df
        else normalize_column_with (Fin m) (Fin sd) c df)"
    proof (cases "near_zero (1 / 10 ^ 8) (Fin sd)")
      case True
      then show ?thesis
        using map_entry_same [OF col] rs Cons.prems(3) by (simp add: scale_column_def scaled_def Let_def)
    next
      case False
      then have "scaled fs key col = map (\<lambda>x. (x - Fin m) / Fin sd) col"
        using rs by (simp add: scaled_def Let_def)
      then show ?thesis
        using update_is_map_entry [OF col, of "scaled fs key"] normalize_usable(2) [OF rs fin False] col False Cons.prems(3)
        by (simp add: scale_column_def normalize_column_with_def Let_def)
    qed
    have "fold (scale_column fs) cs (scale_column fs c df) = (if near_zero (1 / 10 ^ 8) (Fin sd) then scale_column fs c df
        else fold (normalize_column_with (Fin m) (Fin sd)) cs (scale_column fs c df))
      \<and> finite_frame (fold (scale_column fs) cs (scale_column fs c df))"
      by (rule Cons.IH) (use finite_frame_scale [OF Cons.prems(2), of fs c] assms(3) Cons.prems in simp_all)
    then show ?case
      using step by (auto split: if_splits)
  qed simp
  then show ?thesis
    using rs near_zero_nonzero [of "1 / 10 ^ 8" sd] by (auto simp: batch_columns_def)
qed

lemma set_matching: "set (get_matching_columns cols t) \<subseteq> set cols"
  by (auto simp: get_matching_columns_def)

lemma stats_key_matching: "c \<in> set (get_matching_columns cols t) \<Longrightarrow> t \<noteq> [] \<Longrightarrow> stats_key c = t"
  by (simp add: get_matching_columns_def stats_key_def)

lemma batch_types_scale:
  assumes "finite_frame df" "\<forall>t \<in> set ts. t \<noteq> [] \<and> usable fs t"
  shows "batch_types fs ts df = (fold (scale_column fs) (concat (map (get_matching_columns (frame_columns df)) ts)) df, Inr ())
    \<and> finite_frame (fold (scale_column fs) (concat (map (get_matching_columns (frame_columns df)) ts)) df)"
  using assms
proof (induction ts arbitrary: df)
  case (Cons t ts)
  let ?cs = "get_matching_columns (frame_columns df) t"
  have b: "batch_columns fs t ?cs df = (fold (scale_column fs) ?cs df, Inr ())"
    "finite_frame (fold (scale_column fs) ?cs df)"
    using batch_columns_scale [of ?cs df fs t] set_matching stats_key_matching Cons.prems by auto
  show ?case
    using Cons.IH [OF b(2)] Cons.prems b(1) by simp
qed simp

lemma batch_features_scale:
  assumes "finite_frame df" "\<forall>f \<in> set feats. f \<notin> set types \<longrightarrow> f \<in> set (frame_columns df) \<and> usable fs f \<and> stats_key f = f"
  shows "batch_features fs types feats df = (fold (scale_column fs) (filter (\<lambda>f. f \<notin> set types) feats) df, Inr ())"
  using assms
proof (induction feats arbitrary: df)
  case (Cons f feats)
  show ?case
  proof (cases "f \<in> set types")
    case False
    then have f: "f \<in> set (frame_columns df)" "usable fs f" "stats_key f = f"
      using Cons.prems(2) by auto
    have b: "batch_columns fs f [f] df = (scale_column fs f df, Inr ())" "finite_frame (scale_column fs f df)"
      using batch_columns_scale [of "[f]" df fs f] f Cons.prems(1) by auto
    then show ?thesis
      using Cons.IH [OF b(2)] Cons.prems(2) f False by (auto elim!: usableE)
  qed (use Cons in simp)
qed simp

lemma scale_commute: "scale_column fs c \<circ> scale_column fs d = scale_column fs d \<circ> scale_column fs c"
  by (cases "c = d") (auto simp: scale_column_def map_entry_commute)

lemma fold_scale_swap:
  "fold (scale_column fs) ys (fold (scale_column fs) xs df) = fold (scale_column fs) xs (fold (scale_column fs) ys df)"
proof -
  have "fold (scale_column fs) (xs @ ys) = fold (scale_column fs) (ys @ xs)"
    by (rule fold_multiset_equiv) (simp_all add: scale_commute)
  then show ?thesis
    by (metis fold_append comp_apply)
qed

lemma pooled_type_nonempty: "pooled_type ns c = Some t \<Longrightarrow> t \<noteq> []"
  unfolding pooled_type_def by (simp only: split: option.splits if_splits) auto

lemma normalizable_split:
  assumes "get_normalizable_features cols no_norm = (normalizable, rest, types)"
  shows "normalizable = [''input_tokens'', ''output_tokens'', ''total_tokens''] @ types"
    and "t \<in> set types \<Longrightarrow> t \<noteq> []"
proof -
  show "normalizable = [''input_tokens'', ''output_tokens'', ''total_tokens''] @ types"
    using assms unfolding get_normalizable_features_def Let_def prod.inject by (elim conjE) simp
  have "types = sort (remdups (map (\<lambda>c. the (pooled_type no_norm c)) (filter (\<lambda>c. pooled_type no_norm c \<noteq> None) cols)))"
    using assms unfolding get_normalizable_features_def Let_def prod.inject by (elim conjE) simp
  then show "t \<in> set types \<Longrightarrow> t \<noteq> []"
    using pooled_type_nonempty [of no_norm] by fastforce
qed

lemma token_features_key:
  "f \<in> {''input_tokens'', ''output_tokens'', ''total_tokens''} \<Longrightarrow> stats_key f = f"
  by (elim insertE emptyE) (simp_all add: stats_key_def extract_pod_feature_type_def)

subsection \<open>Properties\<close>

text \<open>
  C24. Feeding finite batches one after the other to \<open>update_stats_incrementally\<close> gives exactly the
  statistics that \<open>replace_stats_from_data\<close> computes from all the data at once: count, mean, sum of
  squared differences, deviation and bounds.
\<close>

theorem incremental_stats_match_all_data:
  "foldl (\<lambda>rs b. fst (update_stats_incrementally b rs)) (RunningStats f) (map (map Fin) bs)
     = replace_stats_from_data (map Fin (concat bs)) (RunningStats f)"
proof -
  have grow: "foldl (\<lambda>rs b. fst (update_stats_incrementally b rs)) (stats_of f xs) (map (map Fin) bs)
      = stats_of f (xs @ concat bs)" if "xs \<noteq> []" for xs bs
    using that
  proof (induction bs arbitrary: xs)
    case (Cons b bs)
    have "fst (update_stats_incrementally (map Fin b) (stats_of f xs)) = stats_of f (xs @ b)"
      using Cons.prems update_stats_append [of xs b f]
      by (cases "b = []") (simp_all add: update_stats_incrementally_def)
    then show ?case
      using Cons.IH [of "xs @ b"] Cons.prems by simp
  qed simp
  show ?thesis
  proof (induction bs)
    case Nil
    then show ?case
      by (simp add: replace_stats_from_data_def)
  next
    case (Cons b bs)
    show ?case
    proof (cases "b = []")
      case True
      then show ?thesis
        using Cons.IH by (simp add: update_stats_incrementally_def)
    next
      case False
      then show ?thesis
        using grow [of b bs] update_stats_first [of b f] replace_stats_Fin [of "b @ concat bs" f] by simp
    qed
  qed
qed

text \<open>
  C25. On a finite frame with usable statistics for every feature, the batch normalisation of the
  inference path returns the frame that the loop over \<open>_normalize_single_feature\<close> produces, provided
  no pod feature type is called like one of the three token features.
\<close>

theorem batch_normalization_matches_loop:
  assumes "finite_frame df" "get_normalizable_features (frame_columns df) no_norm = (normalizable, rest, types)"
    and "{''input_tokens'', ''output_tokens'', ''total_tokens''} \<subseteq> set (frame_columns df) - set types"
    and "\<forall>f \<in> set normalizable. usable fs f"
  shows "normalize_features_batch_inference df fs normalizable types
    = (fst (normalize_features normalizable types False (df, fs)), Inr ())"
proof -
  let ?toks = "[''input_tokens'', ''output_tokens'', ''total_tokens'']"
  let ?cs = "concat (map (get_matching_columns (frame_columns df)) types)"
  note split = normalizable_split [OF assms(2)]
  have toks: "\<forall>f \<in> set ?toks. f \<notin> set types \<and> f \<in> set (frame_columns df) \<and> usable fs f \<and> stats_key f = f"
    using assms(3,4) split(1) token_features_key by simp
  have ts: "\<forall>t \<in> set types. t \<noteq> [] \<and> usable fs t"
    using assms(4) split by simp
  have b: "batch_types fs types df = (fold (scale_column fs) ?cs df, Inr ())" "finite_frame (fold (scale_column fs) ?cs df)"
    using batch_types_scale [OF assms(1) ts] by simp_all
  have "filter (\<lambda>f. f \<notin> set types) normalizable = ?toks"
    using split(1) toks by simp
  then have batch: "normalize_features_batch_inference df fs normalizable types
      = (fold (scale_column fs) ?toks (fold (scale_column fs) ?cs df), Inr ())"
    using b batch_features_scale [OF b(2), of normalizable types fs] toks split(1)
    by (simp add: normalize_features_batch_inference_def)
  have "expand_feature (frame_columns df) types f = [f]" if "f \<in> set ?toks" for f
    using bspec [OF toks that] by (simp add: expand_feature_def)
  then have e: "concat (map (expand_feature (frame_columns df) types) ?toks) = ?toks"
    "concat (map (expand_feature (frame_columns df) types) types) = ?cs"
    by (simp_all add: expand_feature_def cong: map_cong)
  have ee: "concat (map (expand_feature (frame_columns df) types) normalizable) = ?toks @ ?cs"
    unfolding split(1) map_append concat_append e ..
  have loop: "normalize_features normalizable types False (df, fs)
      = (fold (scale_column fs) (concat (map (expand_feature (frame_columns df) types) normalizable)) df, fs)"
    by (rule loop_features [OF assms(1)])
      (use toks ts split(1) set_matching stats_key_matching in \<open>auto simp: expand_feature_def\<close>)
  show ?thesis
    unfolding batch loop ee fold_append comp_apply fst_conv by (simp only: fold_scale_swap [of fs ?toks ?cs df])
qed

definition sample_df :: data_frame where
  "sample_df = [(''input_tokens'', [Fin 10]), (''output_tokens'', [Fin 4]), (''total_tokens'', [Fin 14]),
     (''pod_0-running'', [Fin 3]), (''pod_1-running'', [Fin 5])]"

definition sample_stats :: feature_stats where
  "sample_stats = \<lparr>stats_of_feature =
     map (\<lambda>f. (f, \<lparr>rs_count = 2, rs_mean = Some (Fin 1), rs_sum_sq_diff = Some (Fin 8), rs_std = Some (Fin 2),
        rs_min = Some (Fin 0), rs_max = Some (Fin 9), rs_feature_names = f\<rparr>))
       [''input_tokens'', ''output_tokens'', ''total_tokens'', ''running''],
     FEATURES_NORMALIZED = [], NUM_FEATURES_NORMALIZED = 0, TOTAL_FEATURES = 4\<rparr>"

theorem batch_normalization_matches_loop_witness:
  "normalize_features_batch_inference sample_df sample_stats
       [''input_tokens'', ''output_tokens'', ''total_tokens'', ''running''] [''running'']
     = (fst (normalize_features [''input_tokens'', ''output_tokens'', ''total_tokens'', ''running''] [''running'']
          False (sample_df, sample_stats)), Inr ())"
proof (rule batch_normalization_matches_loop [where no_norm = "[]" and rest = "[]"])
  show "get_normalizable_features (frame_columns sample_df) []
      = ([''input_tokens'', ''output_tokens'', ''total_tokens'', ''running''], [], [''running''])"
    by (simp add: get_normalizable_features_def sample_df_def frame_columns_def pooled_type_def
        extract_pod_feature_type_def sublist_Cons_right Let_def)
qed (simp_all add: finite_frame_def sample_df_def frame_columns_def usable_def sample_stats_def lookup_stats_def)

end
