(* ===== verification/OOD_Detector.thy ===== *)
theory OOD_Detector
  imports Normalizer
begin

text \<open>
  Distribution shift detection (\<open>distribution_shift_detector.py\<close>): the tracker of training
  distributions, the monitor that compares a sliding window with the training baseline, and the
  per-sample detector that flags a request whose features lie outside the training range. CSV files
  enter as lists of rows, a row being a map from column names to floats; \<open>percentile\<close> stands for
  \<open>np.percentile\<close>.
\<close>

type_synonym sample = "(string \<times> flt) list"
type_synonym row = "string \<rightharpoonup> flt"

subsection \<open>Tracking distributions\<close>

record distribution_tracker =
  feature_values :: "(string \<times> flt list) list"
  feature_types :: "(string \<times> string) list"

definition DistributionTracker :: distribution_tracker where
  "DistributionTracker = \<lparr>feature_values = [], feature_types = []\<rparr>"

definition default_list :: "(string \<times> 'a list) list \<Rightarrow> string \<Rightarrow> 'a list" where
  "default_list d k = (case map_of d k of None \<Rightarrow> [] | Some xs \<Rightarrow> xs)"

definition track_value :: "string \<Rightarrow> string \<times> flt \<Rightarrow> distribution_tracker \<Rightarrow> distribution_tracker" where
  "track_value kind fv tr =
     tr\<lparr>feature_values := AList.update (fst fv) (default_list (feature_values tr) (fst fv) @ [snd fv]) (feature_values tr),
        feature_types := AList.update (fst fv) kind (feature_types tr)\<rparr>"

definition add_pod_sample :: "sample \<Rightarrow> distribution_tracker \<Rightarrow> distribution_tracker" where
  "add_pod_sample s tr = fold (track_value ''pod'') s tr"

definition add_request_sample :: "sample \<Rightarrow> distribution_tracker \<Rightarrow> distribution_tracker" where
  "add_request_sample s tr = fold (track_value ''request'') s tr"

record tracked_stats =
  ts_feature_name :: string
  ts_feature_type :: string
  ts_count :: nat
  ts_mean :: flt
  ts_std :: flt
  ts_min :: flt
  ts_max :: flt
  ts_percentiles :: "flt list"
  ts_num_zeros :: nat
  ts_num_nonzeros :: nat
  ts_zero_ratio :: flt

definition feature_statistics ::
  "(flt list \<Rightarrow> real list \<Rightarrow> flt list) \<Rightarrow> string \<Rightarrow> string \<Rightarrow> flt list \<Rightarrow> tracked_stats" where
  "feature_statistics percentile name kind values =
     (let zeros = length (filter (\<lambda>x. x = Fin 0) values) in
      \<lparr>ts_feature_name = name, ts_feature_type = kind, ts_count = length values,
       ts_mean = fmean values, ts_std = fstd values, ts_min = np_min values, ts_max = np_max values,
       ts_percentiles = percentile values [1, 5, 10, 25, 50, 75, 90, 95, 99],
       ts_num_zeros = zeros, ts_num_nonzeros = length values - zeros,
       ts_zero_ratio = (if length values > 0 then fnat zeros / fnat (length values) else Fin 0)\<rparr>)"

definition compute_statistics ::
  "(flt list \<Rightarrow> real list \<Rightarrow> flt list) \<Rightarrow> distribution_tracker \<Rightarrow> tracked_stats list" where
  "compute_statistics percentile tr =
     map (\<lambda>(name, values). feature_statistics percentile name (the (map_of (feature_types tr) name)) values)
       (filter (\<lambda>(name, values). values \<noteq> []) (feature_values tr))"

subsection \<open>Monitoring shifts of the aggregate distribution\<close>

datatype severity = High | Medium

record shift_warning =
  w_feature :: string
  w_severity :: severity
  w_mean_shift_zscore :: flt
  w_variance_ratio :: flt
  w_train_mean :: flt
  w_train_std :: flt
  w_current_mean :: flt
  w_current_std :: flt

record shift_monitor =
  window_size :: int
  check_interval :: int
  alert_threshold_zscore :: flt
  training_stats :: "(string \<times> row) list"
  current_values :: "(string \<times> flt list) list"
  sample_count :: int
  warnings :: "shift_warning list"
  total_warnings :: nat

definition DistributionShiftMonitor :: "(string \<times> row) list \<Rightarrow> int \<Rightarrow> int \<Rightarrow> flt \<Rightarrow> shift_monitor" where
  "DistributionShiftMonitor rows w i a =
     \<lparr>window_size = w, check_interval = i, alert_threshold_zscore = a, training_stats = rows,
      current_values = [], sample_count = 0, warnings = [], total_warnings = 0\<rparr>"

definition slide :: "int \<Rightarrow> flt list \<Rightarrow> flt \<Rightarrow> flt list" where
  "slide w xs v = (let ys = xs @ [v] in if int (length ys) > w then tl ys else ys)"

definition add_value :: "string \<times> flt \<Rightarrow> shift_monitor \<Rightarrow> shift_monitor" where
  "add_value fv mo =
     mo\<lparr>current_values :=
          AList.update (fst fv) (slide (window_size mo) (default_list (current_values mo) (fst fv)) (snd fv))
            (current_values mo)\<rparr>"

definition add_sample :: "sample \<Rightarrow> sample \<Rightarrow> shift_monitor \<Rightarrow> shift_monitor" where
  "add_sample pod request mo =
     (let mo' = fold add_value request (fold add_value pod mo) in mo'\<lparr>sample_count := sample_count mo' + 1\<rparr>)"

definition should_check :: "shift_monitor \<Rightarrow> py_error + bool" where
  "should_check mo =
     (if check_interval mo = 0 then Inl ZeroDivisionError else Inr (sample_count mo mod check_interval mo = 0))"

definition fabs :: "flt \<Rightarrow> flt" where
  "fabs x = (if x < Fin 0 then - x else x)"

definition shift_severity :: "flt \<Rightarrow> flt \<Rightarrow> flt \<Rightarrow> severity option" where
  "shift_severity alert zscore ratio =
     (if zscore > Fin 3 then Some High
      else if zscore > alert then Some Medium
      else if ratio > Fin 2 \<or> ratio < Fin 0.5 then Some Medium
      else None)"

text \<open>The warning of one feature, if any; a baseline row without mean or deviation raises.\<close>

definition feature_shift :: "flt \<Rightarrow> string \<Rightarrow> row \<Rightarrow> flt list \<Rightarrow> py_error + shift_warning option" where
  "feature_shift alert name train values =
     (case (train ''mean'', train ''std'') of
        (Some train_mean, Some train_std) \<Rightarrow>
          if train_std = Fin 0 then Inr None
          else
            let current_mean = fmean values; current_std = fstd values;
                zscore = fabs (current_mean - train_mean) / train_std;
                ratio = (if train_std > Fin 0 then current_std / train_std else Fin 1)
            in Inr (map_option
                 (\<lambda>sev. \<lparr>w_feature = name, w_severity = sev, w_mean_shift_zscore = zscore, w_variance_ratio = ratio,
                         w_train_mean = train_mean, w_train_std = train_std,
                         w_current_mean = current_mean, w_current_std = current_std\<rparr>)
                 (shift_severity alert zscore ratio))
      | _ \<Rightarrow> Inl KeyError)"

fun check_features :: "(string \<times> flt list) list \<Rightarrow> shift_monitor \<Rightarrow> (shift_monitor, unit) outcome" where
  "check_features [] mo = (mo, Inr ())"
| "check_features ((name, values) # rest) mo =
     (case map_of (training_stats mo) name of
        None \<Rightarrow> check_features rest mo
      | Some train \<Rightarrow>
          if length values < 10 then check_features rest mo
          else (case feature_shift (alert_threshold_zscore mo) name train values of
             Inl e \<Rightarrow> (mo, Inl e)
           | Inr None \<Rightarrow> check_features rest mo
           | Inr (Some w) \<Rightarrow>
               check_features rest (mo\<lparr>warnings := warnings mo @ [w], total_warnings := total_warnings mo + 1\<rparr>)))"

definition check_distribution_shift :: "shift_monitor \<Rightarrow> (shift_monitor, shift_warning list) outcome" where
  "check_distribution_shift mo =
     obind (check_features (current_values mo) (mo\<lparr>warnings := []\<rparr>)) (\<lambda>mo' _. (mo', Inr (warnings mo')))"

record shift_summary =
  total_samples :: int
  sum_total_warnings :: nat
  current_warnings :: nat
  high_severity_count :: nat
  medium_severity_count :: nat
  shifted_features :: "string list"

definition get_summary_stats :: "shift_monitor \<Rightarrow> shift_summary" where
  "get_summary_stats mo =
     \<lparr>total_samples = sample_count mo, sum_total_warnings = total_warnings mo,
      current_warnings = length (warnings mo),
      high_severity_count = length (filter (\<lambda>w. w_severity w = High) (warnings mo)),
      medium_severity_count = length (filter (\<lambda>w. w_severity w = Medium) (warnings mo)),
      shifted_features = map w_feature (warnings mo)\<rparr>"

text \<open>Refreshing the baseline from the running statistics; statistics without data raise.\<close>

fun update_baseline :: "(string \<times> running_stats) list \<Rightarrow> shift_monitor \<Rightarrow> (shift_monitor, unit) outcome" where
  "update_baseline [] mo = (mo, Inr ())"
| "update_baseline ((name, rs) # rest) mo =
     (case map_of (training_stats mo) name of
        None \<Rightarrow> update_baseline rest mo
      | Some train \<Rightarrow>
          (case rs_mean rs of
             None \<Rightarrow> (mo, Inl TypeError)
           | Some m \<Rightarrow>
               let train1 = train(''mean'' \<mapsto> m) in
               (case rs_std rs of
                  None \<Rightarrow> (mo\<lparr>training_stats := AList.update name train1 (training_stats mo)\<rparr>, Inl TypeError)
                | Some sd \<Rightarrow>
                    let train2 = train1(''std'' \<mapsto> sd);
                        train3 = (case rs_min rs of None \<Rightarrow> train2 | Some lo \<Rightarrow> train2(''min'' \<mapsto> lo));
                        train4 = (case rs_max rs of None \<Rightarrow> train3 | Some hi \<Rightarrow> train3(''max'' \<mapsto> hi))
                    in update_baseline rest (mo\<lparr>training_stats := AList.update name train4 (training_stats mo)\<rparr>))))"

definition update_baseline_from_stats :: "feature_stats \<Rightarrow> shift_monitor \<Rightarrow> (shift_monitor, unit) outcome" where
  "update_baseline_from_stats fs mo = update_baseline (stats_of_feature fs) mo"

subsection \<open>Per-sample detection\<close>

datatype ood_action = NORMAL | REDUCE_CONFIDENCE | FALLBACK

record ood_stats =
  o_mean :: flt
  o_std :: flt
  o_min :: flt
  o_max :: flt
  o_p01 :: flt
  o_p05 :: flt
  o_p95 :: flt
  o_p99 :: flt

record ood_detector =
  ood_table :: "(string \<times> ood_stats) list"
  total_checks :: nat
  extreme_checks :: nat
  normal_checks :: nat
  feature_ood_counts :: "(string \<times> nat) list"

definition row_get :: "row \<Rightarrow> string \<Rightarrow> flt \<Rightarrow> flt" where
  "row_get r k d = (case r k of None \<Rightarrow> d | Some x \<Rightarrow> x)"

definition load_row :: "row \<Rightarrow> ood_stats" where
  "load_row r =
     \<lparr>o_mean = row_get r ''mean'' (Fin 0), o_std = row_get r ''std'' (Fin 1),
      o_min = row_get r ''min'' MInf, o_max = row_get r ''max'' PInf,
      o_p01 = row_get r ''p01'' MInf, o_p05 = row_get r ''p05'' MInf,
      o_p95 = row_get r ''p95'' PInf, o_p99 = row_get r ''p99'' PInf\<rparr>"

definition load_stats :: "(string \<times> row) list \<Rightarrow> (string \<times> ood_stats) list" where
  "load_stats rows = fold (\<lambda>(name, r). AList.update name (load_row r)) rows []"

definition PerSampleOODDetector :: "(string \<times> row) list \<Rightarrow> ood_detector" where
  "PerSampleOODDetector rows =
     \<lparr>ood_table = load_stats rows, total_checks = 0, extreme_checks = 0, normal_checks = 0, feature_ood_counts = []\<rparr>"

record extrapolation =
  x_feature :: string
  x_value :: flt
  x_train_min :: flt
  x_train_max :: flt
  x_boundary_violated :: string
  x_boundary_value :: flt
  x_distance_outside :: flt
  x_relative :: flt

text \<open>The extrapolation of one feature: a constant feature is never outside its range.\<close>

definition extrapolates :: "ood_stats \<Rightarrow> flt \<Rightarrow> bool" where
  "extrapolates s v \<longleftrightarrow> o_min s \<noteq> o_max s \<and> (v < o_min s \<or> v > o_max s)"

definition describe_extrapolation :: "string \<Rightarrow> ood_stats \<Rightarrow> flt \<Rightarrow> extrapolation" where
  "describe_extrapolation name s v =
     (let below = v < o_min s;
          dist = (if below then o_min s - v else v - o_max s);
          range = o_max s - o_min s
      in \<lparr>x_feature = name, x_value = v, x_train_min = o_min s, x_train_max = o_max s,
          x_boundary_violated = (if below then ''min'' else ''max''),
          x_boundary_value = (if below then o_min s else o_max s), x_distance_outside = dist,
          x_relative = (if range > Fin 0 then dist / range else PInf)\<rparr>)"

fun extrapolation_features :: "(string \<times> ood_stats) list \<Rightarrow> sample \<Rightarrow> extrapolation list" where
  "extrapolation_features st [] = []"
| "extrapolation_features st ((name, v) # rest) =
     (case map_of st name of
        None \<Rightarrow> extrapolation_features st rest
      | Some s \<Rightarrow>
          (if extrapolates s v then [describe_extrapolation name s v] else []) @ extrapolation_features st rest)"

definition count_feature :: "extrapolation \<Rightarrow> (string \<times> nat) list \<Rightarrow> (string \<times> nat) list" where
  "count_feature x d =
     AList.update (x_feature x) ((case map_of d (x_feature x) of None \<Rightarrow> 0 | Some n \<Rightarrow> n) + 1) d"

record ood_result =
  is_ood :: bool
  action :: ood_action
  extrapolation_count :: nat
  extrapolations :: "extrapolation list"

definition check_sample :: "sample \<Rightarrow> ood_detector \<Rightarrow> ood_detector \<times> ood_result" where
  "check_sample features det =
     (let xs = extrapolation_features (ood_table det) features;
          ood = xs \<noteq> []
      in (det\<lparr>total_checks := total_checks det + 1,
              feature_ood_counts := fold count_feature xs (feature_ood_counts det),
              extreme_checks := extreme_checks det + (if ood then 1 else 0),
              normal_checks := normal_checks det + (if ood then 0 else 1)\<rparr>,
          \<lparr>is_ood = ood, action = (if ood then FALLBACK else NORMAL),
           extrapolation_count = length xs, extrapolations = xs\<rparr>))"

definition check_pod_features :: "sample \<Rightarrow> ood_detector \<Rightarrow> ood_detector \<times> ood_result" where
  "check_pod_features s det = check_sample s det"

definition check_request_features :: "sample \<Rightarrow> ood_detector \<Rightarrow> ood_detector \<times> ood_result" where
  "check_request_features s det = check_sample s det"

definition check_combined :: "sample \<Rightarrow> sample \<Rightarrow> ood_detector \<Rightarrow> ood_detector \<times> ood_result" where
  "check_combined request pod det =
     check_sample (fold (\<lambda>(k, v). AList.update k v) pod (fold (\<lambda>(k, v). AList.update k v) request [])) det"

record diagnostics =
  d_total_checks :: nat
  d_extreme_count :: nat
  d_normal_count :: nat
  d_ood_rate :: flt
  d_top_ood_features :: "(string \<times> nat) list"

definition get_diagnostics :: "ood_detector \<Rightarrow> diagnostics" where
  "get_diagnostics det =
     (if total_checks det = 0
      then \<lparr>d_total_checks = 0, d_extreme_count = 0, d_normal_count = 0, d_ood_rate = Fin 0, d_top_ood_features = []\<rparr>
      else \<lparr>d_total_checks = total_checks det, d_extreme_count = extreme_checks det, d_normal_count = normal_checks det,
            d_ood_rate = fnat (extreme_checks det) / fnat (total_checks det),
            d_top_ood_features = take 10 (rev (sort_key snd (rev (feature_ood_counts det))))\<rparr>)"

text \<open>\<open>update_stats\<close>: bounds without data become infinite.\<close>

definition ood_stats_of :: "flt \<Rightarrow> flt \<Rightarrow> running_stats \<Rightarrow> ood_stats" where
  "ood_stats_of m sd rs =
     \<lparr>o_mean = m, o_std = sd,
      o_min = (case rs_min rs of None \<Rightarrow> MInf | Some x \<Rightarrow> x), o_max = (case rs_max rs of None \<Rightarrow> PInf | Some x \<Rightarrow> x),
      o_p01 = m - Fin 2.33 * sd, o_p05 = m - Fin 1.645 * sd,
      o_p95 = m + Fin 1.645 * sd, o_p99 = m + Fin 2.33 * sd\<rparr>"

fun update_table :: "(string \<times> running_stats) list \<Rightarrow> ood_detector \<Rightarrow> (ood_detector, unit) outcome" where
  "update_table [] det = (det, Inr ())"
| "update_table ((name, rs) # rest) det =
     (case (rs_mean rs, rs_std rs) of
        (Some m, Some sd) \<Rightarrow> update_table rest (det\<lparr>ood_table := AList.update name (ood_stats_of m sd rs) (ood_table det)\<rparr>)
      | _ \<Rightarrow> (det, Inl TypeError))"

definition update_stats :: "feature_stats \<Rightarrow> ood_detector \<Rightarrow> (ood_detector, unit) outcome" where
  "update_stats fs det = update_table (stats_of_feature fs) det"

definition reset_diagnostics :: "ood_detector \<Rightarrow> ood_detector" where
  "reset_diagnostics det = det\<lparr>total_checks := 0, extreme_checks := 0, normal_checks := 0, feature_ood_counts := []\<rparr>"

subsection \<open>When a sample is flagged\<close>

lemma extrapolation_features_iff:
  "extrapolation_features st s \<noteq> [] \<longleftrightarrow> (\<exists>(f, v) \<in> set s. \<exists>o'. map_of st f = Some o' \<and> extrapolates o' v)"
  by (induction st s rule: extrapolation_features.induct) (auto split: option.splits)

lemma check_sample_action:
  "action (snd (check_sample s det)) = FALLBACK \<longleftrightarrow>
     (\<exists>(f, v) \<in> set s. \<exists>o'. map_of (ood_table det) f = Some o' \<and> extrapolates o' v)"
  by (simp add: check_sample_def Let_def extrapolation_features_iff)

text \<open>Refreshing from statistics that have data stores each feature's bounds.\<close>

lemma update_table_spec:
  assumes "distinct (map fst st)" "\<forall>(f, rs) \<in> set st. rs_mean rs \<noteq> None \<and> rs_std rs \<noteq> None"
  shows "\<exists>det'. update_table st det = (det', Inr ()) \<and>
     (\<forall>f. map_of (ood_table det') f =
        (case map_of st f of
           None \<Rightarrow> map_of (ood_table det) f
         | Some rs \<Rightarrow> Some (ood_stats_of (the (rs_mean rs)) (the (rs_std rs)) rs)))"
  using assms
proof (induction st arbitrary: det)
  case (Cons p st)
  obtain f rs where p: "p = (f, rs)"
    by (cases p)
  obtain m sd where rs: "rs_mean rs = Some m" "rs_std rs = Some sd"
    using Cons.prems(2) p by auto
  let ?det = "det\<lparr>ood_table := AList.update f (ood_stats_of m sd rs) (ood_table det)\<rparr>"
  obtain det' where "update_table st ?det = (det', Inr ())"
    "\<forall>g. map_of (ood_table det') g = (case map_of st g of None \<Rightarrow> map_of (ood_table ?det) g
       | Some rs \<Rightarrow> Some (ood_stats_of (the (rs_mean rs)) (the (rs_std rs)) rs))"
    using Cons.IH [of ?det] Cons.prems by auto
  moreover have "map_of st f = None"
    using Cons.prems(1) p by (simp add: map_of_eq_None_iff)
  ultimately show ?case
    using p rs by (auto simp: update_conv' split: option.split)
qed simp

lemma stats_map_of: "f \<in> set names \<Longrightarrow> map_of (map (\<lambda>f. (f, g f)) names) f = Some (g f)"
  by (induction names) auto

lemma extrapolates_data:
  assumes "xs \<noteq> []"
  shows "extrapolates (ood_stats_of m sd (replace_stats_from_data (map Fin xs) (RunningStats f))) (Fin v) \<longleftrightarrow>
    Min (set xs) \<noteq> Max (set xs) \<and> (v < Min (set xs) \<or> v > Max (set xs))"
  by (simp add: extrapolates_def ood_stats_of_def replace_stats_Fin [OF assms] stats_of_def)

subsection \<open>Properties\<close>

text \<open>
  C32. After the detector is refreshed from the statistics of the training data, a finite sample is
  sent to the fallback exactly when some feature lies outside the range of that feature's training
  data (features constant in training aside): values seen in training are never flagged.
\<close>

theorem ood_flags_exactly_outside_training_range:
  assumes "distinct names" "\<forall>f \<in> set names. data f \<noteq> []" "set feats \<subseteq> set names"
    and "stats_of_feature fs = map (\<lambda>f. (f, replace_stats_from_data (map Fin (data f)) (RunningStats f))) names"
  shows "\<exists>det'. update_stats fs det = (det', Inr ()) \<and>
     (action (snd (check_sample (map (\<lambda>f. (f, Fin (val f))) feats) det')) = FALLBACK \<longleftrightarrow>
      (\<exists>f \<in> set feats. Min (set (data f)) \<noteq> Max (set (data f)) \<and>
         (val f < Min (set (data f)) \<or> val f > Max (set (data f)))))"
proof -
  let ?rs = "\<lambda>f. replace_stats_from_data (map Fin (data f)) (RunningStats f)"
  let ?st = "map (\<lambda>f. (f, ?rs f)) names"
  have full: "rs_mean (?rs f) \<noteq> None \<and> rs_std (?rs f) \<noteq> None" if "f \<in> set names" for f
    using assms(2) that by (simp add: replace_stats_Fin stats_of_def)
  obtain det' where det': "update_table ?st det = (det', Inr ())"
    "\<And>f. map_of (ood_table det') f = (case map_of ?st f of None \<Rightarrow> map_of (ood_table det) f
       | Some rs \<Rightarrow> Some (ood_stats_of (the (rs_mean rs)) (the (rs_std rs)) rs))"
    using update_table_spec [of ?st det] assms(1) full by (auto simp: comp_def)
  have "(\<exists>o'. map_of (ood_table det') f = Some o' \<and> extrapolates o' (Fin (val f))) \<longleftrightarrow>
      Min (set (data f)) \<noteq> Max (set (data f)) \<and> (val f < Min (set (data f)) \<or> val f > Max (set (data f)))"
    if "f \<in> set feats" for f
    using that assms(2,3) det'(2) [of f] by (simp add: stats_map_of subsetD extrapolates_data)
  then have "action (snd (check_sample (map (\<lambda>f. (f, Fin (val f))) feats) det')) = FALLBACK \<longleftrightarrow>
      (\<exists>f \<in> set feats. Min (set (data f)) \<noteq> Max (set (data f)) \<and>
         (val f < Min (set (data f)) \<or> val f > Max (set (data f))))"
    by (simp add: check_sample_action cong: bex_cong)
  then show ?thesis
    using det'(1) assms(4) by (simp add: update_stats_def)
qed

theorem ood_flags_exactly_outside_training_range_witness:
  "\<exists>det'. update_stats
      \<lparr>stats_of_feature = map (\<lambda>f. (f, replace_stats_from_data (map Fin [10, 20]) (RunningStats f))) [''input_tokens''],
       FEATURES_NORMALIZED = [], NUM_FEATURES_NORMALIZED = 0, TOTAL_FEATURES = 1\<rparr> (PerSampleOODDetector [])
       = (det', Inr ()) \<and>
     (action (snd (check_sample (map (\<lambda>f. (f, Fin 25)) [''input_tokens'']) det')) = FALLBACK \<longleftrightarrow>
      (\<exists>f \<in> set [''input_tokens'']. Min (set [10, 20 :: real]) \<noteq> Max (set [10, 20]) \<and>
         (25 < Min (set [10, 20 :: real]) \<or> 25 > Max (set [10, 20 :: real]))))"
  by (rule ood_flags_exactly_outside_training_range [where names = "[''input_tokens'']" and data = "\<lambda>_. [10, 20]" and val = "\<lambda>_. 25"]) simp_all

end
