(* ===== verification/Infer_Routing.thy ===== *)
theory Infer_Routing
  imports Prefix_Groups OOD_Detector Py_Text
begin

text \<open>
  The routing decision of \<open>handle_infer\<close> (\<open>routing_agent_service.py\<close>): the per-sample OOD check, the
  raw features taken before normalisation, the restriction of the model's choice to the candidate
  pods of a prefix group, the mapping to a pod address, the tie-break among near-best pods and the
  fallback codes of the response. The prediction of the model is an argument; \<open>choice\<close> stands for
  \<open>np.random.choice\<close>. The preprocessed request is a single row of numbers.
\<close>

subsection \<open>Configuration and data\<close>

record infer_config =
  CANDIDATE_K :: int
  GPU_KV_SATURATION_THRESHOLD :: flt
  PREFIX_SHARING_MIN_BENEFIT_THRESHOLD :: flt
  ENABLE_FALLBACK :: bool
  REWARD_SIMILARITY_THRESHOLD :: real
  LOAD_PRETRAINED_MODEL :: int
  RETRAIN_AT_STARTUP :: bool
  NORMALIZATION_MODE :: string

definition ENABLE_PREFIX_FILTERING :: "infer_config \<Rightarrow> bool" where
  "ENABLE_PREFIX_FILTERING cfg = (CANDIDATE_K cfg \<noteq> 0)"

definition DYNAMIC_K :: "infer_config \<Rightarrow> bool" where
  "DYNAMIC_K cfg = (CANDIDATE_K cfg = - 99)"

definition FIXED_RANGE_BOUNDS :: "(string \<times> real) list" where
  "FIXED_RANGE_BOUNDS =
     [(''input_tokens'', 30000), (''output_tokens'', 2048), (''total_tokens'', 32048), (''gpu_kv_cache'', 1),
      (''kv_hit_ratio'', 100), (''waiting_requests'', 50), (''running_requests'', 100),
      (''prefill_tokens'', 100000), (''decode_tokens'', 5000), (''inflight_requests'', 50),
      (''inflight_prefill_requests'', 30), (''inflight_decode_requests'', 30), (''cpu_kv_cache'', 1),
      (''kv_hit_ratio_fresh'', 100)]"

definition fixed_range_stats :: "string \<Rightarrow> real \<Rightarrow> running_stats" where
  "fixed_range_stats name practical_max =
     \<lparr>rs_count = 1, rs_mean = Some (Fin 0), rs_sum_sq_diff = Some (Fin 0), rs_std = Some (Fin practical_max),
      rs_min = Some (Fin 0), rs_max = Some (Fin practical_max), rs_feature_names = name\<rparr>"

definition apply_fixed_range_normalization :: "feature_stats \<Rightarrow> feature_stats" where
  "apply_fixed_range_normalization fs =
     fold (\<lambda>(name, m). put_stats name (fixed_range_stats name m)) FIXED_RANGE_BOUNDS fs"

subsection \<open>Features of the request\<close>

definition OOD_POD_FEATURES :: "string list" where
  "OOD_POD_FEATURES =
     [''decode_tokens'', ''gpu_kv_cache'', ''inflight_requests'', ''kv_hit_ratio'', ''prefill_tokens'',
      ''running_requests'', ''waiting_requests'', ''inflight_prefill_requests'', ''inflight_decode_requests'']"

definition pod_column :: "string \<Rightarrow> string \<Rightarrow> string" where
  "pod_column pod feat = pod @ ''-'' @ feat"

definition request_ood_features :: "row \<Rightarrow> sample" where
  "request_ood_features r = (case r ''input_tokens'' of None \<Rightarrow> [] | Some x \<Rightarrow> [(''input_tokens'', x)])"

definition pod_ood_features :: "row \<Rightarrow> string list \<Rightarrow> sample" where
  "pod_ood_features r pods =
     (case pods of
        [] \<Rightarrow> []
      | p # _ \<Rightarrow>
          concat (map (\<lambda>f. case r (pod_column p f) of None \<Rightarrow> [] | Some x \<Rightarrow> [(f, x)]) OOD_POD_FEATURES))"

text \<open>The detector may be missing; the flag is the initial value of \<open>ood_fallback\<close>.\<close>

definition ood_check ::
  "infer_config \<Rightarrow> row \<Rightarrow> string list \<Rightarrow> ood_detector option \<Rightarrow> ood_detector option \<times> nat" where
  "ood_check cfg r pods det =
     (case det of
        None \<Rightarrow> (None, 0)
      | Some d \<Rightarrow>
          let (d', res) = check_combined (request_ood_features r) (pod_ood_features r pods) d in
          (Some d', if ENABLE_FALLBACK cfg \<and> action res = FALLBACK then 1 else 0))"

definition per_pod :: "row \<Rightarrow> string \<Rightarrow> string list \<Rightarrow> (string \<times> flt) list" where
  "per_pod r feat pods = fold (\<lambda>p. AList.update p (row_get r (pod_column p feat) (Fin 0))) pods []"

record lmetric_features =
  lm_kv_hit_per_pod :: "(string \<times> flt) list"
  lm_running_per_pod :: "(string \<times> flt) list"
  lm_waiting_per_pod :: "(string \<times> flt) list"
  lm_input_tokens :: flt

definition raw_features_for_lmetric :: "row \<Rightarrow> string list \<Rightarrow> lmetric_features" where
  "raw_features_for_lmetric r pods =
     \<lparr>lm_kv_hit_per_pod = per_pod r ''kv_hit_ratio'' pods, lm_running_per_pod = per_pod r ''running_requests'' pods,
      lm_waiting_per_pod = per_pod r ''waiting_requests'' pods, lm_input_tokens = row_get r ''input_tokens'' (Fin 0)\<rparr>"

text \<open>The hash of the matched prefix, read from the log message; 0 when it cannot be read.\<close>

definition prefix_hash_of :: "string \<Rightarrow> int" where
  "prefix_hash_of log_message =
     (case str_index ''@hashOfMatchedPrefix@'' log_message of
        None \<Rightarrow> 0
      | Some i \<Rightarrow>
          let rest = drop (i + length ''@hashOfMatchedPrefix@'') log_message in
          (case str_index ''@'' rest of
             None \<Rightarrow> 0
           | Some j \<Rightarrow> (case py_int (take j rest) of None \<Rightarrow> 0 | Some h \<Rightarrow> h)))"

record filter_features =
  ff_gpu_kv_per_pod :: "(string \<times> flt) list"
  ff_kv_hit_per_pod :: "(string \<times> flt) list"
  ff_input_tokens :: flt
  ff_prefix_hash :: int

definition raw_features_for_filtering :: "string \<Rightarrow> row \<Rightarrow> string list \<Rightarrow> filter_features" where
  "raw_features_for_filtering log_message r pods =
     \<lparr>ff_gpu_kv_per_pod = per_pod r ''gpu_kv_cache'' pods, ff_kv_hit_per_pod = per_pod r ''kv_hit_ratio'' pods,
      ff_input_tokens = row_get r ''input_tokens'' (Fin 0), ff_prefix_hash = prefix_hash_of log_message\<rparr>"

subsection \<open>Prefix filtering\<close>

record infer_result =
  selected_pod_index :: nat
  predicted_rewards :: "flt list"
  explored :: bool
  chosen_pod_predicted_reward :: flt
  prefix_filtered :: bool
  prefix_filter_skipped_full_k :: bool

definition cluster_stressed :: "infer_config \<Rightarrow> filter_features \<Rightarrow> bool" where
  "cluster_stressed cfg ff =
     (let gpu = map snd (ff_gpu_kv_per_pod ff); hits = map snd (ff_kv_hit_per_pod ff);
          cluster_gpu_kv = (if gpu = [] then Fin 0 else fmean gpu);
          best_kv_hit = (if hits = [] then Fin 0 else py_max_by (\<lambda>x. x) hits);
          prefix_benefit = best_kv_hit / Fin 100 * ff_input_tokens ff
      in cluster_gpu_kv > GPU_KV_SATURATION_THRESHOLD cfg
         \<and> prefix_benefit > PREFIX_SHARING_MIN_BENEFIT_THRESHOLD cfg \<and> ff_prefix_hash ff \<noteq> 0)"

definition group_size ::
  "infer_config \<Rightarrow> int \<Rightarrow> prefix_manager option \<Rightarrow> prefix_manager option \<times> int" where
  "group_size cfg h pm =
     (case pm of
        Some m \<Rightarrow>
          if DYNAMIC_K cfg then let m' = record_filtered_request h m in (Some m', get_k h m') else (pm, CANDIDATE_K cfg)
      | None \<Rightarrow> (None, CANDIDATE_K cfg))"

text \<open>
  The choice among the candidates. Any exception (no candidate, rewards of the wrong length, an
  index outside the pods) is caught and leaves the result as it is.
\<close>

definition choose_candidate :: "string list \<Rightarrow> string list \<Rightarrow> infer_result \<Rightarrow> infer_result" where
  "choose_candidate pods candidates result =
     (let rewards = predicted_rewards result;
          idxs = map (\<lambda>p. list_index p pods) candidates
      in if idxs = [] \<or> (\<exists>i \<in> set idxs. length rewards \<le> i) then result
         else if selected_pod_index result \<in> set idxs \<or> length pods \<le> selected_pod_index result then result
         else result\<lparr>selected_pod_index := py_max_by (\<lambda>i. rewards ! i) idxs, prefix_filtered := True\<rparr>)"

definition apply_prefix_filter ::
  "infer_config \<Rightarrow> filter_features \<Rightarrow> string list \<Rightarrow> prefix_manager option \<Rightarrow> infer_result \<Rightarrow>
   (prefix_manager option \<times> infer_result) option" where
  "apply_prefix_filter cfg ff pods pm result0 =
     (let result = result0\<lparr>prefix_filtered := False\<rparr> in
      if \<not> ENABLE_PREFIX_FILTERING cfg \<or> explored result \<or> \<not> cluster_stressed cfg ff then Some (pm, result)
      else
        let (pm', k) = group_size cfg (ff_prefix_hash ff) pm in
        case select_candidate_pods (ff_prefix_hash ff) pods k of
          None \<Rightarrow> None
        | Some candidates \<Rightarrow>
            Some (pm', if k \<ge> int (length pods) then result\<lparr>prefix_filter_skipped_full_k := True\<rparr>
                       else choose_candidate pods candidates result))"

subsection \<open>The response\<close>

record infer_response =
  selected_pod :: string
  selected_pod_generalpodid :: string
  exploration :: bool
  resp_chosen_reward :: flt
  ood_fallback :: nat
  fallback_reason :: "string option"

definition initial_response ::
  "(string \<rightharpoonup> string) \<Rightarrow> string list \<Rightarrow> nat \<Rightarrow> infer_result \<Rightarrow> py_error + infer_response" where
  "initial_response pod_ip pods use_fallback result =
     (if length pods \<le> selected_pod_index result then Inl AssertionError
      else let pod = pods ! selected_pod_index result in
        case pod_ip pod of
          None \<Rightarrow> Inl AssertionError
        | Some ip \<Rightarrow>
            Inr \<lparr>selected_pod = ip, selected_pod_generalpodid = pod, exploration = explored result,
                 resp_chosen_reward = chosen_pod_predicted_reward result, ood_fallback = use_fallback,
                 fallback_reason = None\<rparr>)"

definition near_best :: "infer_config \<Rightarrow> flt list \<Rightarrow> nat list" where
  "near_best cfg rewards =
     (let threshold = np_max rewards * Fin (1 - REWARD_SIMILARITY_THRESHOLD cfg) in
      filter (\<lambda>i. threshold \<le> rewards ! i) [0..<length rewards])"

definition tiebreak ::
  "infer_config \<Rightarrow> (nat list \<Rightarrow> nat) \<Rightarrow> (string \<rightharpoonup> string) \<Rightarrow> string list \<Rightarrow> flt list \<Rightarrow> infer_response \<Rightarrow>
   py_error + infer_response" where
  "tiebreak cfg choice pod_ip pods rewards resp =
     (if length rewards \<le> 1 \<or> length (near_best cfg rewards) \<le> 1 then Inr resp
      else let near = near_best cfg rewards; pick = choice near in
        if length pods \<le> pick then Inl IndexError
        else case pod_ip (pods ! pick) of
          None \<Rightarrow> Inl KeyError
        | Some ip \<Rightarrow>
            Inr (resp\<lparr>selected_pod := ip, selected_pod_generalpodid := pods ! pick,
                      resp_chosen_reward := rewards ! pick, ood_fallback := 3,
                      fallback_reason := Some (''reward_tiebreak_picked_pod'' @ nat_str pick @ ''_from_''
                        @ nat_str (length near) @ ''_candidates'')\<rparr>))"

definition untrained_fallback :: "infer_config \<Rightarrow> nat \<Rightarrow> infer_response \<Rightarrow> infer_response" where
  "untrained_fallback cfg num_trains resp =
     (if LOAD_PRETRAINED_MODEL cfg = 0 \<and> num_trains = 0
      then resp\<lparr>ood_fallback := 2, fallback_reason := Some ''model_not_trained''\<rparr>
      else if RETRAIN_AT_STARTUP cfg \<and> num_trains = 0
      then resp\<lparr>ood_fallback := 2, fallback_reason := Some ''retrain_at_startup_pending''\<rparr>
      else if NORMALIZATION_MODE cfg = ''fixed_range'' \<and> LOAD_PRETRAINED_MODEL cfg = 1 \<and> num_trains = 0
      then resp\<lparr>ood_fallback := 2, fallback_reason := Some ''normalization_mode_mismatch_until_retrained''\<rparr>
      else resp)"

definition finish_infer ::
  "infer_config \<Rightarrow> (nat list \<Rightarrow> nat) \<Rightarrow> (string \<rightharpoonup> string) \<Rightarrow> string \<Rightarrow> nat \<Rightarrow> string list \<Rightarrow> nat \<Rightarrow> infer_result \<Rightarrow>
   py_error + infer_response" where
  "finish_infer cfg choice pod_ip subAlgorithm num_trains pods use_fallback result =
     (case initial_response pod_ip pods use_fallback result of
        Inl e \<Rightarrow> Inl e
      | Inr resp \<Rightarrow>
          if subAlgorithm = ''lmetric'' then Inr resp
          else map_sum id (untrained_fallback cfg num_trains)
                 (tiebreak cfg choice pod_ip pods (predicted_rewards result) resp))"

text \<open>The whole decision: an exception is answered with status 500.\<close>

record infer_state =
  st_detector :: "ood_detector option"
  st_manager :: "prefix_manager option"

definition decide_pod ::
  "infer_config \<Rightarrow> (nat list \<Rightarrow> nat) \<Rightarrow> (string \<rightharpoonup> string) \<Rightarrow> string \<Rightarrow> nat \<Rightarrow> string \<Rightarrow> row \<Rightarrow> string list \<Rightarrow>
   infer_result \<Rightarrow> infer_state \<Rightarrow> (infer_state \<times> nat \<times> infer_response option) option" where
  "decide_pod cfg choice pod_ip subAlgorithm num_trains log_message r pods result st =
     (let (det, use_fallback) = ood_check cfg r pods (st_detector st);
          lm = raw_features_for_lmetric r pods;
          ff = raw_features_for_filtering log_message r pods;
          pm = (if DYNAMIC_K cfg
                then map_option (update_pod_states (Some (map_of (ff_gpu_kv_per_pod ff)))
                                   (Some (map_of (lm_waiting_per_pod lm))) pods) (st_manager st)
                else st_manager st)
      in case apply_prefix_filter cfg ff pods pm result of
           None \<Rightarrow> None
         | Some (pm', result') \<Rightarrow>
             Some (\<lparr>st_detector = det, st_manager = pm'\<rparr>,
               case finish_infer cfg choice pod_ip subAlgorithm num_trains pods use_fallback result' of
                 Inl e \<Rightarrow> (500, None)
               | Inr resp \<Rightarrow> (200, Some resp)))"

subsection \<open>Choosing a candidate\<close>

text \<open>The pod a non-empty list of candidates leads to, and its reward.\<close>

lemma choose_candidate_spec:
  fixes res :: infer_result
  assumes "candidates \<noteq> []" "set candidates \<subseteq> set pods" "selected_pod_index res < length pods"
    and "length (predicted_rewards res) = length pods" "list_all is_fin (predicted_rewards res)"
  defines "res' \<equiv> choose_candidate pods candidates res"
  shows "selected_pod_index res' < length pods" "pods ! selected_pod_index res' \<in> set candidates"
    "selected_pod_index res' \<noteq> selected_pod_index res \<Longrightarrow> c \<in> set candidates \<Longrightarrow>
       predicted_rewards res ! list_index c pods \<le> predicted_rewards res ! selected_pod_index res'"
proof -
  let ?r = "predicted_rewards res" and ?idxs = "map (\<lambda>p. list_index p pods) candidates"
  obtain rs where rs: "?r = map Fin rs"
    using is_fin_map [OF assms(5)] by blast
  have idx: "i < length pods \<and> pods ! i \<in> set candidates" if "i \<in> set ?idxs" for i
  proof -
    obtain p where "p \<in> set candidates" "i = list_index p pods"
      using \<open>i \<in> set ?idxs\<close> by auto
    then show ?thesis
      using list_index_nth [of p pods] assms(2) by auto
  qed
  have fin: "\<forall>i \<in> set ?idxs. ?r ! i = Fin (rs ! i)"
    using idx rs assms(4) by (auto simp: nth_map)
  have best: "py_max_by (\<lambda>i. ?r ! i) ?idxs \<in> set ?idxs" "\<forall>i \<in> set ?idxs. ?r ! i \<le> ?r ! py_max_by (\<lambda>i. ?r ! i) ?idxs"
    using py_max_by_Fin [OF _ fin] assms(1) by simp_all
  have short: "\<not> (\<exists>i \<in> set ?idxs. length ?r \<le> i)"
    using idx assms(4) by fastforce
  have res': "selected_pod_index res' =
      (if selected_pod_index res \<in> set ?idxs then selected_pod_index res else py_max_by (\<lambda>i. ?r ! i) ?idxs)"
    using short assms(1,3) by (auto simp: res'_def choose_candidate_def Let_def)
  then show "selected_pod_index res' < length pods" "pods ! selected_pod_index res' \<in> set candidates"
    using idx best(1) assms(3) by (simp_all split: if_splits)
  show "selected_pod_index res' \<noteq> selected_pod_index res \<Longrightarrow> c \<in> set candidates \<Longrightarrow>
       ?r ! list_index c pods \<le> ?r ! selected_pod_index res'"
    using res' best(2) by (auto split: if_splits)
qed

lemma near_best_negative:
  assumes "rs \<noteq> []" "Max (set rs) < 0" "0 < REWARD_SIMILARITY_THRESHOLD cfg"
  shows "near_best cfg (map Fin rs) = []"
proof -
  let ?best = "Max (set rs)" and ?t = "REWARD_SIMILARITY_THRESHOLD cfg"
  have "?best < ?best * (1 - ?t)"
    using assms(2,3) by (simp add: right_diff_distrib mult_neg_pos)
  moreover have "rs ! i \<le> ?best" if "i < length rs" for i
    using that by simp
  ultimately have "\<not> ?best * (1 - ?t) \<le> rs ! i" if "i < length rs" for i
    using that by (meson not_le order_le_less_trans)
  then show ?thesis
    using assms(1) by (auto simp: near_best_def np_max_Fin filter_empty_conv)
qed

lemma near_best_reward:
  assumes "rs \<noteq> []" "i \<in> set (near_best cfg (map Fin rs))"
  shows "i < length rs" "Max (set rs) * (1 - REWARD_SIMILARITY_THRESHOLD cfg) \<le> rs ! i"
  using assms by (auto simp: near_best_def np_max_Fin)

subsection \<open>Properties\<close>


definition stressed_features :: filter_features where
  "stressed_features = \<lparr>ff_gpu_kv_per_pod = [(''a'', Fin 0.9), (''b'', Fin 0.8)],
     ff_kv_hit_per_pod = [(''a'', Fin 50), (''b'', Fin 0)], ff_input_tokens = Fin 1000, ff_prefix_hash = 5\<rparr>"

definition sample_config :: infer_config where
  "sample_config = \<lparr>CANDIDATE_K = 1, GPU_KV_SATURATION_THRESHOLD = Fin 0.5,
     PREFIX_SHARING_MIN_BENEFIT_THRESHOLD = Fin 100, ENABLE_FALLBACK = True, REWARD_SIMILARITY_THRESHOLD = 0.1,
     LOAD_PRETRAINED_MODEL = 1, RETRAIN_AT_STARTUP = False, NORMALIZATION_MODE = ''zscore''\<rparr>"

definition sample_result :: infer_result where
  "sample_result = \<lparr>selected_pod_index = 1, predicted_rewards = [Fin (- 1), Fin (- 2)], explored = False,
     chosen_pod_predicted_reward = Fin (- 2), prefix_filtered = False, prefix_filter_skipped_full_k = False\<rparr>"


text \<open>
  The tie-break picks a pod whose predicted reward is within the similarity threshold of the best
  one, or changes nothing; when every predicted reward is negative it never fires.
\<close>

lemma tiebreak_within_threshold:
  fixes resp :: infer_response
  assumes "rs \<noteq> []" "length pods = length rs" "\<forall>p \<in> set pods. pod_ip p \<noteq> None"
    and "\<And>xs. xs \<noteq> [] \<Longrightarrow> choice xs \<in> set xs" "0 < REWARD_SIMILARITY_THRESHOLD cfg"
  shows "\<exists>resp'. tiebreak cfg choice pod_ip pods (map Fin rs) resp = Inr resp' \<and>
    (resp' = resp \<or>
     0 \<le> Max (set rs) \<and> (\<exists>i < length rs. selected_pod_generalpodid resp' = pods ! i \<and> resp_chosen_reward resp' = Fin (rs ! i) \<and>
        Max (set rs) * (1 - REWARD_SIMILARITY_THRESHOLD cfg) \<le> rs ! i))"
proof (cases "length (map Fin rs) \<le> 1 \<or> length (near_best cfg (map Fin rs)) \<le> 1")
  case True
  then show ?thesis
    by (simp add: tiebreak_def)
next
  case False
  let ?near = "near_best cfg (map Fin rs)"
  have "?near \<noteq> []"
    using False by auto
  then have i: "choice ?near \<in> set ?near" "0 \<le> Max (set rs)"
    using assms(4) near_best_negative [OF assms(1) _ assms(5)] by (blast, force)
  note r = near_best_reward [OF assms(1) i(1)]
  obtain ip where "pod_ip (pods ! choice ?near) = Some ip"
    using assms(2,3) r(1) by fastforce
  then show ?thesis
    using False i r assms(2) by (auto simp: tiebreak_def Let_def intro!: exI [of _ "choice ?near"])
qed

lemma tiebreak_within_threshold_witness:
  "\<exists>resp'. tiebreak sample_config hd (\<lambda>p. Some p) [''a'', ''b''] (map Fin [- 1, - 1])
       \<lparr>selected_pod = ''b'', selected_pod_generalpodid = ''b'', exploration = False, resp_chosen_reward = Fin (- 1),
        ood_fallback = 0, fallback_reason = None\<rparr> = Inr resp' \<and>
    (resp' = \<lparr>selected_pod = ''b'', selected_pod_generalpodid = ''b'', exploration = False, resp_chosen_reward = Fin (- 1),
        ood_fallback = 0, fallback_reason = None\<rparr> \<or>
     0 \<le> Max (set [- 1, - 1 :: real]) \<and> (\<exists>i < length [- 1, - 1 :: real].
        selected_pod_generalpodid resp' = [''a'', ''b''] ! i \<and> resp_chosen_reward resp' = Fin ([- 1, - 1] ! i) \<and>
        Max (set [- 1, - 1]) * (1 - REWARD_SIMILARITY_THRESHOLD sample_config) \<le> [- 1, - 1 :: real] ! i))"
  by (rule tiebreak_within_threshold) (simp_all add: sample_config_def)

end
