(* ===== verification/Training_Data.thy ===== *)
theory Training_Data
  imports Floats "HOL-Library.Multiset" "HOL-Library.Product_Lexorder"
begin

text \<open>
  The training data of the routing agent (\<open>routing_agent_service.py\<close>): the offline and online data
  frames, the flush that appends a batch, the selection of a training set from the new batch, the
  most recent history and the replay buffer, and the eviction of old samples. A frame is its columns
  and rows; a cell missing in a row is NaN. Pandas enters through two parameters, its sort by a
  column and its random sample.
\<close>

subsection \<open>Data frames\<close>

type_synonym trow = "string \<rightharpoonup> flt"

record table =
  tcols :: "string list"
  trows :: "trow list"

definition empty_table :: table where
  "empty_table = \<lparr>tcols = [], trows = []\<rparr>"

definition cell :: "string \<Rightarrow> trow \<Rightarrow> flt" where
  "cell c r = (case r c of None \<Rightarrow> NaN | Some x \<Rightarrow> x)"

definition concat_tables :: "table \<Rightarrow> table \<Rightarrow> table" where
  "concat_tables a b =
     \<lparr>tcols = tcols a @ filter (\<lambda>c. c \<notin> set (tcols a)) (tcols b), trows = trows a @ trows b\<rparr>"

text \<open>
  \<open>sort_values\<close>: the boolean is \<open>na_position='first'\<close>. The law is what the code relies on; the sort
  below is stable, which pandas does not promise.
\<close>

type_synonym sorter = "bool \<Rightarrow> string \<Rightarrow> trow list \<Rightarrow> trow list"

definition cell_le :: "bool \<Rightarrow> flt \<Rightarrow> flt \<Rightarrow> bool" where
  "cell_le na_first x y =
     (if x = NaN then na_first \<or> y = NaN else if y = NaN then \<not> na_first else x \<le> y)"

fun cell_key :: "bool \<Rightarrow> flt \<Rightarrow> int \<times> real" where
  "cell_key na_first NaN = (if na_first then 0 else 4, 0)"
| "cell_key na_first MInf = (1, 0)"
| "cell_key na_first (Fin x) = (2, x)"
| "cell_key na_first PInf = (3, 0)"

definition sort_rows :: sorter where
  "sort_rows na_first c rows = sort_key (\<lambda>r. cell_key na_first (cell c r)) rows"

subsection \<open>Pools\<close>

definition split_new_and_historical :: "table \<Rightarrow> table \<Rightarrow> nat \<Rightarrow> table \<times> table" where
  "split_new_and_historical online offline current_round =
     (if ''_collection_round'' \<in> set (tcols online) \<and> trows online \<noteq> [] then
        let new = (\<lambda>r. Fin (real current_round) \<le> cell ''_collection_round'' r) in
        (online\<lparr>trows := filter new (trows online)\<rparr>,
         concat_tables offline (online\<lparr>trows := filter (\<lambda>r. \<not> new r) (trows online)\<rparr>))
      else (online, concat_tables offline empty_table))"

definition sort_col :: "string list \<Rightarrow> string option" where
  "sort_col cols =
     (if ''_online_seq'' \<in> set cols then Some ''_online_seq''
      else if ''request_start_time'' \<in> set cols then Some ''request_start_time''
      else if ''request_end_time'' \<in> set cols then Some ''request_end_time''
      else None)"

definition sort_table :: "sorter \<Rightarrow> bool \<Rightarrow> table \<Rightarrow> table" where
  "sort_table srt na_first t =
     (case sort_col (tcols t) of None \<Rightarrow> t | Some c \<Rightarrow> t\<lparr>trows := srt na_first c (trows t)\<rparr>)"

definition select_fifo :: "sorter \<Rightarrow> table \<Rightarrow> int \<Rightarrow> table" where
  "select_fifo srt historical fifo_size =
     (if fifo_size \<le> 0 \<or> trows historical = [] then empty_table
      else let s = sort_table srt True historical in
        s\<lparr>trows := last_n (nat (min fifo_size (int (length (trows s))))) (trows s)\<rparr>)"

definition select_replay :: "table option \<Rightarrow> int \<Rightarrow> table" where
  "select_replay buffer max_samples =
     (case buffer of
        None \<Rightarrow> empty_table
      | Some data \<Rightarrow>
          if trows data = [] then empty_table
          else if int (length (trows data)) > max_samples
          then data\<lparr>trows := (if max_samples \<ge> 0 then take (nat max_samples) (trows data)
                              else take (nat (int (length (trows data)) + max_samples)) (trows data))\<rparr>
          else data)"

definition used_ids :: "table \<Rightarrow> flt set" where
  "used_ids t =
     (if trows t \<noteq> [] \<and> ''request_id'' \<in> set (tcols t) then set (map (cell ''request_id'') (trows t)) else {})"

text \<open>\<open>smp\<close> stands for \<open>DataFrame.sample(n, random_state=42)\<close>.\<close>

definition backfill_from_historical ::
  "(nat \<Rightarrow> trow list \<Rightarrow> trow list) \<Rightarrow> table \<Rightarrow> table \<Rightarrow> table \<Rightarrow> int \<Rightarrow> table" where
  "backfill_from_historical smp historical fifo replay needed =
     (if needed \<le> 0 \<or> trows historical = [] then empty_table
      else
        let candidates =
          (if ''request_id'' \<in> set (tcols historical)
           then filter (\<lambda>r. cell ''request_id'' r \<notin> used_ids fifo \<union> used_ids replay) (trows historical)
           else trows historical)
        in if candidates = [] then empty_table
           else historical\<lparr>trows := smp (nat (min needed (int (length candidates)))) candidates\<rparr>)"

text \<open>\<open>drop_duplicates(subset=['request_id'])\<close> keeps the first row of every identifier.\<close>

fun first_by_id :: "flt set \<Rightarrow> trow list \<Rightarrow> trow list" where
  "first_by_id seen [] = []"
| "first_by_id seen (r # rs) =
     (let i = cell ''request_id'' r in
      if i \<in> seen then first_by_id seen rs else r # first_by_id (insert i seen) rs)"

definition drop_duplicate_ids :: "table \<Rightarrow> table" where
  "drop_duplicate_ids t =
     (if ''request_id'' \<in> set (tcols t) then t\<lparr>trows := first_by_id {} (trows t)\<rparr> else t)"

subsection \<open>The agent's data\<close>

record train_config =
  ENABLE_ONLINE_LEARNING :: bool
  TTFT_THRESHOLD :: "flt option"
  FIFO_SIZE :: int
  REPLAY_SIZE :: int
  MAX_TOTAL_DATA :: int
  MAX_NUM_ONLINE_TRAINS :: int
  MIN_NUM_TRAINING_DATA :: int
  MIN_NUM_UPDATE_DATA :: int
  CL_MODE :: bool

record train_state =
  OFFLINE_DF :: table
  ONLINE_DF :: table
  OFFLINE_DATA_SIZE :: nat
  ONLINE_SEQ :: nat
  NUM_TRAINS :: nat
  NUM_FLUSH :: nat
  TOTAL_NUM_DATA :: int
  NUM_NEW_DATA :: int
  TOTAL_NUM_NEW_DATA :: int
  TRAINING_RIGHT_NOW :: bool
  MODEL_UPDATED :: bool

definition set_column :: "string \<Rightarrow> flt list \<Rightarrow> table \<Rightarrow> table" where
  "set_column c values t =
     \<lparr>tcols = (if c \<in> set (tcols t) then tcols t else tcols t @ [c]),
      trows = map2 (\<lambda>r v. r(c \<mapsto> v)) (trows t) values\<rparr>"

definition ttft_filter :: "flt option \<Rightarrow> table \<Rightarrow> table" where
  "ttft_filter threshold t =
     (case threshold of
        Some x \<Rightarrow> if ''ttft'' \<in> set (tcols t) then t\<lparr>trows := filter (\<lambda>r. cell ''ttft'' r \<le> x) (trows t)\<rparr> else t
      | None \<Rightarrow> t)"

definition append_online :: "train_config \<Rightarrow> table \<Rightarrow> train_state \<Rightarrow> train_state" where
  "append_online cfg processed st =
     (let batch = ttft_filter (TTFT_THRESHOLD cfg) processed;
          n = length (trows batch);
          (batch1, seq) =
            (if ''_online_seq'' \<in> set (tcols batch) then (batch, ONLINE_SEQ st)
             else (set_column ''_online_seq'' (map (\<lambda>i. Fin (real i)) [ONLINE_SEQ st..<ONLINE_SEQ st + n]) batch,
                   ONLINE_SEQ st + n));
          batch2 = set_column ''_collection_round'' (replicate n (Fin (real (NUM_TRAINS st)))) batch1
      in st\<lparr>ONLINE_DF := concat_tables (ONLINE_DF st) batch2, ONLINE_SEQ := seq\<rparr>)"

text \<open>A flush of \<open>entries\<close> log lines; preprocessing them gives a frame or raises.\<close>

definition handle_flush ::
  "train_config \<Rightarrow> nat \<Rightarrow> py_error + table \<Rightarrow> train_state \<Rightarrow> train_state \<times> nat" where
  "handle_flush cfg entries processed st0 =
     (let st = st0\<lparr>NUM_FLUSH := NUM_FLUSH st0 + 1\<rparr> in
      case processed of
        Inl e \<Rightarrow> (st, 500)
      | Inr df \<Rightarrow>
          let st1 = (if ENABLE_ONLINE_LEARNING cfg then append_online cfg df st else st) in
          (st1\<lparr>TOTAL_NUM_DATA := TOTAL_NUM_DATA st1 + int entries, NUM_NEW_DATA := NUM_NEW_DATA st1 + int entries,
               TOTAL_NUM_NEW_DATA := TOTAL_NUM_NEW_DATA st1 + int entries\<rparr>, 200))"

text \<open>
  The eviction works on copies taken earlier and writes them back over the global frames, whatever
  these have become in the meantime.
\<close>

definition evict_global_data :: "sorter \<Rightarrow> table \<Rightarrow> table \<Rightarrow> int \<Rightarrow> train_state \<Rightarrow> train_state" where
  "evict_global_data srt offline online max_keep st =
     (let total = int (length (trows offline) + length (trows online)) in
      if total \<le> max_keep then st
      else
        let overflow = total - max_keep;
            offline_remove = min overflow (int (length (trows offline)));
            offline' = (if offline_remove > 0 then offline\<lparr>trows := drop (nat offline_remove) (trows offline)\<rparr> else offline);
            overflow' = (if offline_remove > 0 then overflow - offline_remove else overflow);
            online' =
              (if overflow' > 0 \<and> trows online \<noteq> [] then
                 let s = sort_table srt False online in s\<lparr>trows := drop (nat overflow') (trows s)\<rparr>
               else online)
        in st\<lparr>OFFLINE_DF := offline', ONLINE_DF := online', OFFLINE_DATA_SIZE := length (trows offline')\<rparr>)"

definition fifo_trim_col :: "string list \<Rightarrow> string option" where
  "fifo_trim_col cols =
     (if ''request_start_time'' \<in> set cols then Some ''request_start_time''
      else if ''request_end_time'' \<in> set cols then Some ''request_end_time''
      else if ''_online_seq'' \<in> set cols then Some ''_online_seq''
      else None)"

text \<open>The trimming used when neither a FIFO nor a replay pool is configured, and its training set.\<close>

definition trim_to_limit :: "sorter \<Rightarrow> table \<Rightarrow> table \<Rightarrow> int \<Rightarrow> train_state \<Rightarrow> train_state \<times> table" where
  "trim_to_limit srt offline online limit st =
     (let total = int (length (trows offline) + length (trows online)) in
      if total \<le> limit then (st, concat_tables offline online)
      else
        let overflow = total - limit;
            offline_remove = min overflow (int (length (trows offline)));
            offline' = (if offline_remove > 0 then offline\<lparr>trows := drop (nat offline_remove) (trows offline)\<rparr> else offline);
            overflow' = (if offline_remove > 0 then overflow - offline_remove else overflow);
            online' =
              (if overflow' > 0 \<and> trows online \<noteq> [] then
                 let s = (case fifo_trim_col (tcols online) of
                            None \<Rightarrow> online
                          | Some c \<Rightarrow> online\<lparr>trows := srt False c (trows online)\<rparr>)
                 in s\<lparr>trows := drop (nat overflow') (trows s)\<rparr>
               else online)
        in (st\<lparr>OFFLINE_DF := offline', ONLINE_DF := online', OFFLINE_DATA_SIZE := length (trows offline')\<rparr>,
            concat_tables offline' online'))"

definition two_pool_selection ::
  "train_config \<Rightarrow> sorter \<Rightarrow> (nat \<Rightarrow> trow list \<Rightarrow> trow list) \<Rightarrow> table option \<Rightarrow> table \<Rightarrow> table \<Rightarrow> train_state \<Rightarrow>
   train_state \<times> table" where
  "two_pool_selection cfg srt smp buffer offline online st =
     (let target_pool = FIFO_SIZE cfg + REPLAY_SIZE cfg;
          (new_batch, historical) = split_new_and_historical online offline (NUM_TRAINS st);
          fifo = select_fifo srt historical (FIFO_SIZE cfg);
          needed = target_pool - int (length (trows fifo));
          replay = select_replay buffer needed;
          shortfall = needed - int (length (trows replay));
          replay' = (if shortfall > 0 \<and> trows historical \<noteq> []
                     then concat_tables replay (backfill_from_historical smp historical fifo replay shortfall)
                     else replay);
          training = drop_duplicate_ids (concat_tables (concat_tables new_batch fifo) replay')
      in (evict_global_data srt offline online target_pool st, training))"

definition select_training_data ::
  "train_config \<Rightarrow> sorter \<Rightarrow> (nat \<Rightarrow> trow list \<Rightarrow> trow list) \<Rightarrow> table option \<Rightarrow> table \<Rightarrow> table \<Rightarrow> train_state \<Rightarrow>
   train_state \<times> table" where
  "select_training_data cfg srt smp buffer offline online st =
     (if CL_MODE cfg \<and> NUM_TRAINS st > 0 \<and> FIFO_SIZE cfg = 0 \<and> REPLAY_SIZE cfg = 0
      then (st, drop_duplicate_ids (fst (split_new_and_historical online offline (NUM_TRAINS st))))
      else if FIFO_SIZE cfg > 0 \<or> REPLAY_SIZE cfg > 0 then two_pool_selection cfg srt smp buffer offline online st
      else trim_to_limit srt offline online (MAX_TOTAL_DATA cfg) st)"

text \<open>The gate of a training round, its start and its successful end.\<close>

definition may_train :: "train_config \<Rightarrow> train_state \<Rightarrow> bool" where
  "may_train cfg st \<longleftrightarrow>
     \<not> (MAX_NUM_ONLINE_TRAINS cfg \<ge> 0 \<and> int (NUM_TRAINS st) \<ge> MAX_NUM_ONLINE_TRAINS cfg) \<and>
     \<not> TRAINING_RIGHT_NOW st \<and> \<not> TOTAL_NUM_NEW_DATA st < MIN_NUM_TRAINING_DATA cfg \<and>
     \<not> NUM_NEW_DATA st < MIN_NUM_UPDATE_DATA cfg"

definition begin_training :: "train_config \<Rightarrow> train_state \<Rightarrow> train_state \<times> (table \<times> table) option" where
  "begin_training cfg st =
     (if \<not> may_train cfg st then (st, None)
      else if trows (OFFLINE_DF st) = [] \<and> trows (ONLINE_DF st) = [] then (st\<lparr>TRAINING_RIGHT_NOW := False\<rparr>, None)
      else (st\<lparr>TRAINING_RIGHT_NOW := True\<rparr>, Some (OFFLINE_DF st, ONLINE_DF st)))"

text \<open>Selecting the training set; an empty one ends the round.\<close>

definition prepare_training ::
  "train_config \<Rightarrow> sorter \<Rightarrow> (nat \<Rightarrow> trow list \<Rightarrow> trow list) \<Rightarrow> table option \<Rightarrow> table \<Rightarrow> table \<Rightarrow> train_state \<Rightarrow>
   train_state \<times> table option" where
  "prepare_training cfg srt smp buffer offline online st =
     (let (st', training) = select_training_data cfg srt smp buffer offline online st in
      if trows training = [] then (st'\<lparr>TRAINING_RIGHT_NOW := False\<rparr>, None) else (st', Some training))"

definition finish_training :: "train_state \<Rightarrow> train_state" where
  "finish_training st =
     st\<lparr>MODEL_UPDATED := True, TRAINING_RIGHT_NOW := False, NUM_TRAINS := NUM_TRAINS st + 1, NUM_NEW_DATA := 0\<rparr>"

subsection \<open>What the pools rely on\<close>

text \<open>The contract of \<open>sort_values\<close>: a permutation of the rows, ordered by the column.\<close>

locale frame_sort =
  fixes srt :: sorter
  assumes srt_perm: "mset (srt na_first c rows) = mset rows"
    and srt_sorted: "sorted_wrt (\<lambda>a b. cell_le na_first (cell c a) (cell c b)) (srt na_first c rows)"
begin

lemma sort_table_perm: "mset (trows (sort_table srt b t)) = mset (trows t)"
  by (simp add: sort_table_def srt_perm split: option.split)

lemma sort_table_length [simp]: "length (trows (sort_table srt b t)) = length (trows t)"
  by (metis sort_table_perm size_mset)

lemma sort_table_order:
  assumes "sort_col (tcols t) = Some c" "a \<in> set (take n (trows (sort_table srt b t)))"
    "d \<in> set (drop n (trows (sort_table srt b t)))"
  shows "cell_le b (cell c a) (cell c d)"
proof -
  have "sorted_wrt (\<lambda>a d. cell_le b (cell c a) (cell c d))
      (take n (trows (sort_table srt b t)) @ drop n (trows (sort_table srt b t)))"
    using assms(1) srt_sorted by (simp add: sort_table_def)
  with assms(2,3) show ?thesis
    unfolding sorted_wrt_append by blast
qed

text \<open>The FIFO pool holds the most recent rows of the history.\<close>

lemma select_fifo_recent:
  assumes "0 < k" "trows t \<noteq> []" "sort_col (tcols t) = Some c"
  obtains older where "mset (trows t) = mset older + mset (trows (select_fifo srt t k))"
    "length (trows (select_fifo srt t k)) = min (nat k) (length (trows t))"
    "\<And>a d. a \<in> set older \<Longrightarrow> d \<in> set (trows (select_fifo srt t k)) \<Longrightarrow> cell_le True (cell c a) (cell c d)"
proof -
  let ?s = "trows (sort_table srt True t)" and ?n = "length (trows t) - nat (min k (int (length (trows t))))"
  have f: "trows (select_fifo srt t k) = drop ?n ?s"
    using assms(1,2) by (simp add: select_fifo_def Let_def last_n_def)
  have "mset (trows t) = mset (take ?n ?s) + mset (drop ?n ?s)"
    by (metis append_take_drop_id mset_append sort_table_perm)
  moreover have "length (drop ?n ?s) = min (nat k) (length (trows t))"
    using assms(1) by auto
  ultimately show ?thesis
    using that [of "take ?n ?s"] sort_table_order [OF assms(3)] f by simp
qed

lemma evict_spec:
  assumes "0 \<le> max_keep" "max_keep < int (length (trows offline) + length (trows online))"
  obtains evicted where
    "mset (trows online) = mset evicted + mset (trows (ONLINE_DF (evict_global_data srt offline online max_keep st)))"
    "\<And>a d c. sort_col (tcols online) = Some c \<Longrightarrow> a \<in> set evicted \<Longrightarrow>
       d \<in> set (trows (ONLINE_DF (evict_global_data srt offline online max_keep st))) \<Longrightarrow> cell_le False (cell c a) (cell c d)"
    "evicted \<noteq> [] \<Longrightarrow> trows (OFFLINE_DF (evict_global_data srt offline online max_keep st)) = []"
    "int (length (trows (OFFLINE_DF (evict_global_data srt offline online max_keep st)))
       + length (trows (ONLINE_DF (evict_global_data srt offline online max_keep st)))) = max_keep"
proof -
  let ?st = "evict_global_data srt offline online max_keep st"
  let ?off = "int (length (trows offline))" and ?on = "int (length (trows online))"
  show ?thesis
  proof (cases "?off + ?on - max_keep \<le> ?off")
    case True
    then have "trows (ONLINE_DF ?st) = trows online"
      "trows (OFFLINE_DF ?st) = drop (nat (?off + ?on - max_keep)) (trows offline)"
      using assms by (auto simp: evict_global_data_def Let_def)
    then show ?thesis
      using that [of "[]"] True assms by simp
  next
    case False
    let ?k = "nat (?on - max_keep)" and ?s = "trows (sort_table srt False online)"
    have "trows online \<noteq> []"
      using False assms by auto
    then have st: "trows (OFFLINE_DF ?st) = []" "trows (ONLINE_DF ?st) = drop ?k ?s"
      using False assms by (auto simp: evict_global_data_def Let_def nat_diff_distrib)
    have "mset (trows online) = mset (take ?k ?s) + mset (drop ?k ?s)"
      by (metis append_take_drop_id mset_append sort_table_perm)
    then show ?thesis
      using that [of "take ?k ?s"] st sort_table_order False assms by simp
  qed
qed

end

lemma cell_key_le: "cell_le b x y \<longleftrightarrow> cell_key b x \<le> cell_key b y"
  by (cases x; cases y) (auto simp: cell_le_def)

interpretation rows_sorted: frame_sort sort_rows
proof
  show "mset (sort_rows b c rows) = mset rows" for b c rows
    by (simp add: sort_rows_def)
  have "sorted (map (\<lambda>r. cell_key b (cell c r)) (sort_rows b c rows))" for b c rows
    by (simp add: sort_rows_def)
  then show "sorted_wrt (\<lambda>x y. cell_le b (cell c x) (cell c y)) (sort_rows b c rows)" for b c rows
    by (simp add: cell_key_le sorted_map)
qed

text \<open>The rows a flush appends: numbered on from the sequence counter.\<close>

definition numbered_rows :: "nat \<Rightarrow> nat \<Rightarrow> trow list \<Rightarrow> trow list" where
  "numbered_rows k rnd rows =
     map2 (\<lambda>r i. r(''_online_seq'' \<mapsto> Fin (real i), ''_collection_round'' \<mapsto> Fin (real rnd))) rows [k..<k + length rows]"

lemma append_online_rows:
  assumes "TTFT_THRESHOLD cfg = None" "''_online_seq'' \<notin> set (tcols df)"
  shows "trows (ONLINE_DF (append_online cfg df st))
      = trows (ONLINE_DF st) @ numbered_rows (ONLINE_SEQ st) (NUM_TRAINS st) (trows df)"
    and "ONLINE_SEQ (append_online cfg df st) = ONLINE_SEQ st + length (trows df)"
proof -
  have "map2 (\<lambda>r v. r(''_collection_round'' \<mapsto> v))
      (map2 (\<lambda>r v. r(''_online_seq'' \<mapsto> v)) rows (map (\<lambda>i. Fin (real i)) [k..<k + length rows]))
      (replicate (length rows) (Fin (real rnd))) = numbered_rows k rnd rows" for rows k rnd
    by (rule nth_equalityI) (simp_all add: numbered_rows_def)
  then show "trows (ONLINE_DF (append_online cfg df st))
      = trows (ONLINE_DF st) @ numbered_rows (ONLINE_SEQ st) (NUM_TRAINS st) (trows df)"
    using assms by (simp add: append_online_def ttft_filter_def set_column_def concat_tables_def Let_def)
  show "ONLINE_SEQ (append_online cfg df st) = ONLINE_SEQ st + length (trows df)"
    using assms by (simp add: append_online_def ttft_filter_def Let_def)
qed

lemma first_numbered:
  assumes "rows \<noteq> []"
  obtains r where "r \<in> set (numbered_rows k rnd rows)" "cell ''_online_seq'' r = Fin (real k)"
proof -
  let ?r = "numbered_rows k rnd rows ! 0"
  have "?r \<in> set (numbered_rows k rnd rows)"
    using assms by (intro nth_mem) (simp add: numbered_rows_def)
  moreover have "cell ''_online_seq'' ?r = Fin (real k)"
    using assms by (simp add: numbered_rows_def cell_def)
  ultimately show ?thesis
    using that by blast
qed

subsection \<open>Properties\<close>

text \<open>
  C30. The eviction leaves exactly \<open>max_keep\<close> samples: offline samples go first, and the online
  samples that go, if any, are none newer than one that stays. \<open>srt\<close> stands for the sort of pandas.
\<close>

theorem eviction_keeps_newest:
  assumes "frame_sort srt" "0 \<le> max_keep" "max_keep < int (length (trows offline) + length (trows online))"
    and "sort_col (tcols online) = Some c" "st' = evict_global_data srt offline online max_keep st"
  shows "int (length (trows (OFFLINE_DF st')) + length (trows (ONLINE_DF st'))) = max_keep \<and>
    (\<exists>evicted. mset (trows online) = mset evicted + mset (trows (ONLINE_DF st')) \<and>
       (evicted \<noteq> [] \<longrightarrow> trows (OFFLINE_DF st') = []) \<and>
       (\<forall>a \<in> set evicted. \<forall>d \<in> set (trows (ONLINE_DF st')). cell_le False (cell c a) (cell c d)))"
  using frame_sort.evict_spec [OF assms(1-3), of st] assms(4,5) by metis

definition seq_row :: "real \<Rightarrow> trow" where
  "seq_row x = [''_online_seq'' \<mapsto> Fin x]"

definition sample_state :: train_state where
  "sample_state = \<lparr>OFFLINE_DF = empty_table, ONLINE_DF = \<lparr>tcols = [''_online_seq''], trows = [seq_row 1, seq_row 0]\<rparr>,
     OFFLINE_DATA_SIZE = 0, ONLINE_SEQ = 2, NUM_TRAINS = 0, NUM_FLUSH = 1, TOTAL_NUM_DATA = 2, NUM_NEW_DATA = 2,
     TOTAL_NUM_NEW_DATA = 2, TRAINING_RIGHT_NOW = False, MODEL_UPDATED = False\<rparr>"

theorem eviction_keeps_newest_witness:
  "int (length (trows (OFFLINE_DF (evict_global_data sort_rows empty_table (ONLINE_DF sample_state) 1 sample_state)))
      + length (trows (ONLINE_DF (evict_global_data sort_rows empty_table (ONLINE_DF sample_state) 1 sample_state)))) = 1 \<and>
    (\<exists>evicted. mset (trows (ONLINE_DF sample_state)) = mset evicted
         + mset (trows (ONLINE_DF (evict_global_data sort_rows empty_table (ONLINE_DF sample_state) 1 sample_state))) \<and>
       (evicted \<noteq> [] \<longrightarrow>
         trows (OFFLINE_DF (evict_global_data sort_rows empty_table (ONLINE_DF sample_state) 1 sample_state)) = []) \<and>
       (\<forall>a \<in> set evicted.
          \<forall>d \<in> set (trows (ONLINE_DF (evict_global_data sort_rows empty_table (ONLINE_DF sample_state) 1 sample_state))).
          cell_le False (cell ''_online_seq'' a) (cell ''_online_seq'' d)))"
  by (rule eviction_keeps_newest [OF rows_sorted.frame_sort_axioms])
    (simp_all add: sample_state_def empty_table_def sort_col_def)

text \<open>
  A flush that arrives after a training round has copied the data and before it evicts is lost:
  its samples are in the online frame after the flush and in none of them after the eviction, which
  writes the old copy back, although their sequence numbers are used up.
\<close>

lemma flush_during_training_is_lost:
  assumes "frame_sort srt" "begin_training cfg st0 = (st, Some (offline, online))"
    and "\<forall>r \<in> set (trows (ONLINE_DF st0)). \<exists>i < ONLINE_SEQ st0. cell ''_online_seq'' r = Fin (real i)"
    and "ENABLE_ONLINE_LEARNING cfg" "TTFT_THRESHOLD cfg = None" "''_online_seq'' \<notin> set (tcols df)" "trows df \<noteq> []"
    and "st1 = fst (handle_flush cfg n (Inr df) st)"
    and "0 \<le> max_keep" "max_keep < int (length (trows offline) + length (trows online))"
    and "st2 = evict_global_data srt offline online max_keep st1"
  shows "(\<exists>r \<in> set (trows (ONLINE_DF st1)). cell ''_online_seq'' r = Fin (real (ONLINE_SEQ st0))) \<and>
    (\<forall>r \<in> set (trows (ONLINE_DF st2)). cell ''_online_seq'' r \<noteq> Fin (real (ONLINE_SEQ st0))) \<and>
    ONLINE_SEQ st2 = ONLINE_SEQ st0 + length (trows df)"
proof -
  have st: "st = st0\<lparr>TRAINING_RIGHT_NOW := True\<rparr>" "online = ONLINE_DF st0"
    using assms(2) by (auto simp: begin_training_def split: if_splits)
  have st1: "trows (ONLINE_DF st1) = trows online @ numbered_rows (ONLINE_SEQ st0) (NUM_TRAINS st0) (trows df)"
    "ONLINE_SEQ st1 = ONLINE_SEQ st0 + length (trows df)"
    using assms(4,8) append_online_rows [OF assms(5,6)] st by (simp_all add: handle_flush_def Let_def)
  obtain r where "r \<in> set (numbered_rows (ONLINE_SEQ st0) (NUM_TRAINS st0) (trows df))"
    "cell ''_online_seq'' r = Fin (real (ONLINE_SEQ st0))"
    using first_numbered [OF assms(7)] .
  then have "\<exists>r \<in> set (trows (ONLINE_DF st1)). cell ''_online_seq'' r = Fin (real (ONLINE_SEQ st0))"
    using st1(1) by auto
  moreover have "ONLINE_SEQ st2 = ONLINE_SEQ st0 + length (trows df)"
    using assms(11) st1(2) by (simp add: evict_global_data_def Let_def)
  moreover have "set (trows (ONLINE_DF st2)) \<subseteq> set (trows online)"
  proof -
    obtain evicted where "mset (trows online) = mset evicted + mset (trows (ONLINE_DF st2))"
      using frame_sort.evict_spec [OF assms(1,9,10), of st1] assms(11) by metis
    then show ?thesis
      by (metis mset_append set_append set_mset_mset Un_upper2)
  qed
  ultimately show ?thesis
    using assms(3) st(2) by fastforce
qed

definition sample_cfg :: train_config where
  "sample_cfg = \<lparr>ENABLE_ONLINE_LEARNING = True, TTFT_THRESHOLD = None, FIFO_SIZE = 1, REPLAY_SIZE = 0,
     MAX_TOTAL_DATA = 10, MAX_NUM_ONLINE_TRAINS = - 1, MIN_NUM_TRAINING_DATA = 1, MIN_NUM_UPDATE_DATA = 1, CL_MODE = False\<rparr>"

lemma flush_during_training_is_lost_witness:
  "\<exists>st1 st2. st1 = fst (handle_flush sample_cfg 1 (Inr \<lparr>tcols = [''ttft''], trows = [[''ttft'' \<mapsto> Fin 5]]\<rparr>)
       (sample_state\<lparr>TRAINING_RIGHT_NOW := True\<rparr>)) \<and>
     st2 = evict_global_data sort_rows (OFFLINE_DF sample_state) (ONLINE_DF sample_state) 1 st1 \<and>
     (\<exists>r \<in> set (trows (ONLINE_DF st1)). cell ''_online_seq'' r = Fin (real (ONLINE_SEQ sample_state))) \<and>
     (\<forall>r \<in> set (trows (ONLINE_DF st2)). cell ''_online_seq'' r \<noteq> Fin (real (ONLINE_SEQ sample_state))) \<and>
     ONLINE_SEQ st2 = ONLINE_SEQ sample_state + 1"
proof (intro exI conjI)
  let ?df = "\<lparr>tcols = [''ttft''], trows = [[''ttft'' \<mapsto> Fin 5]]\<rparr>"
  have "begin_training sample_cfg sample_state
      = (sample_state\<lparr>TRAINING_RIGHT_NOW := True\<rparr>, Some (OFFLINE_DF sample_state, ONLINE_DF sample_state))"
    by (simp add: begin_training_def may_train_def sample_cfg_def sample_state_def)
  note lost = flush_during_training_is_lost [OF rows_sorted.frame_sort_axioms this, of ?df _ 1 1]
  have seqs: "\<forall>r \<in> set (trows (ONLINE_DF sample_state)).
      \<exists>i < ONLINE_SEQ sample_state. cell ''_online_seq'' r = Fin (real i)"
    by (auto simp: sample_state_def seq_row_def cell_def intro: exI [of _ 1] exI [of _ 0])
  show "\<exists>r \<in> set (trows (ONLINE_DF (fst (handle_flush sample_cfg 1 (Inr ?df) (sample_state\<lparr>TRAINING_RIGHT_NOW := True\<rparr>))))).
      cell ''_online_seq'' r = Fin (real (ONLINE_SEQ sample_state))"
    using lost [OF seqs _ _ _ _ refl _ _ refl] by (simp add: sample_cfg_def sample_state_def empty_table_def)
  show "\<forall>r \<in> set (trows (ONLINE_DF (evict_global_data sort_rows (OFFLINE_DF sample_state) (ONLINE_DF sample_state) 1
        (fst (handle_flush sample_cfg 1 (Inr ?df) (sample_state\<lparr>TRAINING_RIGHT_NOW := True\<rparr>)))))).
      cell ''_online_seq'' r \<noteq> Fin (real (ONLINE_SEQ sample_state))"
    using lost [OF seqs _ _ _ _ refl _ _ refl] by (simp add: sample_cfg_def sample_state_def empty_table_def)
  show "ONLINE_SEQ (evict_global_data sort_rows (OFFLINE_DF sample_state) (ONLINE_DF sample_state) 1
        (fst (handle_flush sample_cfg 1 (Inr ?df) (sample_state\<lparr>TRAINING_RIGHT_NOW := True\<rparr>))))
      = ONLINE_SEQ sample_state + 1"
    using lost [OF seqs _ _ _ _ refl _ _ refl] by (simp add: sample_cfg_def sample_state_def empty_table_def)
qed (rule refl)+

end
