(* ===== verification/Replay_Buffer.thy ===== *)
theory Replay_Buffer
  imports Training_Data
begin

text \<open>
  The replay buffer of the online training (\<open>replay_buffer.py\<close>): the greedy selection of diverse
  samples by their gradient features, the buffer that keeps the selected rows, and the monitor of
  validation windows. The gradient features come from the neural network and are an argument;
  \<open>choice\<close> stands for the random choice without replacement.
\<close>

subsection \<open>Greedy selection\<close>

definition dot :: "flt list \<Rightarrow> flt list \<Rightarrow> flt" where
  "dot a b = fsum (map2 (*) a b)"

definition row_norm :: "flt list \<Rightarrow> flt" where
  "row_norm r = fmax (fsqrt (dot r r)) (Fin (1 / 10 ^ 8))"

definition normalize_rows :: "flt list list \<Rightarrow> flt list list" where
  "normalize_rows features = map (\<lambda>r. map (\<lambda>x. x / row_norm r) r) features"

text \<open>\<open>np.argmax\<close>: the first of the largest entries, or the first NaN.\<close>

definition np_argmax :: "flt list \<Rightarrow> nat" where
  "np_argmax xs = (if NaN \<in> set xs then list_index NaN xs else py_max_by (\<lambda>i. xs ! i) [0..<length xs])"

definition refresh_distances :: "flt list list \<Rightarrow> nat \<Rightarrow> flt list \<Rightarrow> flt list" where
  "refresh_distances normalized l min_distances =
     (let cosine_dist = map (\<lambda>r. Fin 1 - dot r (normalized ! l)) normalized in
      (map2 fmin min_distances cosine_dist)[l := Fin (- 1)])"

fun replay_loop :: "nat \<Rightarrow> flt list list \<Rightarrow> flt list \<Rightarrow> nat list \<Rightarrow> nat list" where
  "replay_loop 0 normalized min_distances selected = selected"
| "replay_loop (Suc n) normalized min_distances selected =
     (let md = refresh_distances normalized (last selected) min_distances in
      replay_loop n normalized md (selected @ [np_argmax md]))"

definition select_replay_samples :: "flt list list \<Rightarrow> int \<Rightarrow> nat list" where
  "select_replay_samples features replay_size =
     (let n = length features in
      if int n \<le> replay_size then [0..<n]
      else let first_idx = np_argmax (map row_norm features) in
        replay_loop (nat (replay_size - 1)) (normalize_rows features)
          ((replicate n PInf)[first_idx := Fin (- 1)]) [first_idx])"

subsection \<open>The buffer\<close>

record replay_buffer =
  buffer_size :: int
  selected_data :: table

definition GradientReplayBuffer :: "int \<Rightarrow> replay_buffer" where
  "GradientReplayBuffer n = \<lparr>buffer_size = n, selected_data = empty_table\<rparr>"

definition iloc :: "nat list \<Rightarrow> table \<Rightarrow> table" where
  "iloc idxs t = t\<lparr>trows := map (\<lambda>i. trows t ! i) idxs\<rparr>"

text \<open>
  \<open>features\<close> is \<open>None\<close> without a previous model; a failure of the gradient computation falls back to
  the random choice.
\<close>

definition update_buffer ::
  "(nat \<Rightarrow> nat \<Rightarrow> nat list) \<Rightarrow> (py_error + flt list list) option \<Rightarrow> nat \<Rightarrow> table \<Rightarrow> replay_buffer \<Rightarrow> replay_buffer" where
  "update_buffer choice features n source_df rb =
     (let source_len = length (trows source_df);
          effective_n = min n source_len;
          target_size = min (buffer_size rb) (int effective_n);
          random_rows = iloc (choice effective_n (nat target_size)) source_df
      in if target_size \<le> 0 then rb\<lparr>selected_data := empty_table\<rparr>
         else case features of
                None \<Rightarrow> rb\<lparr>selected_data := random_rows\<rparr>
              | Some (Inl e) \<Rightarrow> rb\<lparr>selected_data := random_rows\<rparr>
              | Some (Inr fs) \<Rightarrow>
                  rb\<lparr>selected_data :=
                       iloc (filter (\<lambda>i. i < source_len) (select_replay_samples fs target_size)) source_df\<rparr>)"

definition get_selected_data :: "replay_buffer \<Rightarrow> table" where
  "get_selected_data rb = selected_data rb"

subsection \<open>Validation windows\<close>

type_synonym 'a tensors = "(string \<times> 'a list) list"

record 'a transfer_monitor =
  samples_per_window :: nat
  validation_windows :: "(nat \<times> 'a tensors) list"
  evaluation_history :: "(nat \<times> flt) list list"

definition OldTransferMonitor :: "nat \<Rightarrow> 'a transfer_monitor" where
  "OldTransferMonitor n = \<lparr>samples_per_window = n, validation_windows = [], evaluation_history = []\<rparr>"

text \<open>\<open>choice\<close> is seeded with the round; a data set without actions raises.\<close>

definition register_window ::
  "(nat \<Rightarrow> nat \<Rightarrow> nat \<Rightarrow> nat list) \<Rightarrow> nat \<Rightarrow> 'a tensors \<Rightarrow> 'a transfer_monitor \<Rightarrow>
   ('a transfer_monitor, unit) outcome" where
  "register_window choice rnd data tm =
     (if rnd \<in> fst ` set (validation_windows tm) then (tm, Inr ())
      else case map_of data ''actions'' of
        None \<Rightarrow> (tm, Inl KeyError)
      | Some actions \<Rightarrow>
          let n = length actions in
          if n = 0 then (tm, Inr ())
          else
            let idxs = choice rnd n (min (samples_per_window tm) n);
                window = map (\<lambda>(k, xs). (k, if length xs = n then map (\<lambda>i. xs ! i) idxs else xs)) data
            in (tm\<lparr>validation_windows := validation_windows tm @ [(rnd, window)]\<rparr>, Inr ()))"

text \<open>A failing evaluation counts as NaN; \<open>loss\<close> is the model's \<open>evaluate_loss\<close>.\<close>

definition evaluate_all_windows ::
  "('a tensors \<Rightarrow> py_error + flt) \<Rightarrow> 'a transfer_monitor \<Rightarrow> 'a transfer_monitor \<times> (nat \<times> flt) list" where
  "evaluate_all_windows loss tm =
     (let results = map (\<lambda>(rnd, w). (rnd, case loss w of Inl e \<Rightarrow> NaN | Inr x \<Rightarrow> x)) (validation_windows tm) in
      (tm\<lparr>evaluation_history := evaluation_history tm @ [results]\<rparr>, results))"

subsection \<open>The selection picks distinct samples\<close>

definition rdot :: "real list \<Rightarrow> real list \<Rightarrow> real" where
  "rdot a b = sum_list (map2 (*) a b)"

lemma dot_Fin: "dot (map Fin a) (map Fin b) = Fin (rdot a b)"
proof -
  have "map2 (*) (map Fin a) (map Fin b) = map Fin (map2 (*) a b)"
    by (induction a b rule: list_induct2') simp_all
  then show ?thesis
    by (simp only: dot_def rdot_def fsum_Fin)
qed

lemma rdot_self: "0 \<le> rdot a a"
  by (induction a) (simp_all add: rdot_def)

lemma rdot_bound: "length a = length b \<Longrightarrow> 2 * rdot a b \<le> rdot a a + rdot b b"
proof (induction a b rule: list_induct2)
  case (Cons x xs y ys)
  have "2 * (x * y) \<le> x * x + y * y"
    using zero_le_square [of "x - y"] by (simp add: algebra_simps)
  then show ?case
    using Cons.IH by (simp add: rdot_def)
qed (simp add: rdot_def)

lemma rdot_scale: "rdot (map (\<lambda>x. x / c) a) (map (\<lambda>x. x / c) a) = rdot a a / (c * c)"
  by (induction a) (simp_all add: rdot_def add_divide_distrib)

definition rnorm :: "real list \<Rightarrow> real" where
  "rnorm a = max (sqrt (rdot a a)) (1 / 10 ^ 8)"

lemma row_norm_Fin: "row_norm (map Fin a) = Fin (rnorm a)"
  using rdot_self [of a] by (simp add: row_norm_def rnorm_def dot_Fin)

lemma rnorm_pos: "0 < rnorm a"
  by (simp add: rnorm_def less_max_iff_disj)

lemma unit_row: "rdot (map (\<lambda>x. x / rnorm a) a) (map (\<lambda>x. x / rnorm a) a) \<le> 1"
proof -
  have "sqrt (rdot a a) \<le> rnorm a"
    by (simp add: rnorm_def)
  then have "sqrt (rdot a a) * sqrt (rdot a a) \<le> rnorm a * rnorm a"
    using rdot_self [of a] rnorm_pos [of a] by (intro mult_mono) auto
  then have "rdot a a \<le> rnorm a * rnorm a"
    using rdot_self [of a] by simp
  then show ?thesis
    using rnorm_pos [of a] by (simp add: rdot_scale)
qed

text \<open>
  Distances before a round: the samples selected earlier are marked, the others have a
  non-negative distance, infinite in the first round.
\<close>

definition marked :: "nat \<Rightarrow> nat list \<Rightarrow> flt list \<Rightarrow> bool" where
  "marked n sel md \<longleftrightarrow>
     length md = n \<and> (\<forall>i \<in> set (butlast sel). md ! i = Fin (- 1)) \<and>
     (\<forall>i < n. md ! i = PInf \<or> (\<exists>x. md ! i = Fin x)) \<and>
     (\<forall>i < n. i \<notin> set sel \<longrightarrow> md ! i = PInf \<or> (\<exists>x \<ge> 0. md ! i = Fin x))"

definition unit_rows :: "real list list \<Rightarrow> nat \<Rightarrow> bool" where
  "unit_rows us d \<longleftrightarrow> (\<forall>u \<in> set us. length u = d \<and> rdot u u \<le> 1)"

lemma distance_nonneg:
  assumes "unit_rows us d" "i < length us" "l < length us"
  shows "0 \<le> 1 - rdot (us ! i) (us ! l)"
proof -
  have "length (us ! i) = d" "length (us ! l) = d" "rdot (us ! i) (us ! i) \<le> 1" "rdot (us ! l) (us ! l) \<le> 1"
    using assms nth_mem by (auto simp: unit_rows_def)
  then show ?thesis
    using rdot_bound [of "us ! i" "us ! l"] by linarith
qed

lemma refresh_spec:
  assumes "marked (length us) sel md" "sel \<noteq> []" "set sel \<subseteq> {..<length us}" and unit: "unit_rows us d"
  defines "md' \<equiv> refresh_distances (map (map Fin) us) (last sel) md"
  shows "length md' = length us" "\<forall>i < length us. \<exists>x. md' ! i = Fin x"
    "\<forall>i \<in> set sel. md' ! i = Fin (- 1)" "\<forall>i < length us. i \<notin> set sel \<longrightarrow> (\<exists>x \<ge> 0. md' ! i = Fin x)"
proof -
  let ?l = "last sel"
  have l: "?l \<in> set sel" "?l < length us"
    using assms(2,3) last_in_set by auto
  have len: "length md = length us"
    using assms(1) by (simp add: marked_def)
  show "length md' = length us"
    using len by (simp add: md'_def refresh_distances_def Let_def)
  have at: "md' ! i = (if i = ?l then Fin (- 1) else fmin (md ! i) (Fin (1 - rdot (us ! i) (us ! ?l))))"
    if "i < length us" for i
    using that len l(2) by (simp add: md'_def refresh_distances_def Let_def dot_Fin)
  have pinf: "fmin PInf (Fin x) = Fin x" for x
    by (simp add: fmin_def)
  show "\<forall>i < length us. \<exists>x. md' ! i = Fin x"
  proof (intro allI impI)
    fix i
    assume i: "i < length us"
    then have "md ! i = PInf \<or> (\<exists>x. md ! i = Fin x)"
      using assms(1) by (simp add: marked_def)
    then show "\<exists>x. md' ! i = Fin x"
      using at [OF i] pinf by auto
  qed
  show "\<forall>i \<in> set sel. md' ! i = Fin (- 1)"
  proof
    fix i
    assume i: "i \<in> set sel"
    have "i = ?l \<or> i \<in> set (butlast sel)"
      using i assms(2) by (metis append_butlast_last_id in_set_conv_decomp rotate1.simps(2) set_ConsD set_rotate1)
    then have "i = ?l \<or> md ! i = Fin (- 1)"
      using assms(1) by (auto simp: marked_def)
    then show "md' ! i = Fin (- 1)"
      using at [of i] distance_nonneg [OF unit, of i ?l] l(2) i assms(3) by (auto simp: min_def)
  qed
  show "\<forall>i < length us. i \<notin> set sel \<longrightarrow> (\<exists>x \<ge> 0. md' ! i = Fin x)"
  proof (intro allI impI)
    fix i
    assume i: "i < length us" "i \<notin> set sel"
    then have "md ! i = PInf \<or> (\<exists>x \<ge> 0. md ! i = Fin x)"
      using assms(1) by (simp add: marked_def)
    then show "\<exists>x \<ge> 0. md' ! i = Fin x"
      using at [OF i(1)] pinf distance_nonneg [OF unit i(1) l(2)] i(2) l(1) by auto
  qed
qed

lemma argmax_new:
  assumes "\<forall>i < length md. \<exists>x. md ! i = Fin x" "\<forall>i \<in> set sel. md ! i = Fin (- 1)"
    and "\<forall>i < length md. i \<notin> set sel \<longrightarrow> (\<exists>x \<ge> 0. md ! i = Fin x)" "length sel < length md"
  shows "np_argmax md < length md" "np_argmax md \<notin> set sel"
proof -
  obtain g where g: "\<forall>i \<in> set [0..<length md]. md ! i = Fin (g i)"
    using assms(1) by (metis atLeastLessThan_iff set_upt)
  have "NaN \<notin> set md"
    using assms(1) by (auto simp: in_set_conv_nth)
  moreover have "[0..<length md] \<noteq> []"
    using assms(4) by (cases md) auto
  ultimately have m: "np_argmax md \<in> set [0..<length md]" "\<forall>i \<in> set [0..<length md]. md ! i \<le> md ! np_argmax md"
    using py_max_by_Fin [OF _ g] by (simp_all add: np_argmax_def)
  then show "np_argmax md < length md"
    by simp
  have "card (set sel) < card {..<length md}"
    using assms(4) card_length [of sel] by simp
  then obtain j where j: "j < length md" "j \<notin> set sel"
    by (metis card_mono finite_set lessThan_iff linorder_not_less subsetI)
  then obtain x where "0 \<le> x" "md ! j = Fin x"
    using assms(3) by blast
  then have "Fin x \<le> md ! np_argmax md"
    using m(2) j(1) by (metis atLeastLessThan_iff less_eq_nat.simps(1) set_upt)
  then show "np_argmax md \<notin> set sel"
    using assms(2) \<open>0 \<le> x\<close> by fastforce
qed

lemma replay_loop_distinct:
  assumes "unit_rows us d" "marked (length us) sel md" "sel \<noteq> []" "set sel \<subseteq> {..<length us}" "distinct sel"
    and "length sel + n \<le> length us"
  shows "distinct (replay_loop n (map (map Fin) us) md sel) \<and> set (replay_loop n (map (map Fin) us) md sel) \<subseteq> {..<length us}
    \<and> length (replay_loop n (map (map Fin) us) md sel) = length sel + n"
  using assms(2-)
proof (induction n arbitrary: md sel)
  case (Suc n)
  let ?md = "refresh_distances (map (map Fin) us) (last sel) md"
  note r = refresh_spec [OF Suc.prems(1-3) assms(1)]
  have nx: "np_argmax ?md < length us" "np_argmax ?md \<notin> set sel"
    using argmax_new [of ?md sel] r Suc.prems(5) by auto
  have "marked (length us) (sel @ [np_argmax ?md]) ?md"
    using r by (auto simp: marked_def)
  then show ?case
    using Suc.IH [of "sel @ [np_argmax ?md]" ?md] nx Suc.prems by (simp add: Let_def)
qed simp

lemma normalized_unit:
  assumes "\<forall>a \<in> set fs. length a = d"
  shows "normalize_rows (map (map Fin) fs) = map (map Fin) (map (\<lambda>a. map (\<lambda>x. x / rnorm a) a) fs)"
    "unit_rows (map (\<lambda>a. map (\<lambda>x. x / rnorm a) a) fs) d"
proof -
  have "rnorm a \<noteq> 0" for a
    using rnorm_pos [of a] by simp
  then show "normalize_rows (map (map Fin) fs) = map (map Fin) (map (\<lambda>a. map (\<lambda>x. x / rnorm a) a) fs)"
    by (simp add: normalize_rows_def row_norm_Fin)
  show "unit_rows (map (\<lambda>a. map (\<lambda>x. x / rnorm a) a) fs) d"
    using assms unit_row by (auto simp: unit_rows_def)
qed

subsection \<open>Properties\<close>

text \<open>
  C31. The greedy selection picks the requested number of distinct samples (all of them when there
  are fewer), so the buffer never replays a sample twice: a sample already selected stays marked
  because no cosine distance of normalised rows is negative.
\<close>

theorem replay_selection_distinct:
  assumes "\<forall>a \<in> set fs. length a = d" "1 \<le> k"
  shows "distinct (select_replay_samples (map (map Fin) fs) k) \<and>
    set (select_replay_samples (map (map Fin) fs) k) \<subseteq> {..<length fs} \<and>
    int (length (select_replay_samples (map (map Fin) fs) k)) = min k (int (length fs))"
proof (cases "int (length fs) \<le> k")
  case True
  then show ?thesis
    by (auto simp: select_replay_samples_def Let_def)
next
  case False
  let ?us = "map (\<lambda>a. map (\<lambda>x. x / rnorm a) a) fs"
  let ?norms = "map row_norm (map (map Fin) fs)"
  let ?i = "np_argmax ?norms"
  let ?md = "(replicate (length fs) PInf)[?i := Fin (- 1)]"
  have "\<forall>i < length ?norms. \<exists>x \<ge> 0. ?norms ! i = Fin x"
    using rnorm_pos by (auto simp: row_norm_Fin intro: less_imp_le)
  then have i: "?i < length ?us"
    using argmax_new(1) [of ?norms "[]"] False assms(2) by force
  have "?md ! j = (if j = ?i then Fin (- 1) else PInf)" if "j < length fs" for j
    using that by (simp add: nth_list_update)
  then have "marked (length ?us) [?i] ?md"
    by (simp add: marked_def)
  then show ?thesis
    using replay_loop_distinct [OF normalized_unit(2) [OF assms(1)], of "[?i]" ?md "nat (k - 1)"] i False assms
    by (auto simp: select_replay_samples_def Let_def normalized_unit(1) [OF assms(1)])
qed

theorem replay_selection_distinct_witness:
  "distinct (select_replay_samples (map (map Fin) [[1, 0], [0, 1], [1, 1]]) 2) \<and>
    set (select_replay_samples (map (map Fin) [[1, 0], [0, 1], [1, 1]]) 2) \<subseteq> {..<length [[1, 0], [0, 1], [1, 1 :: real]]} \<and>
    int (length (select_replay_samples (map (map Fin) [[1, 0], [0, 1], [1, 1]]) 2))
      = min 2 (int (length [[1, 0], [0, 1], [1, 1 :: real]]))"
  by (rule replay_selection_distinct [where d = 2]) simp_all

end
