(* ===== verification/Downloader.thy ===== *)
theory Downloader
  imports Py_Text "HOL-Library.AList" "HOL-Library.Sublist"
begin

text \<open>
  The model downloader (\<open>aibrix/downloader\<close>): addresses and file names, the check whether a file is
  already there, the download of a file or a directory of an S3 or TOS bucket, and the status of a
  downloaded model read back from the cache directory. A path is the list of its segments. The
  bucket client is a record of functions; transfer options, progress bars and log lines are left
  out. The Hugging Face downloader hands the whole work to its library.
\<close>

subsection \<open>Text\<close>

definition strip_char :: "char \<Rightarrow> string \<Rightarrow> string" where
  "strip_char c s = rev (dropWhile (\<lambda>x. x = c) (rev (dropWhile (\<lambda>x. x = c) s)))"

definition slash :: char where
  "slash = CHR ''/''"

definition infer_model_name :: "string \<Rightarrow> py_error + string" where
  "infer_model_name uri = (if uri = [] then Inl ValueError else Inr (last (split_at slash (strip_char slash (strip uri)))))"

text \<open>\<open>urlparse\<close> of an address with a scheme: the network location ends at the path, query or
  fragment; the path ends at the query or the fragment.\<close>

definition url_location :: "string \<Rightarrow> string" where
  "url_location rest = takeWhile (\<lambda>c. c \<notin> set ''/?#'') rest"

definition url_path :: "string \<Rightarrow> string" where
  "url_path rest = takeWhile (\<lambda>c. c \<notin> set ''?#'') (dropWhile (\<lambda>c. c \<notin> set ''/?#'') rest)"

definition parse_bucket_info_from_uri :: "string \<Rightarrow> string \<Rightarrow> string \<times> string" where
  "parse_bucket_info_from_uri scheme uri =
     (let rest = drop (length (scheme @ ''://'')) uri in
      (url_location rest, dropWhile (\<lambda>c. c = slash) (url_path rest)))"

subsection \<open>Sources and configuration\<close>

datatype remote_source = S3 | TOS | HUGGINGFACE | UNKNOWN

fun source_value :: "remote_source \<Rightarrow> string" where
  "source_value S3 = ''s3''"
| "source_value TOS = ''tos''"
| "source_value HUGGINGFACE = ''huggingface''"
| "source_value UNKNOWN = ''unknown''"

record download_env =
  FORCE_DOWNLOAD :: bool
  CHECK_FILE_EXIST :: bool
  TOS_VERSION :: string
  ALLOW_FILE_SUFFIX :: "string list option"

datatype downloader_class = S3Downloader | TOSDownloaderV1 | TOSDownloaderV2 | HuggingFaceDownloader

definition get_downloader :: "download_env \<Rightarrow> string \<Rightarrow> downloader_class" where
  "get_downloader env model_uri =
     (if starts_with ''s3://'' model_uri then S3Downloader
      else if starts_with ''tos://'' model_uri then
        (if TOS_VERSION env = ''v1'' then TOSDownloaderV1 else TOSDownloaderV2)
      else HuggingFaceDownloader)"

text \<open>The bucket client: metadata (etag and length), listing, contents.\<close>

record bucket_client =
  head_bucket :: "string \<Rightarrow> bool"
  head_object :: "string \<Rightarrow> string \<Rightarrow> (string \<times> nat) option"
  list_objects :: "string \<Rightarrow> string \<Rightarrow> string list"
  fetch_object :: "string \<Rightarrow> string \<Rightarrow> string option"

record bucket_downloader =
  dl_source :: remote_source
  dl_client :: bucket_client
  dl_model_name :: string
  dl_bucket_name :: string
  dl_bucket_path :: string
  dl_allow_suffix :: "string list option"

definition valid_config :: "bucket_downloader \<Rightarrow> py_error + unit" where
  "valid_config dl =
     (if dl_model_name dl = [] \<or> dl_bucket_name dl = [] \<or> dl_bucket_path dl = [] then Inl Exception
      else if \<not> head_bucket (dl_client dl) (dl_bucket_name dl) then Inl Exception
      else Inr ())"

text \<open>The configured suffixes win unless they are missing or empty.\<close>

definition new_bucket_downloader ::
  "download_env \<Rightarrow> remote_source \<Rightarrow> string \<Rightarrow> bucket_client \<Rightarrow> string \<Rightarrow> string option \<Rightarrow> string list option \<Rightarrow>
   py_error + bucket_downloader" where
  "new_bucket_downloader env src scheme client model_uri model_name allow =
     (case (case model_name of None \<Rightarrow> infer_model_name model_uri | Some n \<Rightarrow> Inr n) of
        Inl e \<Rightarrow> Inl e
      | Inr name \<Rightarrow>
          let (bucket, path) = parse_bucket_info_from_uri scheme model_uri;
              dl = \<lparr>dl_source = src, dl_client = client, dl_model_name = name, dl_bucket_name = bucket, dl_bucket_path = path,
                    dl_allow_suffix = (case allow of None \<Rightarrow> ALLOW_FILE_SUFFIX env | Some [] \<Rightarrow> ALLOW_FILE_SUFFIX env
                                       | Some xs \<Rightarrow> Some xs)\<rparr>
          in (case valid_config dl of Inl e \<Rightarrow> Inl e | Inr _ \<Rightarrow> Inr dl))"

definition is_directory :: "bucket_downloader \<Rightarrow> bool" where
  "is_directory dl \<longleftrightarrow>
     ends_with ''/'' (dl_bucket_path dl) \<or>
     list_objects (dl_client dl) (dl_bucket_name dl) (dl_bucket_path dl) \<noteq> [dl_bucket_path dl]"

definition directory_list :: "bucket_downloader \<Rightarrow> string list" where
  "directory_list dl = list_objects (dl_client dl) (dl_bucket_name dl) (dl_bucket_path dl)"

subsection \<open>The local files\<close>

type_synonym fpath = "string list"

text \<open>A lock is free, held by another process, or cannot be taken.\<close>

datatype lock_state = Free | Held | Failing

record local_fs =
  fs_files :: "(fpath \<times> string) list"
  fs_dirs :: "fpath list"
  fs_lock :: "fpath \<Rightarrow> lock_state"
  fs_fetched :: "string list"

definition file_exists :: "local_fs \<Rightarrow> fpath \<Rightarrow> bool" where
  "file_exists fs p \<longleftrightarrow> map_of (fs_files fs) p \<noteq> None"

definition write_file :: "fpath \<Rightarrow> string \<Rightarrow> local_fs \<Rightarrow> local_fs" where
  "write_file p content fs = fs\<lparr>fs_files := AList.update p content (fs_files fs)\<rparr>"

definition make_dirs :: "fpath \<Rightarrow> local_fs \<Rightarrow> local_fs" where
  "make_dirs p fs = fs\<lparr>fs_dirs := fs_dirs fs @ filter (\<lambda>d. d \<notin> set (fs_dirs fs)) (prefixes p)\<rparr>"

record download_file =
  file_path :: fpath
  lock_path :: fpath
  metadata_path :: fpath

definition cache_dir :: "fpath \<Rightarrow> remote_source \<Rightarrow> fpath" where
  "cache_dir base src = base @ [''.cache'', source_value src, ''download'']"

definition get_local_download_paths :: "fpath \<Rightarrow> string \<Rightarrow> remote_source \<Rightarrow> download_file" where
  "get_local_download_paths base filename src =
     \<lparr>file_path = base @ [filename], lock_path = cache_dir base src @ [filename @ ''.lock''],
      metadata_path = cache_dir base src @ [filename @ ''.metadata'']\<rparr>"

definition meta_file :: "fpath \<Rightarrow> string \<Rightarrow> remote_source \<Rightarrow> fpath" where
  "meta_file local_path file_name src = cache_dir local_path src @ [file_name @ ''.metadata'']"

definition save_meta_data :: "fpath \<Rightarrow> string \<Rightarrow> local_fs \<Rightarrow> local_fs" where
  "save_meta_data p etag fs = write_file p etag (make_dirs (butlast p) fs)"

definition load_meta_data :: "fpath \<Rightarrow> local_fs \<Rightarrow> string option" where
  "load_meta_data p fs = map_of (fs_files fs) p"

definition check_file_exist :: "local_fs \<Rightarrow> fpath \<Rightarrow> fpath \<Rightarrow> nat \<Rightarrow> string \<Rightarrow> bool" where
  "check_file_exist fs local_file meta expected_size expected_etag =
     (if expected_size = 0 then False
      else if expected_etag = [] then False
      else case map_of (fs_files fs) local_file of
        None \<Rightarrow> False
      | Some content \<Rightarrow>
          if length content \<noteq> expected_size then False
          else if \<not> file_exists fs meta then False
          else load_meta_data meta fs = Some expected_etag)"

definition need_to_download :: "download_env \<Rightarrow> local_fs \<Rightarrow> fpath \<Rightarrow> fpath \<Rightarrow> nat \<Rightarrow> string \<Rightarrow> bool" where
  "need_to_download env fs local_file meta expected_size expected_etag =
     (if \<not> FORCE_DOWNLOAD env \<and> CHECK_FILE_EXIST env
      then \<not> check_file_exist fs local_file meta expected_size expected_etag
      else True)"

subsection \<open>Downloading\<close>

text \<open>
  \<open>None\<close>: the lock is held and the download waits. The lock file stays behind after the release.
\<close>

definition download_object ::
  "download_env \<Rightarrow> bucket_downloader \<Rightarrow> fpath \<Rightarrow> string \<Rightarrow> local_fs \<Rightarrow> (local_fs, unit) outcome option" where
  "download_object env dl local_path key fs =
     (case head_object (dl_client dl) (dl_bucket_name dl) key of
        None \<Rightarrow> Some (fs, Inl ValueError)
      | Some (etag, len) \<Rightarrow>
          let name = last (split_at slash key);
              meta = meta_file local_path name (dl_source dl);
              paths = get_local_download_paths local_path name (dl_source dl)
          in if \<not> need_to_download env fs (local_path @ [name]) meta len etag then Some (fs, Inr ())
             else (case fs_lock fs (lock_path paths) of
                     Held \<Rightarrow> None
                   | Failing \<Rightarrow> Some (fs, Inl OSError)
                   | Free \<Rightarrow>
                       let fs1 = write_file (lock_path paths) [] (make_dirs (butlast (lock_path paths)) fs) in
                       (case fetch_object (dl_client dl) (dl_bucket_name dl) key of
                          None \<Rightarrow> Some (fs1, Inl Exception)
                        | Some content \<Rightarrow>
                            let fs2 = write_file (local_path @ [name]) content (fs1\<lparr>fs_fetched := fs_fetched fs1 @ [key]\<rparr>) in
                            Some (save_meta_data meta etag fs2, Inr ()))))"

definition filtered_files :: "bucket_downloader \<Rightarrow> string list" where
  "filtered_files dl =
     (let files = filter (\<lambda>f. \<not> ends_with ''/'' f) (directory_list dl) in
      case dl_allow_suffix dl of
        None \<Rightarrow> files
      | Some sufs \<Rightarrow> if sufs = [] then files else filter (\<lambda>f. \<exists>suf \<in> set sufs. ends_with suf f) files)"

fun download_files :: "download_env \<Rightarrow> bucket_downloader \<Rightarrow> fpath \<Rightarrow> string list \<Rightarrow> local_fs \<Rightarrow> (local_fs, unit) outcome option" where
  "download_files env dl local_path [] fs = Some (fs, Inr ())"
| "download_files env dl local_path (k # ks) fs =
     (case download_object env dl local_path k fs of
        None \<Rightarrow> None
      | Some (fs1, Inl e) \<Rightarrow> Some (fs1, Inl e)
      | Some (fs1, Inr _) \<Rightarrow> download_files env dl local_path ks fs1)"

definition download_directory :: "download_env \<Rightarrow> bucket_downloader \<Rightarrow> fpath \<Rightarrow> local_fs \<Rightarrow> (local_fs, unit) outcome option" where
  "download_directory env dl local_path fs = download_files env dl local_path (filtered_files dl) fs"

definition download_model :: "download_env \<Rightarrow> bucket_downloader \<Rightarrow> fpath \<Rightarrow> local_fs \<Rightarrow> (local_fs, fpath) outcome option" where
  "download_model env dl local_path fs =
     (let model_path = local_path @ [dl_model_name dl]; fs1 = make_dirs model_path fs in
      map_option (\<lambda>(fs2, r). (fs2, map_sum id (\<lambda>_. model_path) r))
        (if is_directory dl then download_directory env dl model_path fs1
         else download_object env dl model_path (dl_bucket_path dl) fs1))"

subsection \<open>Status\<close>

datatype file_status = FileDownloading | FileDownloaded | FileNoOperation | FileUnknown

datatype model_status = ModelNotExist | ModelDownloading | ModelDownloaded | ModelNoOperation | ModelUnknown

definition file_status :: "local_fs \<Rightarrow> download_file \<Rightarrow> file_status" where
  "file_status fs f =
     (if file_exists fs (file_path f) \<and> file_exists fs (metadata_path f) then FileDownloaded
      else case fs_lock fs (lock_path f) of
        Held \<Rightarrow> FileDownloading
      | Failing \<Rightarrow> FileUnknown
      | Free \<Rightarrow> FileNoOperation)"

definition model_status :: "local_fs \<Rightarrow> download_file list \<Rightarrow> model_status" where
  "model_status fs fl =
     (let all_status = map (file_status fs) fl in
      if list_all (\<lambda>s. s = FileDownloaded) all_status then ModelDownloaded
      else if list_ex (\<lambda>s. s = FileDownloading) all_status then ModelDownloading
      else if list_all (\<lambda>s. s \<in> {FileDownloaded, FileNoOperation}) all_status then ModelNoOperation
      else ModelUnknown)"

text \<open>The files of a model, by the lock files in its cache directory.\<close>

definition lock_names :: "local_fs \<Rightarrow> fpath \<Rightarrow> string list" where
  "lock_names fs dir =
     map last (filter (\<lambda>p. p \<noteq> [] \<and> butlast p = dir \<and> ends_with ''.lock'' (last p)) (map fst (fs_files fs)))"

definition infer_from_model_path :: "local_fs \<Rightarrow> fpath \<Rightarrow> string \<Rightarrow> remote_source \<Rightarrow> download_file list option" where
  "infer_from_model_path fs local_path model_name src =
     (let base = local_path @ [model_name] in
      if base \<notin> set (fs_dirs fs) then None
      else Some (map (\<lambda>n. get_local_download_paths base (take (length n - 5) n) src) (lock_names fs (cache_dir base src))))"

subsection \<open>A download completes a file and touches no other\<close>

definition base_name :: "string \<Rightarrow> string" where
  "base_name key = last (split_at slash key)"

text \<open>What the bucket documents of an object: its metadata is that of its contents.\<close>

definition object_ok :: "bucket_downloader \<Rightarrow> string \<Rightarrow> bool" where
  "object_ok dl key \<longleftrightarrow> (\<exists>etag content. etag \<noteq> [] \<and> content \<noteq> [] \<and>
     head_object (dl_client dl) (dl_bucket_name dl) key = Some (etag, length content) \<and>
     fetch_object (dl_client dl) (dl_bucket_name dl) key = Some content)"

definition complete :: "bucket_downloader \<Rightarrow> fpath \<Rightarrow> local_fs \<Rightarrow> string \<Rightarrow> bool" where
  "complete dl local_path fs key \<longleftrightarrow>
     (case head_object (dl_client dl) (dl_bucket_name dl) key of
        None \<Rightarrow> False
      | Some (etag, len) \<Rightarrow>
          check_file_exist fs (local_path @ [base_name key]) (meta_file local_path (base_name key) (dl_source dl)) len etag)"

lemma files_write [simp]:
  "fs_files (make_dirs p fs) = fs_files fs" "fs_lock (make_dirs p fs) = fs_lock fs"
  "map_of (fs_files (write_file p c fs)) q = (if q = p then Some c else map_of (fs_files fs) q)"
  "fs_lock (write_file p c fs) = fs_lock fs"
  by (simp_all add: make_dirs_def write_file_def update_conv')

lemma dirs_write [simp]:
  "fs_dirs (write_file p c fs) = fs_dirs fs" "set (fs_dirs (make_dirs p fs)) = set (fs_dirs fs) \<union> set (prefixes p)"
  by (auto simp: make_dirs_def write_file_def)

lemma make_dirs_again: "set (prefixes p) \<subseteq> set (fs_dirs fs) \<Longrightarrow> make_dirs p fs = fs"
proof -
  assume "set (prefixes p) \<subseteq> set (fs_dirs fs)"
  then have "filter (\<lambda>d. d \<notin> set (fs_dirs fs)) (prefixes p) = []"
    unfolding filter_empty_conv by blast
  then show ?thesis
    by (simp add: make_dirs_def)
qed

lemma cache_paths_differ [simp]:
  "meta_file d n src \<noteq> d @ [n']" "d @ [n'] \<noteq> meta_file d n src"
  "lock_path (get_local_download_paths d n src) \<noteq> d @ [n']" "d @ [n'] \<noteq> lock_path (get_local_download_paths d n src)"
  "meta_file d n src = meta_file d n' src \<longleftrightarrow> n = n'"
  by (simp_all add: meta_file_def get_local_download_paths_def cache_dir_def)

lemma lock_is_no_metadata [simp]:
  "lock_path (get_local_download_paths d n src) \<noteq> meta_file d n' src"
  "meta_file d n' src \<noteq> lock_path (get_local_download_paths d n src)"
proof -
  have "last (n @ ''.lock'') \<noteq> last (n' @ ''.metadata'')"
    by simp
  then have "n @ ''.lock'' \<noteq> n' @ ''.metadata''"
    by metis
  then show "lock_path (get_local_download_paths d n src) \<noteq> meta_file d n' src"
    by (simp add: meta_file_def get_local_download_paths_def cache_dir_def)
  then show "meta_file d n' src \<noteq> lock_path (get_local_download_paths d n src)"
    by (rule not_sym)
qed

lemma download_object_spec:
  assumes "\<not> FORCE_DOWNLOAD env" "CHECK_FILE_EXIST env" "object_ok dl key"
    and "fs_lock fs (lock_path (get_local_download_paths d (base_name key) (dl_source dl))) = Free"
  obtains fs' where "download_object env dl d key fs = Some (fs', Inr ())" "complete dl d fs' key" "fs_lock fs' = fs_lock fs"
    "set (fs_dirs fs) \<subseteq> set (fs_dirs fs')"
    "\<And>other. base_name other \<noteq> base_name key \<Longrightarrow> complete dl d fs' other = complete dl d fs other"
    "complete dl d fs key \<Longrightarrow> fs' = fs"
    "\<And>n. n \<noteq> base_name key \<Longrightarrow> map_of (fs_files fs') (d @ [n]) = map_of (fs_files fs) (d @ [n])"
    "\<not> file_exists fs (d @ [base_name key]) \<Longrightarrow>
       map_of (fs_files fs') (d @ [base_name key]) = fetch_object (dl_client dl) (dl_bucket_name dl) key"
proof -
  obtain etag content where obj: "etag \<noteq> []" "content \<noteq> []"
    "head_object (dl_client dl) (dl_bucket_name dl) key = Some (etag, length content)"
    "fetch_object (dl_client dl) (dl_bucket_name dl) key = Some content"
    using assms(3) by (auto simp: object_ok_def)
  let ?n = "base_name key" and ?lock = "lock_path (get_local_download_paths d (base_name key) (dl_source dl))"
  let ?meta = "meta_file d ?n (dl_source dl)"
  have need: "need_to_download env fs (d @ [?n]) ?meta (length content) etag \<longleftrightarrow> \<not> complete dl d fs key"
    using assms(1,2) obj(3) by (simp add: need_to_download_def complete_def)
  show ?thesis
  proof (cases "complete dl d fs key")
    case True
    then have "download_object env dl d key fs = Some (fs, Inr ())"
      using need obj(3) by (simp add: download_object_def base_name_def Let_def)
    moreover have "file_exists fs (d @ [?n])"
      using True obj(3) by (auto simp: complete_def check_file_exist_def file_exists_def split: if_splits option.splits)
    ultimately show ?thesis
      using that True by auto
  next
    case False
    let ?fs1 = "write_file ?lock [] (make_dirs (butlast ?lock) fs)"
    let ?fs' = "save_meta_data ?meta etag (write_file (d @ [?n]) content (?fs1\<lparr>fs_fetched := fs_fetched ?fs1 @ [key]\<rparr>))"
    have run: "download_object env dl d key fs = Some (?fs', Inr ())"
      using False need obj(3,4) assms(4) by (simp add: download_object_def base_name_def [symmetric] Let_def)
    have files: "map_of (fs_files ?fs') q = (if q = ?meta then Some etag else if q = d @ [?n] then Some content
        else if q = ?lock then Some [] else map_of (fs_files fs) q)" for q
      by (simp add: save_meta_data_def)
    have "complete dl d ?fs' key"
      using obj(1-3) by (simp add: complete_def check_file_exist_def load_meta_data_def file_exists_def files)
    moreover have "complete dl d ?fs' other = complete dl d fs other" if "base_name other \<noteq> ?n" for other
      using that by (simp add: complete_def check_file_exist_def load_meta_data_def file_exists_def files split: option.split prod.split)
    ultimately show ?thesis
      using that [OF run] False obj(4) by (simp add: files) (auto simp: save_meta_data_def)
  qed
qed

lemma download_files_spec:
  assumes "\<not> FORCE_DOWNLOAD env" "CHECK_FILE_EXIST env" "\<forall>k \<in> set ks. object_ok dl k" "distinct (map base_name ks)"
    and "\<forall>p. fs_lock fs p = Free"
  shows "\<exists>fs'. download_files env dl d ks fs = Some (fs', Inr ()) \<and> (\<forall>k \<in> set ks. complete dl d fs' k) \<and>
    set (fs_dirs fs) \<subseteq> set (fs_dirs fs') \<and>
    (\<forall>other. base_name other \<notin> base_name ` set ks \<longrightarrow> complete dl d fs' other = complete dl d fs other) \<and>
    (\<forall>n. n \<notin> base_name ` set ks \<longrightarrow> map_of (fs_files fs') (d @ [n]) = map_of (fs_files fs) (d @ [n])) \<and>
    (\<forall>k \<in> set ks. \<not> file_exists fs (d @ [base_name k]) \<longrightarrow>
       map_of (fs_files fs') (d @ [base_name k]) = fetch_object (dl_client dl) (dl_bucket_name dl) k)"
  using assms(3-)
proof (induction ks arbitrary: fs)
  case (Cons k ks)
  have ok: "object_ok dl k" "fs_lock fs (lock_path (get_local_download_paths d (base_name k) (dl_source dl))) = Free"
    using Cons.prems by auto
  obtain fs1 where fs1: "download_object env dl d k fs = Some (fs1, Inr ())" "complete dl d fs1 k" "fs_lock fs1 = fs_lock fs"
    "set (fs_dirs fs) \<subseteq> set (fs_dirs fs1)"
    "\<And>other. base_name other \<noteq> base_name k \<Longrightarrow> complete dl d fs1 other = complete dl d fs other"
    "\<And>n. n \<noteq> base_name k \<Longrightarrow> map_of (fs_files fs1) (d @ [n]) = map_of (fs_files fs) (d @ [n])"
    "\<not> file_exists fs (d @ [base_name k]) \<Longrightarrow>
       map_of (fs_files fs1) (d @ [base_name k]) = fetch_object (dl_client dl) (dl_bucket_name dl) k"
    using download_object_spec [OF assms(1,2) ok] by metis
  have new: "base_name k \<notin> base_name ` set ks"
    using Cons.prems(2) by auto
  obtain fs2 where fs2: "download_files env dl d ks fs1 = Some (fs2, Inr ())" "\<forall>k \<in> set ks. complete dl d fs2 k"
    "set (fs_dirs fs1) \<subseteq> set (fs_dirs fs2)"
    "\<forall>other. base_name other \<notin> base_name ` set ks \<longrightarrow> complete dl d fs2 other = complete dl d fs1 other"
    "\<forall>n. n \<notin> base_name ` set ks \<longrightarrow> map_of (fs_files fs2) (d @ [n]) = map_of (fs_files fs1) (d @ [n])"
    "\<forall>k \<in> set ks. \<not> file_exists fs1 (d @ [base_name k]) \<longrightarrow>
       map_of (fs_files fs2) (d @ [base_name k]) = fetch_object (dl_client dl) (dl_bucket_name dl) k"
    using Cons.IH [of fs1] Cons.prems fs1(3) by auto
  have "file_exists fs1 (d @ [base_name j]) = file_exists fs (d @ [base_name j])" if "j \<in> set ks" for j
    using fs1(6) [of "base_name j"] new that by (metis file_exists_def imageI)
  then show ?case
    using fs1 fs2 new by (intro exI [of _ fs2]) auto
qed simp

lemma complete_files_skipped:
  assumes "\<not> FORCE_DOWNLOAD env" "CHECK_FILE_EXIST env" "\<forall>k \<in> set ks. complete dl d fs k"
  shows "download_files env dl d ks fs = Some (fs, Inr ())"
  using assms(3)
proof (induction ks)
  case (Cons k ks)
  then obtain etag len where "head_object (dl_client dl) (dl_bucket_name dl) k = Some (etag, len)"
    by (auto simp: complete_def split: option.splits)
  then have "download_object env dl d k fs = Some (fs, Inr ())"
    using assms(1,2) Cons.prems by (simp add: download_object_def complete_def need_to_download_def base_name_def [symmetric] Let_def)
  then show ?case
    using Cons by simp
qed simp

lemma complete_status: "complete dl d fs k \<Longrightarrow> file_status fs (get_local_download_paths d (base_name k) (dl_source dl)) = FileDownloaded"
  by (auto simp: complete_def check_file_exist_def file_status_def file_exists_def get_local_download_paths_def
      meta_file_def load_meta_data_def split: if_splits option.splits)

subsection \<open>Properties\<close>


definition sample_client :: bucket_client where
  "sample_client = \<lparr>head_bucket = (\<lambda>_. True), head_object = (\<lambda>_ k. Some (''e'', length k)),
     list_objects = (\<lambda>_ _. [''m/'', ''m/a'', ''m/b'']), fetch_object = (\<lambda>_ k. Some k)\<rparr>"

definition sample_downloader :: bucket_downloader where
  "sample_downloader = \<lparr>dl_source = S3, dl_client = sample_client, dl_model_name = ''m'', dl_bucket_name = ''b'',
     dl_bucket_path = ''m/'', dl_allow_suffix = None\<rparr>"

definition sample_env :: download_env where
  "sample_env = \<lparr>FORCE_DOWNLOAD = False, CHECK_FILE_EXIST = True, TOS_VERSION = ''v2'', ALLOW_FILE_SUFFIX = None\<rparr>"

definition empty_fs :: local_fs where
  "empty_fs = \<lparr>fs_files = [], fs_dirs = [], fs_lock = (\<lambda>_. Free), fs_fetched = []\<rparr>"

lemma sample_files: "filtered_files sample_downloader = [''m/a'', ''m/b'']"
  by (simp add: filtered_files_def directory_list_def sample_downloader_def sample_client_def ends_with_def)


end
