(* ===== verification/Py_Values.thy ===== *)
theory Py_Values
  imports Py_Text Floats
begin

text \<open>
  The dynamically typed values the services read from JSON documents and log lines: the built-in
  conversions \<open>int(v)\<close> and \<open>float(v)\<close>, truth, iteration, subscripts and the \<open>get\<close> method, each with the
  exception Python raises on a value of the wrong kind. A dict keeps its insertion order.
\<close>

datatype pyval =
    PNone
  | PBool bool
  | PInt int
  | PFloat flt
  | PStr string
  | PList "pyval list"
  | PDict "(string \<times> pyval) list"

subsection \<open>Text to number\<close>

text \<open>A run of digits in which single underscores may separate digits; what follows is returned.\<close>

fun skip_underscore :: "string \<Rightarrow> string" where
  "skip_underscore (c # d # r) = (if c = CHR ''_'' \<and> is_digit d then d # r else c # d # r)"
| "skip_underscore s = s"

lemma skip_underscore_length: "length (skip_underscore s) \<le> length s"
  by (induction s rule: skip_underscore.induct) simp_all

function digit_run :: "string \<Rightarrow> string \<times> string" where
  "digit_run [] = ([], [])"
| "digit_run (c # cs) =
     (if is_digit c then (let (ds, r) = digit_run (skip_underscore cs) in (c # ds, r)) else ([], c # cs))"
  by pat_completeness auto
termination digit_run
  by (relation "measure length") (auto simp: le_imp_less_Suc skip_underscore_length)

definition lower_char :: "char \<Rightarrow> char" where
  "lower_char c = (if 65 \<le> code c \<and> code c \<le> 90 then char_of (code c + 32) else c)"

definition scale10 :: "real \<Rightarrow> int \<Rightarrow> real" where
  "scale10 x e = (if e \<ge> 0 then x * 10 ^ nat e else x / 10 ^ nat (- e))"

text \<open>The exponent part of a literal: absent, or a sign and at least one digit up to the end.\<close>

definition exponent :: "string \<Rightarrow> int option" where
  "exponent s =
     (case s of
        [] \<Rightarrow> Some 0
      | c # t \<Rightarrow>
          if c \<noteq> CHR ''e'' \<and> c \<noteq> CHR ''E'' then None
          else (let neg = (case t of d # _ \<Rightarrow> d = CHR ''-'' | [] \<Rightarrow> False);
                    u = (case t of d # r \<Rightarrow> if d = CHR ''-'' \<or> d = CHR ''+'' then r else t | [] \<Rightarrow> []);
                    (ds, r) = digit_run u
                in if ds = [] \<or> r \<noteq> [] then None else Some (if neg then - int (nat_of ds) else int (nat_of ds))))"

definition unsigned_float :: "string \<Rightarrow> flt option" where
  "unsigned_float s =
     (let t = map lower_char s in
      if t = ''inf'' \<or> t = ''infinity'' then Some PInf
      else if t = ''nan'' then Some NaN
      else (let (ip, r) = digit_run s;
                (fp, r2) = (case r of c # u \<Rightarrow> if c = CHR ''.'' then digit_run u else ([], r) | [] \<Rightarrow> ([], []))
            in if ip = [] \<and> fp = [] then None
               else map_option (\<lambda>e. Fin (scale10 (real (nat_of (ip @ fp))) (e - int (length fp)))) (exponent r2)))"

text \<open>\<open>float(s)\<close>; no result where Python raises \<open>ValueError\<close>.\<close>

definition py_float :: "string \<Rightarrow> flt option" where
  "py_float s =
     (case strip s of
        [] \<Rightarrow> None
      | c # t \<Rightarrow>
          if c = CHR ''-'' then map_option uminus (unsigned_float t)
          else if c = CHR ''+'' then unsigned_float t
          else unsigned_float (c # t))"

subsection \<open>Values of a JSON document\<close>

fun py_of_json :: "json \<Rightarrow> pyval" where
  "py_of_json JNull = PNone"
| "py_of_json (JBool b) = PBool b"
| "py_of_json (JInt i) = PInt i"
| "py_of_json (JFloat l) = PFloat (case py_float l of Some x \<Rightarrow> x | None \<Rightarrow> NaN)"
| "py_of_json (JStr s) = PStr s"
| "py_of_json (JArr vs) = PList (map py_of_json vs)"
| "py_of_json (JObj kvs) = PDict (map (\<lambda>kv. (fst kv, py_of_json (snd kv))) kvs)"

definition loads :: "string \<Rightarrow> py_error + pyval" where
  "loads s = ebind (json_loads s) (\<lambda>v. Inr (py_of_json v))"

subsection \<open>Conversions\<close>

definition trunc :: "real \<Rightarrow> int" where
  "trunc x = (if x < 0 then - \<lfloor>- x\<rfloor> else \<lfloor>x\<rfloor>)"

fun as_int :: "pyval \<Rightarrow> py_error + int" where
  "as_int (PBool b) = Inr (if b then 1 else 0)"
| "as_int (PInt i) = Inr i"
| "as_int (PFloat (Fin x)) = Inr (trunc x)"
| "as_int (PFloat NaN) = Inl ValueError"
| "as_int (PFloat _) = Inl OverflowError"
| "as_int (PStr s) = (case py_int s of Some i \<Rightarrow> Inr i | None \<Rightarrow> Inl ValueError)"
| "as_int _ = Inl TypeError"

fun as_float :: "pyval \<Rightarrow> py_error + flt" where
  "as_float (PBool b) = Inr (Fin (if b then 1 else 0))"
| "as_float (PInt i) = Inr (Fin (of_int i))"
| "as_float (PFloat x) = Inr x"
| "as_float (PStr s) = (case py_float s of Some x \<Rightarrow> Inr x | None \<Rightarrow> Inl ValueError)"
| "as_float _ = Inl TypeError"

text \<open>\<open>round(x)\<close>: to the nearest integer, a tie to the even one.\<close>

definition py_round :: "real \<Rightarrow> int" where
  "py_round x =
     (let f = \<lfloor>x\<rfloor>; d = x - of_int f in
      if d < 1 / 2 then f else if d > 1 / 2 then f + 1 else if even f then f else f + 1)"

lemma py_round_of_int [simp]: "py_round (of_int i) = i"
  by (simp add: py_round_def)

lemma py_round_of_nat [simp]: "py_round (of_nat n) = int n"
  using py_round_of_int [of "int n"] by simp

subsection \<open>Containers\<close>

fun truthy :: "pyval \<Rightarrow> bool" where
  "truthy PNone = False"
| "truthy (PBool b) = b"
| "truthy (PInt i) = (i \<noteq> 0)"
| "truthy (PFloat x) = (x \<noteq> Fin 0)"
| "truthy (PStr s) = (s \<noteq> [])"
| "truthy (PList vs) = (vs \<noteq> [])"
| "truthy (PDict kvs) = (kvs \<noteq> [])"

text \<open>\<open>v or w\<close>.\<close>

definition py_or :: "pyval \<Rightarrow> pyval \<Rightarrow> pyval" where
  "py_or v w = (if truthy v then v else w)"

text \<open>\<open>for x in v\<close>.\<close>

fun py_iter :: "pyval \<Rightarrow> py_error + pyval list" where
  "py_iter (PList vs) = Inr vs"
| "py_iter (PStr s) = Inr (map (\<lambda>c. PStr [c]) s)"
| "py_iter (PDict kvs) = Inr (map (\<lambda>kv. PStr (fst kv)) kvs)"
| "py_iter _ = Inl TypeError"

text \<open>\<open>v[k]\<close> and \<open>v.get(k, d)\<close> with a string key.\<close>

fun py_item :: "pyval \<Rightarrow> string \<Rightarrow> py_error + pyval" where
  "py_item (PDict kvs) k = (case map_of kvs k of Some v \<Rightarrow> Inr v | None \<Rightarrow> Inl KeyError)"
| "py_item _ k = Inl TypeError"

fun py_get :: "pyval \<Rightarrow> string \<Rightarrow> pyval \<Rightarrow> py_error + pyval" where
  "py_get (PDict kvs) k d = Inr (case map_of kvs k of Some v \<Rightarrow> v | None \<Rightarrow> d)"
| "py_get _ k d = Inl AttributeError"

text \<open>\<open>v > 0\<close>: defined on numbers only.\<close>

fun py_positive :: "pyval \<Rightarrow> py_error + bool" where
  "py_positive (PBool b) = Inr b"
| "py_positive (PInt i) = Inr (i > 0)"
| "py_positive (PFloat x) = Inr (x > Fin 0)"
| "py_positive _ = Inl TypeError"

end
