(* ===== verification/KV_Cache.thy ===== *)
theory KV_Cache
  imports Py_Values "HOL-Library.Product_Lexorder" "HOL-Library.AList"
begin

text \<open>
  The KV-cache simulator (\<open>workloads/mooncake/simulate_kvcache.py\<close>): a workload is a list of requests,
  a request the list of its block hashes, and a policy replays the requests against a cache of a
  bounded number of blocks. The three policies share the loop over the requests; each has its own
  cache state and its own access to one block. Plots and printed tables are left out.
\<close>

type_synonym block = int

subsection \<open>Loading a workload\<close>

text \<open>One request of a line: its block hashes, and the tokens per block if none is known yet.\<close>

definition load_request :: "int option \<Rightarrow> pyval \<Rightarrow> py_error + block list \<times> int option" where
  "load_request tpb req =
     ebind (py_get req ''hash_ids'' PNone) (\<lambda>h.
     ebind (py_iter (py_or h (PList []))) (\<lambda>hids.
     ebind (traverse as_int hids) (\<lambda>bs.
       if tpb \<noteq> None \<or> hids = [] then Inr (bs, tpb)
       else ebind (py_get req ''Prompt Length'' PNone) (\<lambda>l.
            let pl = py_or l (PInt 0) in
            ebind (py_positive pl) (\<lambda>pos.
              if \<not> pos then Inr (bs, tpb)
              else ebind (as_float pl) (\<lambda>x.
                   case x of
                     Fin r \<Rightarrow> Inr (bs, Some (max 1 (py_round (r / real (length hids)))))
                   | _ \<Rightarrow> Inl OverflowError))))))"

fun load_requests :: "int option \<Rightarrow> pyval list \<Rightarrow> py_error + block list list \<times> int option" where
  "load_requests tpb [] = Inr ([], tpb)"
| "load_requests tpb (r # rs) =
     ebind (load_request tpb r) (\<lambda>(bs, tpb1).
     ebind (load_requests tpb1 rs) (\<lambda>(bss, tpb2). Inr (bs # bss, tpb2)))"

fun load_lines :: "int option \<Rightarrow> string list \<Rightarrow> py_error + block list list \<times> int option" where
  "load_lines tpb [] = Inr ([], tpb)"
| "load_lines tpb (l # ls) =
     ebind (loads l) (\<lambda>obj.
     ebind (py_item obj ''requests'') (\<lambda>v.
     ebind (py_iter v) (\<lambda>reqs.
     ebind (load_requests tpb reqs) (\<lambda>(bss, tpb1).
     ebind (load_lines tpb1 ls) (\<lambda>(rest, tpb2). Inr (bss @ rest, tpb2))))))"

definition load_workload :: "string list \<Rightarrow> py_error + block list list \<times> int" where
  "load_workload lines =
     ebind (load_lines None lines) (\<lambda>(seqs, tpb). Inr (seqs, case tpb of Some t \<Rightarrow> t | None \<Rightarrow> 128))"

subsection \<open>The replay loop\<close>

fun prefix_match :: "(block \<Rightarrow> bool) \<Rightarrow> block list \<Rightarrow> nat" where
  "prefix_match has [] = 0"
| "prefix_match has (b # bs) = (if has b then Suc (prefix_match has bs) else 0)"

fun access_blocks :: "(block \<Rightarrow> 's \<Rightarrow> py_error + 's) \<Rightarrow> block list \<Rightarrow> 's \<Rightarrow> py_error + 's" where
  "access_blocks access [] s = Inr s"
| "access_blocks access (b # bs) s = ebind (access b s) (access_blocks access bs)"

fun replay :: "(block \<Rightarrow> 's \<Rightarrow> py_error + 's) \<Rightarrow> ('s \<Rightarrow> block \<Rightarrow> bool) \<Rightarrow> block list list \<Rightarrow> 's \<Rightarrow> py_error + real list" where
  "replay access has [] s = Inr []"
| "replay access has (hids # rest) s =
     (if hids = [] then ebind (replay access has rest s) (\<lambda>hs. Inr (0 # hs))
      else let m = prefix_match (has s) hids in
           ebind (access_blocks access hids s) (\<lambda>s1.
           ebind (replay access has rest s1) (\<lambda>hs. Inr (real m / real (length hids) # hs))))"

subsection \<open>Least recently used\<close>

text \<open>An \<open>OrderedDict\<close> as its keys, the oldest first.\<close>

definition move_to_end :: "block \<Rightarrow> block list \<Rightarrow> block list" where
  "move_to_end b cache = remove1 b cache @ [b]"

definition lru_access :: "int \<Rightarrow> block \<Rightarrow> block list \<Rightarrow> py_error + block list" where
  "lru_access capacity b cache =
     (if b \<in> set cache then Inr (move_to_end b cache)
      else if int (length cache) \<ge> capacity then
        (case cache of [] \<Rightarrow> Inl KeyError | _ # cache1 \<Rightarrow> Inr (cache1 @ [b]))
      else Inr (cache @ [b]))"

definition simulate_lru :: "block list list \<Rightarrow> int \<Rightarrow> py_error + real list" where
  "simulate_lru seqs capacity = replay (lru_access capacity) (\<lambda>cache b. b \<in> set cache) seqs []"

subsection \<open>First in, first out\<close>

record fifo_cache =
  cache_set :: "block set"
  cache_q :: "block list"

definition fifo_access :: "int \<Rightarrow> block \<Rightarrow> fifo_cache \<Rightarrow> py_error + fifo_cache" where
  "fifo_access capacity b c =
     (if b \<in> cache_set c then Inr c
      else if int (card (cache_set c)) \<ge> capacity then
        (case cache_q c of
           [] \<Rightarrow> Inl IndexError
         | evicted # q \<Rightarrow> Inr \<lparr>cache_set = insert b (cache_set c - {evicted}), cache_q = q @ [b]\<rparr>)
      else Inr \<lparr>cache_set = insert b (cache_set c), cache_q = cache_q c @ [b]\<rparr>)"

definition simulate_fifo :: "block list list \<Rightarrow> int \<Rightarrow> py_error + real list" where
  "simulate_fifo seqs capacity =
     replay (fifo_access capacity) (\<lambda>c b. b \<in> cache_set c) seqs \<lparr>cache_set = {}, cache_q = []\<rparr>"

subsection \<open>Belady's policy\<close>

text \<open>The backward pass: the next use of every access of the flattened workload, and the position
  where each block was last seen by the pass.\<close>

fun next_uses :: "nat \<Rightarrow> nat \<Rightarrow> block list \<Rightarrow> nat list \<times> (block \<rightharpoonup> nat)" where
  "next_uses n p [] = ([], Map.empty)"
| "next_uses n p (b # bs) =
     (let (nus, last_seen) = next_uses n (Suc p) bs
      in ((case last_seen b of Some q \<Rightarrow> q | None \<Rightarrow> n) # nus, last_seen(b \<mapsto> p)))"

text \<open>The heap is kept as its sorted contents, so the smallest entry is the first.\<close>

record belady_cache =
  cache_nu :: "(block \<times> nat) list"
  nu_heap :: "(int \<times> block) list"
  position :: nat

fun pop_valid :: "(int \<times> block) list \<Rightarrow> (block \<times> nat) list \<Rightarrow> (int \<times> block) list \<times> (block \<times> nat) list" where
  "pop_valid [] nu = ([], nu)"
| "pop_valid ((k, cand) # h) nu =
     (if map_option int (map_of nu cand) = Some (- k) then (h, AList.delete cand nu) else pop_valid h nu)"

definition belady_access :: "nat list \<Rightarrow> int \<Rightarrow> block \<Rightarrow> belady_cache \<Rightarrow> py_error + belady_cache" where
  "belady_access next_use capacity b c =
     ebind (py_index next_use (int (position c))) (\<lambda>nu.
       let (h, cn) =
             (if b \<notin> fst ` set (cache_nu c) \<and> int (length (cache_nu c)) \<ge> capacity
              then pop_valid (nu_heap c) (cache_nu c) else (nu_heap c, cache_nu c))
       in Inr \<lparr>cache_nu = AList.update b nu cn, nu_heap = insort (- int nu, b) h,
               position = Suc (position c)\<rparr>)"

definition simulate_belady :: "block list list \<Rightarrow> int \<Rightarrow> py_error + real list" where
  "simulate_belady seqs capacity =
     (let flat = concat seqs
      in replay (belady_access (fst (next_uses (length flat) 0 flat)) capacity)
           (\<lambda>c b. b \<in> fst ` set (cache_nu c)) seqs \<lparr>cache_nu = [], nu_heap = [], position = 0\<rparr>)"

subsection \<open>Aggregation and sweeps\<close>

datatype policy = LRU | FIFO | Belady

fun policy_fn :: "policy \<Rightarrow> block list list \<Rightarrow> int \<Rightarrow> py_error + real list" where
  "policy_fn LRU = simulate_lru"
| "policy_fn FIFO = simulate_fifo"
| "policy_fn Belady = simulate_belady"

fun total_hits :: "(block list \<times> real) list \<Rightarrow> int" where
  "total_hits [] = 0"
| "total_hits ((hids, hr) # rest) =
     (if hids = [] then 0 else py_round (hr * real (length hids))) + total_hits rest"

definition total_blocks :: "(block list \<times> real) list \<Rightarrow> nat" where
  "total_blocks zs = sum_list (map (length \<circ> fst) zs)"

definition aggregate_hit_ratio :: "block list list \<Rightarrow> real list \<Rightarrow> real" where
  "aggregate_hit_ratio seqs hit_ratios =
     (let zs = zip seqs hit_ratios
      in if total_blocks zs > 0 then of_int (total_hits zs) / real (total_blocks zs) else 0)"

definition kb_per_gb :: real where
  "kb_per_gb = 1024 * 1024"

text \<open>The floor division raises on a zero divisor.\<close>

definition gb_to_blocks :: "real \<Rightarrow> real \<Rightarrow> int \<Rightarrow> real \<Rightarrow> py_error + int" where
  "gb_to_blocks kv_kb_per_token dtype_mult tokens_per_block gb =
     (if kv_kb_per_token * dtype_mult = 0 \<or> tokens_per_block = 0 then Inl ZeroDivisionError
      else Inr (max 1 \<lfloor>gb * kb_per_gb / (kv_kb_per_token * dtype_mult) / of_int tokens_per_block\<rfloor>))"

definition sorted_set :: "int list \<Rightarrow> int list" where
  "sorted_set xs = sort (remdups xs)"

text \<open>The sweep points in GiB come from NumPy's \<open>logspace\<close> and are an argument.\<close>

definition auto_mrc_capacities_blocks :: "real list \<Rightarrow> real \<Rightarrow> real \<Rightarrow> int \<Rightarrow> py_error + int list" where
  "auto_mrc_capacities_blocks gbs kv_kb_per_token dtype_mult tokens_per_block =
     ebind (traverse (gb_to_blocks kv_kb_per_token dtype_mult tokens_per_block) gbs) (\<lambda>bs. Inr (sorted_set bs))"

record analysis =
  unique_blocks :: nat
  mrc :: "(policy \<times> real list) list"
  timeseries :: "(int \<times> (policy \<times> real list) list) list"

text \<open>The loop over the swept capacities and, inside, over the policies; it appends to the curve of each.\<close>

fun mrc_point :: "block list list \<Rightarrow> int \<Rightarrow> policy list \<Rightarrow> (policy \<times> real list) list \<Rightarrow> py_error + (policy \<times> real list) list" where
  "mrc_point seqs cap [] m = Inr m"
| "mrc_point seqs cap (p # ps) m =
     ebind (policy_fn p seqs cap) (\<lambda>hs.
       mrc_point seqs cap ps (AList.map_entry p (\<lambda>l. l @ [aggregate_hit_ratio seqs hs]) m))"

fun mrc_sweep :: "block list list \<Rightarrow> int list \<Rightarrow> policy list \<Rightarrow> (policy \<times> real list) list \<Rightarrow> py_error + (policy \<times> real list) list" where
  "mrc_sweep seqs [] ps m = Inr m"
| "mrc_sweep seqs (cap # caps) ps m = ebind (mrc_point seqs cap ps m) (mrc_sweep seqs caps ps)"

definition run_policies :: "block list list \<Rightarrow> policy list \<Rightarrow> int \<Rightarrow> py_error + (policy \<times> real list) list" where
  "run_policies seqs policies cap =
     ebind (traverse (\<lambda>p. ebind (policy_fn p seqs cap) (\<lambda>hs. Inr (p, hs))) policies) (\<lambda>ts. Inr (dict_from ts))"

definition analyze_sequences :: "block list list \<Rightarrow> int list \<Rightarrow> int list \<Rightarrow> policy list \<Rightarrow> py_error + analysis" where
  "analyze_sequences seqs mrc_caps ts_caps policies =
     ebind (mrc_sweep seqs mrc_caps policies (dict_from (map (\<lambda>p. (p, [])) policies))) (\<lambda>curves.
     ebind (traverse (\<lambda>cap. ebind (run_policies seqs policies cap) (\<lambda>ts. Inr (cap, ts))) ts_caps) (\<lambda>series.
     Inr \<lparr>unique_blocks = card (set (concat seqs)), mrc = curves, timeseries = dict_from series\<rparr>))"

definition analyze_workload :: "string list \<Rightarrow> int list \<Rightarrow> int list \<Rightarrow> policy list \<Rightarrow> py_error + analysis" where
  "analyze_workload lines mrc_caps ts_caps policies =
     ebind (load_workload lines) (\<lambda>(seqs, _). analyze_sequences seqs mrc_caps ts_caps policies)"

text \<open>The capacities of the time series, in the order of precedence of the command line options.\<close>

definition ts_capacities :: "int list option \<Rightarrow> int list option \<Rightarrow> real list \<Rightarrow> real \<Rightarrow> real \<Rightarrow> int \<Rightarrow> py_error + int list" where
  "ts_capacities blocks tokens gbs kv_kb_per_token dtype_mult tokens_per_block =
     (case blocks of
        Some bs \<Rightarrow> Inr (sorted_set bs)
      | None \<Rightarrow>
         (case tokens of
            Some ts \<Rightarrow>
              if tokens_per_block = 0 then Inl ZeroDivisionError
              else Inr (sorted_set (map (\<lambda>t. max 1 (t div tokens_per_block)) ts))
          | None \<Rightarrow>
              ebind (traverse (gb_to_blocks kv_kb_per_token dtype_mult tokens_per_block) gbs)
                (\<lambda>bs. Inr (sorted_set bs))))"

definition mrc_capacities :: "int list option \<Rightarrow> real list \<Rightarrow> real \<Rightarrow> real \<Rightarrow> int \<Rightarrow> py_error + int list" where
  "mrc_capacities explicit gbs kv_kb_per_token dtype_mult tokens_per_block =
     (case explicit of
        Some cs \<Rightarrow> Inr (sorted_set cs)
      | None \<Rightarrow> auto_mrc_capacities_blocks gbs kv_kb_per_token dtype_mult tokens_per_block)"

subsection \<open>Prefix matches and aggregation\<close>

lemma prefix_match_le: "prefix_match has bs \<le> length bs"
  by (induction bs) auto

lemma prefix_match_mono:
  "(\<And>b. b \<in> set bs \<Longrightarrow> has b \<Longrightarrow> has' b) \<Longrightarrow> prefix_match has bs \<le> prefix_match has' bs"
  by (induction bs) auto

lemma prefix_match_cong:
  "(\<And>b. b \<in> set bs \<Longrightarrow> has b \<longleftrightarrow> has' b) \<Longrightarrow> prefix_match has bs = prefix_match has' bs"
  by (induction bs) auto

lemma hit_ratio_mono:
  "(\<And>b. b \<in> set bs \<Longrightarrow> has b \<Longrightarrow> has' b) \<Longrightarrow>
   real (prefix_match has bs) / real (length bs) \<le> real (prefix_match has' bs) / real (length bs)"
  by (simp add: divide_right_mono prefix_match_mono)

lemma access_blocks_append:
  "access_blocks access (bs @ cs) s = ebind (access_blocks access bs s) (access_blocks access cs)"
proof (induction bs arbitrary: s)
  case (Cons b bs)
  then show ?case by (cases "access b s") simp_all
qed simp

text \<open>The rounding in the aggregate recovers the matched blocks of each request.\<close>

lemma py_round_mono: "x \<le> y \<Longrightarrow> py_round x \<le> py_round y"
proof -
  assume "x \<le> y"
  have "py_round x \<le> \<lfloor>x\<rfloor> + 1" "\<lfloor>y\<rfloor> \<le> py_round y"
    by (auto simp: py_round_def Let_def)
  moreover have "\<lfloor>x\<rfloor> \<le> \<lfloor>y\<rfloor>"
    using \<open>x \<le> y\<close> by (rule floor_mono)
  ultimately show ?thesis
    using \<open>x \<le> y\<close> by (cases "\<lfloor>x\<rfloor> = \<lfloor>y\<rfloor>") (auto simp: py_round_def Let_def)
qed

lemma total_hits_mono:
  "list_all2 (\<le>) hs hs' \<Longrightarrow> total_hits (zip seqs hs) \<le> total_hits (zip seqs hs')"
proof (induction hs hs' arbitrary: seqs rule: list_all2_induct)
  case (Cons h hs h' hs')
  then show ?case
    by (cases seqs) (auto intro!: add_mono py_round_mono mult_right_mono)
qed simp

lemma total_blocks_zip: "length hs = length hs' \<Longrightarrow> total_blocks (zip seqs hs) = total_blocks (zip seqs hs')"
proof -
  assume "length hs = length hs'"
  then have "map fst (zip seqs hs) = map fst (zip seqs hs')"
    by (simp add: map_fst_zip_take)
  then show ?thesis
    by (simp add: total_blocks_def flip: map_map)
qed

lemma aggregate_mono:
  assumes "list_all2 (\<le>) hs hs'"
  shows "aggregate_hit_ratio seqs hs \<le> aggregate_hit_ratio seqs hs'"
  using total_hits_mono [OF assms, of seqs] total_blocks_zip [OF list_all2_lengthD [OF assms], of seqs]
  by (simp add: aggregate_hit_ratio_def Let_def divide_right_mono)

lemma total_hits_bounds:
  "list_all (\<lambda>h. 0 \<le> h \<and> h \<le> 1) hs \<Longrightarrow>
   0 \<le> total_hits (zip seqs hs) \<and> total_hits (zip seqs hs) \<le> int (total_blocks (zip seqs hs))"
proof (induction hs arbitrary: seqs)
  case (Cons h hs)
  show ?case
  proof (cases seqs)
    case (Cons b bs)
    have "0 \<le> py_round (h * real (length b))" "py_round (h * real (length b)) \<le> int (length b)"
      using py_round_mono [of 0 "h * real (length b)"] py_round_mono [of "h * real (length b)" "real (length b)"]
        py_round_of_nat [of 0] py_round_of_nat [of "length b"] Cons.prems
      by (auto simp: mult_left_le_one_le)
    then show ?thesis
      using Cons Cons.IH [of bs] Cons.prems by (auto simp: total_blocks_def)
  qed (simp add: total_blocks_def)
qed (simp add: total_blocks_def)

lemma aggregate_bounds:
  "list_all (\<lambda>h. 0 \<le> h \<and> h \<le> 1) hs \<Longrightarrow> 0 \<le> aggregate_hit_ratio seqs hs \<and> aggregate_hit_ratio seqs hs \<le> 1"
  using total_hits_bounds [of hs seqs] by (auto simp: aggregate_hit_ratio_def Let_def divide_le_eq)

subsection \<open>What every policy promises\<close>

text \<open>
  The contract of a policy: an access never raises, brings its block into the cache and no other,
  keeps within the capacity, and evicts nothing while the capacity suffices. The first argument of
  \<open>ready\<close> is the list of accesses still to come, which the offline policy knows.
\<close>

locale cache_policy =
  fixes capacity :: int
    and access :: "block \<Rightarrow> 's \<Rightarrow> py_error + 's"
    and has :: "'s \<Rightarrow> block \<Rightarrow> bool"
    and ready :: "block list \<Rightarrow> 's \<Rightarrow> bool"
  assumes access_ok: "ready (b # bs) s \<Longrightarrow>
      \<exists>s1. access b s = Inr s1 \<and> ready bs s1 \<and> has s1 b \<and> (\<forall>c. has s1 c \<longrightarrow> c = b \<or> has s c)"
    and bounded: "ready bs s \<Longrightarrow> finite (Collect (has s)) \<and> int (card (Collect (has s))) \<le> capacity"
    and keeps: "ready (b # bs) s \<Longrightarrow> access b s = Inr s1 \<Longrightarrow>
      int (card (insert b (Collect (has s)))) \<le> capacity \<Longrightarrow> has s c \<Longrightarrow> has s1 c"
begin

lemma accesses_ok:
  "ready (bs @ cs) s \<Longrightarrow> \<exists>s1. access_blocks access bs s = Inr s1 \<and> ready cs s1 \<and>
     (\<forall>c. has s1 c \<longrightarrow> c \<in> set bs \<or> has s c)"
proof (induction bs arbitrary: s)
  case (Cons b bs)
  then obtain s1 where "access b s = Inr s1" "ready (bs @ cs) s1" "\<forall>c. has s1 c \<longrightarrow> c = b \<or> has s c"
    using access_ok [of b "bs @ cs" s] by auto
  with Cons.IH [of s1] show ?case by fastforce
qed auto

lemma accesses_keep:
  "ready (bs @ cs) s \<Longrightarrow> access_blocks access bs s = Inr s1 \<Longrightarrow>
   int (card (Collect (has s) \<union> set bs)) \<le> capacity \<Longrightarrow> Collect (has s1) = Collect (has s) \<union> set bs"
proof (induction bs arbitrary: s)
  case (Cons b bs)
  then obtain s2 where s2: "access b s = Inr s2" "ready (bs @ cs) s2" "has s2 b"
    "\<forall>c. has s2 c \<longrightarrow> c = b \<or> has s c"
    using access_ok [of b "bs @ cs" s] by auto
  have fin: "finite (Collect (has s) \<union> set (b # bs))"
    using bounded Cons.prems(1) by blast
  have "card (insert b (Collect (has s))) \<le> card (Collect (has s) \<union> set (b # bs))"
    by (rule card_mono [OF fin]) auto
  then have "has s c \<Longrightarrow> has s2 c" for c
    using keeps [of b "bs @ cs" s s2 c] Cons.prems s2(1) by auto
  then have eq: "Collect (has s2) = insert b (Collect (has s))"
    using s2 by auto
  show ?case
    using Cons.IH [OF s2(2)] Cons.prems s2(1) eq by simp
qed simp

lemma replay_returns:
  "ready (concat seqs) s \<Longrightarrow> \<exists>hs. replay access has seqs s = Inr hs \<and> length hs = length seqs \<and>
     list_all (\<lambda>h. 0 \<le> h \<and> h \<le> 1) hs"
proof (induction seqs arbitrary: s)
  case (Cons r rest)
  then obtain s1 where "access_blocks access r s = Inr s1" "ready (concat rest) s1"
    using accesses_ok [of r "concat rest" s] by auto
  with Cons show ?case
    by (cases "r = []") (fastforce simp: Let_def prefix_match_le divide_le_eq)+
qed simp

end

text \<open>The cache without a bound on its size, which only misses the first access to a block.\<close>

definition unbounded_hits :: "block list list \<Rightarrow> block set \<Rightarrow> py_error + real list" where
  "unbounded_hits seqs = replay (\<lambda>b C. Inr (insert b C)) (\<lambda>C b. b \<in> C) seqs"

lemma access_blocks_unbounded [simp]: "access_blocks (\<lambda>b C. Inr (insert b C)) bs C = Inr (C \<union> set bs)"
  by (induction bs arbitrary: C) auto

lemma unbounded_hits_simps [simp]:
  "unbounded_hits [] C = Inr []"
  "unbounded_hits ([] # rest) C = ebind (unbounded_hits rest C) (\<lambda>hs. Inr (0 # hs))"
  "r \<noteq> [] \<Longrightarrow> unbounded_hits (r # rest) C =
     ebind (unbounded_hits rest (C \<union> set r)) (\<lambda>hs. Inr (real (prefix_match (\<lambda>b. b \<in> C) r) / real (length r) # hs))"
  by (simp_all add: unbounded_hits_def Let_def)

context cache_policy
begin

lemma replay_below_unbounded:
  "ready (concat seqs) s \<Longrightarrow> Collect (has s) \<subseteq> C \<Longrightarrow>
   \<exists>hs us. replay access has seqs s = Inr hs \<and> unbounded_hits seqs C = Inr us \<and> list_all2 (\<le>) hs us"
proof (induction seqs arbitrary: s C)
  case (Cons r rest)
  then obtain s1 where s1: "access_blocks access r s = Inr s1" "ready (concat rest) s1"
    "\<forall>c. has s1 c \<longrightarrow> c \<in> set r \<or> has s c"
    using accesses_ok [of r "concat rest" s] by auto
  have "Collect (has s1) \<subseteq> C \<union> set r"
    using s1(3) Cons.prems(2) by auto
  from Cons.IH [OF s1(2) this]
  obtain hs us where "replay access has rest s1 = Inr hs" "unbounded_hits rest (C \<union> set r) = Inr us" "list_all2 (\<le>) hs us"
    by blast
  moreover have "real (prefix_match (has s) r) / real (length r) \<le> real (prefix_match (\<lambda>b. b \<in> C) r) / real (length r)"
    by (rule hit_ratio_mono) (use Cons.prems(2) in auto)
  ultimately show ?case
    using s1(1) Cons.prems Cons.IH [of s C] by (cases "r = []") (auto simp: Let_def)
qed simp

lemma replay_large:
  "ready (concat seqs) s \<Longrightarrow> int (card (Collect (has s) \<union> set (concat seqs))) \<le> capacity \<Longrightarrow>
   replay access has seqs s = unbounded_hits seqs (Collect (has s))"
proof (induction seqs arbitrary: s)
  case (Cons r rest)
  then obtain s1 where s1: "access_blocks access r s = Inr s1" "ready (concat rest) s1"
    using accesses_ok [of r "concat rest" s] by auto
  have fin: "finite (Collect (has s) \<union> set (concat (r # rest)))"
    using bounded Cons.prems(1) by blast
  have "card (Collect (has s) \<union> set r) \<le> card (Collect (has s) \<union> set (concat (r # rest)))"
    by (rule card_mono [OF fin]) auto
  then have eq: "Collect (has s1) = Collect (has s) \<union> set r"
    using accesses_keep [of r "concat rest" s s1] Cons.prems s1(1) by simp
  show ?case
    using Cons.IH [OF s1(2)] Cons.IH [of s] Cons.prems s1(1) eq
    by (cases "r = []") (simp_all add: Let_def Un_assoc)
qed simp

end

subsection \<open>The online policies keep the contract\<close>

lemma move_to_end_props [simp]:
  assumes "b \<in> set cache"
  shows "set (move_to_end b cache) = set cache" "length (move_to_end b cache) = length cache"
proof -
  have "set (remove1 b cache) \<subseteq> set cache" "set cache \<subseteq> insert b (set (remove1 b cache))"
    using set_remove1_subset in_set_remove1 by fastforce+
  then show "set (move_to_end b cache) = set cache"
    using assms by (auto simp: move_to_end_def)
  show "length (move_to_end b cache) = length cache"
    using assms length_pos_if_in_set [OF assms] by (simp add: move_to_end_def length_remove1)
qed

lemma distinct_move_to_end [simp]: "distinct cache \<Longrightarrow> distinct (move_to_end b cache)"
  by (simp add: move_to_end_def)

definition lru_ready :: "int \<Rightarrow> block list \<Rightarrow> block list \<Rightarrow> bool" where
  "lru_ready capacity bs cache \<longleftrightarrow> 1 \<le> capacity \<and> distinct cache \<and> int (length cache) \<le> capacity"

interpretation lru: cache_policy capacity "lru_access capacity" "\<lambda>cache b. b \<in> set cache" "lru_ready capacity" for capacity
proof (unfold_locales, goal_cases)
  case (1 b bs s)
  then show ?case
    by (cases s) (auto simp: lru_ready_def lru_access_def)
next
  case (2 bs s)
  then show ?case
    by (simp add: lru_ready_def distinct_card)
next
  case (3 b bs s s1 c)
  then show ?case
    by (auto simp: lru_ready_def lru_access_def distinct_card card_insert_if split: if_splits)
qed

definition fifo_ready :: "int \<Rightarrow> block list \<Rightarrow> fifo_cache \<Rightarrow> bool" where
  "fifo_ready capacity bs c \<longleftrightarrow> 1 \<le> capacity \<and> distinct (cache_q c) \<and> cache_set c = set (cache_q c) \<and>
     int (length (cache_q c)) \<le> capacity"

interpretation fifo: cache_policy capacity "fifo_access capacity" "\<lambda>c b. b \<in> cache_set c" "fifo_ready capacity" for capacity
proof (unfold_locales, goal_cases)
  case (1 b bs s)
  then show ?case
    by (cases "cache_q s") (auto simp: fifo_ready_def fifo_access_def distinct_card)
next
  case (2 bs s)
  then show ?case
    by (simp add: fifo_ready_def distinct_card)
next
  case (3 b bs s s1 c)
  then show ?case
    by (auto simp: fifo_ready_def fifo_access_def distinct_card card_insert_if split: if_splits)
qed

subsection \<open>The LRU cache is the tail of the recency list\<close>

lemma remdups_snoc: "remdups (xs @ [x]) = removeAll x (remdups xs) @ [x]"
  by (induction xs) auto

lemma last_n_remove:
  "distinct xs \<Longrightarrow> x \<in> set (last_n k xs) \<Longrightarrow> removeAll x (last_n k xs) = last_n (k - 1) (removeAll x xs)"
proof -
  assume d: "distinct xs" and x: "x \<in> set (last_n k xs)"
  define us where "us = take (length xs - k) xs"
  have xs: "xs = us @ last_n k xs"
    by (simp add: us_def last_n_split)
  then have nx: "x \<notin> set us"
    using d x by (metis disjoint_iff distinct_append)
  have dl: "distinct (last_n k xs)"
    using d by (simp add: last_n_def)
  have len: "length (removeAll x (last_n k xs)) = length (last_n k xs) - 1"
    using dl x by (simp add: distinct_remove1_removeAll [symmetric] length_remove1)
  have "removeAll x xs = us @ removeAll x (last_n k xs)"
    by (subst xs) (simp add: nx)
  moreover have "length us = length xs - k" "length (last_n k xs) = min k (length xs)"
    by (auto simp: us_def)
  moreover have "last_n k xs \<noteq> []"
    using x by auto
  ultimately show ?thesis
    using len by (cases "length xs \<le> k") (auto simp: last_n_def us_def)
qed

lemma last_n_without:
  "distinct xs \<Longrightarrow> x \<notin> set (last_n k xs) \<Longrightarrow> k \<le> length (removeAll x xs) \<Longrightarrow> last_n k (removeAll x xs) = last_n k xs"
proof -
  assume x: "x \<notin> set (last_n k xs)" and k: "k \<le> length (removeAll x xs)"
  have "removeAll x xs = removeAll x (take (length xs - k) xs) @ last_n k xs"
    using x by (subst last_n_split [of xs k, symmetric], simp only: removeAll_append) simp
  moreover have "length (last_n k xs) = k"
  proof -
    have "length (removeAll x xs) \<le> length xs"
      by (simp add: removeAll_filter_not_eq)
    with k have "k \<le> length xs"
      by (rule le_trans)
    then show ?thesis by simp
  qed
  ultimately show ?thesis
    by (simp add: last_n_def)
qed

lemma lru_access_recency:
  assumes "1 \<le> capacity"
  shows "lru_access capacity b (last_n (nat capacity) (remdups tr)) = Inr (last_n (nat capacity) (remdups (tr @ [b])))"
proof -
  let ?k = "nat capacity" and ?R = "remdups tr"
  have snoc: "last_n ?k (remdups (tr @ [b])) = last_n (?k - 1) (removeAll b ?R) @ [b]"
    using assms by (simp add: remdups_snoc last_n_snoc del: remdups_append2)
  show ?thesis
  proof (cases "b \<in> set (last_n ?k ?R)")
    case True
    have "distinct (last_n ?k ?R)"
      by (simp add: last_n_def)
    then show ?thesis
      using True snoc last_n_remove [of ?R b ?k]
      by (simp add: lru_access_def move_to_end_def distinct_remove1_removeAll)
  next
    case False
    note out = False
    show ?thesis
    proof (cases "int (length ?R) \<ge> capacity")
      case True
      then have len: "?k \<le> length ?R" by simp
      have "last_n ?k ?R = ?R ! (length ?R - ?k) # last_n (?k - 1) ?R"
      proof -
        have "length ?R - ?k < length ?R" "Suc (length ?R - ?k) = length ?R - (?k - 1)"
          using len assms by auto
        then show ?thesis
          unfolding last_n_def by (metis Cons_nth_drop_Suc)
      qed
      moreover have "last_n (?k - 1) (removeAll b ?R) = last_n (?k - 1) ?R"
      proof (rule last_n_without)
        show "b \<notin> set (last_n (?k - 1) ?R)"
          using out last_n_mono [of "?k - 1" ?k ?R] by auto
        show "?k - 1 \<le> length (removeAll b ?R)"
          using len by (cases "b \<in> set ?R") (auto simp: distinct_remove1_removeAll [symmetric] length_remove1)
      qed simp
      ultimately show ?thesis
        using out snoc True assms by (simp add: lru_access_def)
    next
      case False
      then have "last_n ?k ?R = ?R" "length ?R \<le> ?k - 1"
        using assms by auto
      moreover from this have "removeAll b ?R = ?R"
        using out by simp
      ultimately show ?thesis
        using out snoc False by (simp add: lru_access_def)
    qed
  qed
qed

lemma lru_blocks_recency:
  "1 \<le> capacity \<Longrightarrow>
   access_blocks (lru_access capacity) bs (last_n (nat capacity) (remdups tr)) =
   Inr (last_n (nat capacity) (remdups (tr @ bs)))"
proof (induction bs arbitrary: tr)
  case (Cons b bs)
  show ?case
    using Cons.IH [OF Cons.prems, of "tr @ [b]"] lru_access_recency [OF Cons.prems, of b tr]
    by (simp del: remdups_append2)
qed simp

lemma lru_replay_mono:
  assumes "1 \<le> c" "c \<le> c'"
  shows "\<exists>hs hs'. replay (lru_access c) (\<lambda>cache b. b \<in> set cache) seqs (last_n (nat c) (remdups tr)) = Inr hs \<and>
           replay (lru_access c') (\<lambda>cache b. b \<in> set cache) seqs (last_n (nat c') (remdups tr)) = Inr hs' \<and>
           list_all2 (\<le>) hs hs'"
proof (induction seqs arbitrary: tr)
  case (Cons r rest)
  have c': "1 \<le> c'"
    using assms by simp
  note step = lru_blocks_recency [OF assms(1), of r tr] lru_blocks_recency [OF c', of r tr]
  have "set (last_n (nat c) (remdups tr)) \<subseteq> set (last_n (nat c') (remdups tr))"
    using assms by (intro last_n_mono) simp
  then have "real (prefix_match (\<lambda>b. b \<in> set (last_n (nat c) (remdups tr))) r) / real (length r)
      \<le> real (prefix_match (\<lambda>b. b \<in> set (last_n (nat c') (remdups tr))) r) / real (length r)"
    by (intro hit_ratio_mono) auto
  then show ?case
    using Cons.IH [of tr] Cons.IH [of "tr @ r"] step
    by (cases "r = []") (auto simp: Let_def simp del: remdups_append2)
qed simp

lemma simulate_lru_mono:
  "1 \<le> c \<Longrightarrow> c \<le> c' \<Longrightarrow>
   \<exists>hs hs'. simulate_lru seqs c = Inr hs \<and> simulate_lru seqs c' = Inr hs' \<and> list_all2 (\<le>) hs hs'"
  using lru_replay_mono [of c c' seqs "[]"] by (simp add: simulate_lru_def)

subsection \<open>The heap finds the farthest next use\<close>

text \<open>The next use of a block from a position on: the first position where it occurs, or the length.\<close>

fun first_use :: "nat \<Rightarrow> nat \<Rightarrow> block list \<Rightarrow> block \<Rightarrow> nat" where
  "first_use n p [] b = n"
| "first_use n p (c # cs) b = (if c = b then p else first_use n (Suc p) cs b)"

definition next_from :: "block list \<Rightarrow> nat \<Rightarrow> block \<Rightarrow> nat" where
  "next_from flat p b = first_use (length flat) p (drop p flat) b"

lemma next_uses_last_seen:
  "(case snd (next_uses n p bs) b of Some q \<Rightarrow> q | None \<Rightarrow> n) = first_use n p bs b"
  by (induction bs arbitrary: p) (auto simp: Let_def split_def)

lemma next_uses_length [simp]: "length (fst (next_uses n p bs)) = length bs"
  by (induction bs arbitrary: p) (auto simp: Let_def split_def)

lemma next_uses_nth:
  "i < length bs \<Longrightarrow> fst (next_uses n p bs) ! i = first_use n (Suc (p + i)) (drop (Suc i) bs) (bs ! i)"
proof (induction bs arbitrary: p i)
  case (Cons b bs)
  then show ?case
    by (cases i) (auto simp: Let_def split_def next_uses_last_seen)
qed simp

lemma next_use_is_next_from:
  "p < length flat \<Longrightarrow> fst (next_uses (length flat) 0 flat) ! p = next_from flat (Suc p) (flat ! p)"
  by (simp add: next_uses_nth next_from_def)

lemma next_from_step:
  "p < length flat \<Longrightarrow> b \<noteq> flat ! p \<Longrightarrow> next_from flat (Suc p) b = next_from flat p b"
  by (simp add: next_from_def Cons_nth_drop_Suc [symmetric])

definition heap_entries :: "(block \<times> nat) list \<Rightarrow> (int \<times> block) set" where
  "heap_entries nu = (\<lambda>(b, n). (- int n, b)) ` set nu"

lemma pop_valid_Min:
  "sorted h \<Longrightarrow> distinct (map fst nu) \<Longrightarrow> nu \<noteq> [] \<Longrightarrow> heap_entries nu \<subseteq> set h \<Longrightarrow>
   \<exists>h1. pop_valid h nu = (h1, AList.delete (snd (Min (heap_entries nu))) nu) \<and> sorted h1 \<and>
        heap_entries nu - {Min (heap_entries nu)} \<subseteq> set h1"
proof (induction h nu rule: pop_valid.induct)
  case (1 nu)
  then show ?case by (simp add: heap_entries_def)
next
  case (2 k cand h nu)
  have fin: "finite (heap_entries nu)"
    by (simp add: heap_entries_def)
  have valid: "(k, cand) \<in> heap_entries nu \<longleftrightarrow> map_option int (map_of nu cand) = Some (- k)"
    using \<open>distinct (map fst nu)\<close> by (force simp: heap_entries_def)
  show ?case
  proof (cases "(k, cand) \<in> heap_entries nu")
    case True
    have "(k, cand) \<le> e" if "e \<in> heap_entries nu" for e
      using that \<open>sorted ((k, cand) # h)\<close> \<open>heap_entries nu \<subseteq> set ((k, cand) # h)\<close> by auto
    then have "Min (heap_entries nu) = (k, cand)"
      using True fin by (intro Min_eqI) auto
    then show ?thesis
      using True valid 2 by auto
  next
    case False
    then have "heap_entries nu \<subseteq> set h"
      using 2 by auto
    then show ?thesis
      using False valid 2 by auto
  qed
qed

definition farthest :: "block list \<Rightarrow> nat \<Rightarrow> block list \<Rightarrow> block" where
  "farthest flat p cache = snd (Min ((\<lambda>c. (- int (next_from flat p c), c)) ` set cache))"

text \<open>Belady's rule without heap and table: on a full cache evict the block used farthest in the future.\<close>

definition farthest_access :: "block list \<Rightarrow> int \<Rightarrow> block \<Rightarrow> block list \<times> nat \<Rightarrow> py_error + block list \<times> nat" where
  "farthest_access flat capacity b s =
     (let (cache, p) = s in
      Inr (if b \<in> set cache then cache
           else (if int (length cache) \<ge> capacity then remove1 (farthest flat p cache) cache else cache) @ [b],
           Suc p))"

lemma farthest_in: "cache \<noteq> [] \<Longrightarrow> farthest flat p cache \<in> set cache"
proof -
  assume "cache \<noteq> []"
  then have "Min ((\<lambda>c. (- int (next_from flat p c), c)) ` set cache) \<in> (\<lambda>c. (- int (next_from flat p c), c)) ` set cache"
    by (intro Min_in) auto
  then show ?thesis
    by (auto simp: farthest_def)
qed

definition belady_ready :: "block list \<Rightarrow> int \<Rightarrow> block list \<Rightarrow> belady_cache \<Rightarrow> bool" where
  "belady_ready flat capacity rest c \<longleftrightarrow> 1 \<le> capacity \<and> drop (position c) flat = rest \<and>
     distinct (map fst (cache_nu c)) \<and> int (length (cache_nu c)) \<le> capacity \<and> sorted (nu_heap c) \<and>
     (\<forall>(b, n) \<in> set (cache_nu c). n = next_from flat (position c) b) \<and>
     heap_entries (cache_nu c) \<subseteq> set (nu_heap c)"

abbreviation next_table :: "block list \<Rightarrow> nat list" where
  "next_table flat \<equiv> fst (next_uses (length flat) 0 flat)"

lemma map_fst_update:
  "map fst (AList.update k v al) = (if k \<in> fst ` set al then map fst al else map fst al @ [k])"
  by (induction al) auto

lemma map_fst_delete: "distinct (map fst al) \<Longrightarrow> map fst (AList.delete k al) = remove1 k (map fst al)"
proof (induction al)
  case (Cons a al)
  then show ?case
    by (cases a) (auto simp: AList.delete_eq remove1_idem)
qed simp

lemma set_update_distinct:
  "distinct (map fst al) \<Longrightarrow> set (AList.update k v al) = insert (k, v) {p \<in> set al. fst p \<noteq> k}"
  by (induction al) (auto intro: rev_image_eqI)

lemma set_delete: "set (AList.delete k al) = {p \<in> set al. fst p \<noteq> k}"
  by (auto simp: AList.delete_eq)

lemma heap_entries_farthest:
  assumes "\<forall>(b, n) \<in> set nu. n = next_from flat p b"
  shows "heap_entries nu = (\<lambda>c. (- int (next_from flat p c), c)) ` fst ` set nu"
  using assms by (force simp: heap_entries_def image_image)

text \<open>Making room: the loop over the lazy entries deletes the farthest block and keeps the invariant.\<close>

definition room :: "int \<Rightarrow> block \<Rightarrow> belady_cache \<Rightarrow> (int \<times> block) list \<times> (block \<times> nat) list" where
  "room capacity b c =
     (if b \<notin> fst ` set (cache_nu c) \<and> int (length (cache_nu c)) \<ge> capacity
      then pop_valid (nu_heap c) (cache_nu c) else (nu_heap c, cache_nu c))"

lemma room_ok:
  assumes r: "belady_ready flat capacity (b # bs) c"
  shows "\<exists>h nu. room capacity b c = (h, nu) \<and> sorted h \<and> heap_entries nu \<subseteq> set h \<and> distinct (map fst nu) \<and>
    set nu \<subseteq> set (cache_nu c) \<and>
    map fst nu = (if b \<notin> fst ` set (cache_nu c) \<and> int (length (cache_nu c)) \<ge> capacity
      then remove1 (farthest flat (position c) (map fst (cache_nu c))) (map fst (cache_nu c)) else map fst (cache_nu c))"
proof (cases "b \<notin> fst ` set (cache_nu c) \<and> int (length (cache_nu c)) \<ge> capacity")
  case True
  have ne: "cache_nu c \<noteq> []"
    using r True by (auto simp: belady_ready_def)
  obtain h1 where h1: "pop_valid (nu_heap c) (cache_nu c) =
      (h1, AList.delete (snd (Min (heap_entries (cache_nu c)))) (cache_nu c))" "sorted h1"
      "heap_entries (cache_nu c) - {Min (heap_entries (cache_nu c))} \<subseteq> set h1"
    using pop_valid_Min [of "nu_heap c" "cache_nu c"] r ne by (auto simp: belady_ready_def)
  let ?v = "snd (Min (heap_entries (cache_nu c)))"
  have v: "?v = farthest flat (position c) (map fst (cache_nu c))"
    using heap_entries_farthest [of "cache_nu c" flat "position c"] r by (simp add: belady_ready_def farthest_def)
  have "heap_entries (AList.delete (snd e) al) \<subseteq> heap_entries al - {e}" for e al
    by (auto simp: heap_entries_def set_delete)
  with h1(3) have "heap_entries (AList.delete ?v (cache_nu c)) \<subseteq> set h1"
    by blast
  then show ?thesis
    using True h1 v r by (auto simp: room_def belady_ready_def map_fst_delete set_delete)
next
  case False
  then show ?thesis
    using r by (auto simp: room_def belady_ready_def)
qed

lemma belady_step:
  assumes r: "belady_ready flat capacity (b # bs) c"
  shows "\<exists>c1. belady_access (next_table flat) capacity b c = Inr c1 \<and> belady_ready flat capacity bs c1 \<and>
    farthest_access flat capacity b (map fst (cache_nu c), position c) = Inr (map fst (cache_nu c1), position c1)"
proof -
  let ?p = "position c"
  have d: "drop ?p flat = b # bs"
    using r by (simp add: belady_ready_def)
  then have p: "?p < length flat" "flat ! ?p = b" "drop (Suc ?p) flat = bs"
    using Cons_nth_drop_Suc [of ?p flat] by (metis drop_eq_Nil leI list.distinct(1), metis drop_eq_Nil leI list.distinct(1) list.inject, metis drop_eq_Nil leI list.distinct(1) list.inject)
  define nu where "nu = next_from flat (Suc ?p) b"
  have idx: "py_index (next_table flat) (int ?p) = Inr nu"
    using p next_use_is_next_from [of ?p flat] by (simp add: nu_def)
  obtain h n1 where room: "room capacity b c = (h, n1)" "sorted h" "heap_entries n1 \<subseteq> set h"
    "distinct (map fst n1)" "set n1 \<subseteq> set (cache_nu c)"
    "map fst n1 = (if b \<notin> fst ` set (cache_nu c) \<and> int (length (cache_nu c)) \<ge> capacity
      then remove1 (farthest flat ?p (map fst (cache_nu c))) (map fst (cache_nu c)) else map fst (cache_nu c))"
    using room_ok [OF r] by blast
  let ?c1 = "\<lparr>cache_nu = AList.update b nu n1, nu_heap = insort (- int nu, b) h, position = Suc ?p\<rparr>"
  have access: "belady_access (next_table flat) capacity b c = Inr ?c1"
    using idx room(1) by (simp add: belady_access_def room_def Let_def)
  have vals: "\<forall>(x, n) \<in> set (AList.update b nu n1). n = next_from flat (Suc ?p) x"
    using room(4,5) r p next_from_step [of ?p flat]
    by (auto simp: set_update_distinct nu_def belady_ready_def)
  have ents: "heap_entries (AList.update b nu n1) \<subseteq> insert (- int nu, b) (set h)"
    using room(3,4) by (auto simp: heap_entries_def set_update_distinct set_insort_key)
  let ?K = "map fst (cache_nu c)"
  have sub: "set (map fst n1) \<subseteq> set ?K"
    using room(5) by auto
  have keys: "farthest_access flat capacity b (?K, ?p) = Inr (map fst (AList.update b nu n1), Suc ?p)"
  proof (cases "b \<in> set ?K")
    case True
    then have "map fst n1 = ?K" "b \<in> fst ` set n1"
      using room(6) by (simp, metis list.set_map)
    then show ?thesis
      using True by (simp add: farthest_access_def map_fst_update)
  next
    case False
    then have "b \<notin> fst ` set n1"
      using sub by auto
    then show ?thesis
      using False room(6) by (simp add: farthest_access_def map_fst_update)
  qed
  have "int (length (AList.update b nu n1)) \<le> capacity"
  proof (cases "b \<in> set ?K")
    case True
    then show ?thesis
      using keys r by (simp add: farthest_access_def belady_ready_def) (metis length_map)
  next
    case False
    then have "length (AList.update b nu n1) = Suc (length (map fst n1))"
      using sub by (subst length_map [of fst, symmetric]) (auto simp: map_fst_update)
    moreover have "int (length (map fst n1)) < capacity"
    proof (cases "int (length ?K) \<ge> capacity")
      case True
      then have ne: "?K \<noteq> []"
        using r by (auto simp: belady_ready_def)
      then have "length (map fst n1) = length ?K - 1"
        using room(6) True False farthest_in [OF ne, of flat ?p] by (simp add: length_remove1)
      with ne show ?thesis
        using r by (cases "cache_nu c") (auto simp: belady_ready_def)
    qed (use room(6) in simp)
    ultimately show ?thesis by simp
  qed
  moreover have "distinct (map fst (AList.update b nu n1))"
    using room(4) by (rule distinct_update)
  ultimately have "belady_ready flat capacity bs ?c1"
    using r p room(2) vals ents by (simp add: belady_ready_def sorted_insort set_insort_key)
  with access keys show ?thesis by auto
qed

lemma farthest_access_sets:
  assumes "farthest_access flat capacity b (K, p) = Inr (K', p')"
  shows "b \<in> set K'" "c \<in> set K' \<Longrightarrow> c = b \<or> c \<in> set K"
  using assms set_remove1_subset [of "farthest flat p K" K]
  by (auto simp: farthest_access_def split: if_splits)

lemma farthest_access_keeps:
  "b \<in> set K \<or> int (length K) < capacity \<Longrightarrow> farthest_access flat capacity b (K, p) = Inr (K', p') \<Longrightarrow>
   c \<in> set K \<Longrightarrow> c \<in> set K'"
  by (auto simp: farthest_access_def split: if_splits)

lemma belady_has: "b \<in> fst ` set (cache_nu c) \<longleftrightarrow> b \<in> set (map fst (cache_nu c))"
  by simp

interpretation belady: cache_policy capacity "belady_access (next_table flat) capacity"
  "\<lambda>c b. b \<in> fst ` set (cache_nu c)" "belady_ready flat capacity" for flat capacity
proof (unfold_locales, goal_cases)
  case (1 b bs s)
  obtain s1 where s1: "belady_access (next_table flat) capacity b s = Inr s1" "belady_ready flat capacity bs s1"
    "farthest_access flat capacity b (map fst (cache_nu s), position s) = Inr (map fst (cache_nu s1), position s1)"
    using belady_step [OF 1] by blast
  show ?case
    using s1(1,2) farthest_access_sets [OF s1(3)] unfolding belady_has by blast
next
  case (2 bs s)
  then have "card (fst ` set (cache_nu s)) = length (cache_nu s)"
    by (metis belady_ready_def distinct_card length_map list.set_map)
  with 2 show ?case
    by (simp add: belady_ready_def)
next
  case (3 b bs s s1 c)
  then have "int (card (insert b (set (map fst (cache_nu s))))) \<le> capacity"
    by simp
  moreover have "distinct (map fst (cache_nu s))"
    using 3(1) by (simp add: belady_ready_def)
  ultimately have "b \<in> set (map fst (cache_nu s)) \<or> int (length (map fst (cache_nu s))) < capacity"
    using distinct_card [of "map fst (cache_nu s)"]
    by (auto simp: card_insert_if simp del: set_map split: if_splits)
  moreover have "farthest_access flat capacity b (map fst (cache_nu s), position s) = Inr (map fst (cache_nu s1), position s1)"
    using belady_step [OF 3(1)] 3(2) by auto
  ultimately show ?case
    using farthest_access_keeps [of b "map fst (cache_nu s)"] 3(4) unfolding belady_has by blast
qed

text \<open>The run with heap and table and the run by the rule are in step.\<close>

lemma belady_blocks_farthest:
  "belady_ready flat capacity (bs @ cs) c \<Longrightarrow>
   \<exists>c1. access_blocks (belady_access (next_table flat) capacity) bs c = Inr c1 \<and> belady_ready flat capacity cs c1 \<and>
     access_blocks (farthest_access flat capacity) bs (map fst (cache_nu c), position c) =
       Inr (map fst (cache_nu c1), position c1)"
proof (induction bs arbitrary: c)
  case (Cons b bs)
  obtain c1 where c1: "belady_access (next_table flat) capacity b c = Inr c1" "belady_ready flat capacity (bs @ cs) c1"
    "farthest_access flat capacity b (map fst (cache_nu c), position c) = Inr (map fst (cache_nu c1), position c1)"
    using belady_step [of flat capacity b "bs @ cs" c] Cons.prems by auto
  then show ?case
    using Cons.IH [OF c1(2)] by auto
qed simp

lemma belady_replay_farthest:
  "belady_ready flat capacity (concat seqs) c \<Longrightarrow>
   replay (belady_access (next_table flat) capacity) (\<lambda>c b. b \<in> fst ` set (cache_nu c)) seqs c =
   replay (farthest_access flat capacity) (\<lambda>s b. b \<in> set (fst s)) seqs (map fst (cache_nu c), position c)"
proof (induction seqs arbitrary: c)
  case (Cons r rest)
  then obtain c1 where "access_blocks (belady_access (next_table flat) capacity) r c = Inr c1"
    "belady_ready flat capacity (concat rest) c1"
    "access_blocks (farthest_access flat capacity) r (map fst (cache_nu c), position c) = Inr (map fst (cache_nu c1), position c1)"
    using belady_blocks_farthest [of flat capacity r "concat rest" c] by auto
  then show ?case
    using Cons by (cases "r = []") (simp_all add: Let_def)
qed simp

lemma belady_ready_start: "1 \<le> capacity \<Longrightarrow> belady_ready flat capacity flat \<lparr>cache_nu = [], nu_heap = [], position = 0\<rparr>"
  by (simp add: belady_ready_def heap_entries_def)

lemma policy_ready_start:
  "1 \<le> capacity \<Longrightarrow> lru_ready capacity bs []"
  "1 \<le> capacity \<Longrightarrow> fifo_ready capacity bs \<lparr>cache_set = {}, cache_q = []\<rparr>"
  by (simp_all add: lru_ready_def fifo_ready_def)

lemma policy_facts:
  assumes "1 \<le> capacity"
  shows "\<exists>hs us. policy_fn p seqs capacity = Inr hs \<and> length hs = length seqs \<and> list_all (\<lambda>h. 0 \<le> h \<and> h \<le> 1) hs \<and>
      unbounded_hits seqs {} = Inr us \<and> list_all2 (\<le>) hs us \<and>
      (int (card (set (concat seqs))) \<le> capacity \<longrightarrow> hs = us)"
proof (cases p)
  case LRU
  note r = policy_ready_start(1) [OF assms, of "concat seqs"]
  show ?thesis
    using LRU lru.replay_returns [OF r] lru.replay_below_unbounded [OF r, of "{}"] lru.replay_large [OF r]
    by (auto simp: simulate_lru_def)
next
  case FIFO
  note r = policy_ready_start(2) [OF assms, of "concat seqs"]
  show ?thesis
    using FIFO fifo.replay_returns [OF r] fifo.replay_below_unbounded [OF r, of "{}"] fifo.replay_large [OF r]
    by (auto simp: simulate_fifo_def)
next
  case Belady
  note r = belady_ready_start [OF assms, of "concat seqs"]
  show ?thesis
    using Belady belady.replay_returns [OF r] belady.replay_below_unbounded [OF r, of "{}"] belady.replay_large [OF r]
    by (auto simp: simulate_belady_def Let_def)
qed

subsection \<open>The swept curves\<close>

definition swept_rate :: "block list list \<Rightarrow> policy \<Rightarrow> int \<Rightarrow> real" where
  "swept_rate seqs p cap = aggregate_hit_ratio seqs (projr (policy_fn p seqs cap))"

lemma mrc_point_ok:
  "1 \<le> cap \<Longrightarrow> distinct ps \<Longrightarrow> \<exists>m1. mrc_point seqs cap ps m = Inr m1 \<and>
     (\<forall>p. map_of m1 p = (if p \<in> set ps then map_option (\<lambda>l. l @ [swept_rate seqs p cap]) (map_of m p) else map_of m p))"
proof (induction ps arbitrary: m)
  case (Cons q ps)
  obtain hs where "policy_fn q seqs cap = Inr hs"
    using policy_facts [OF Cons.prems(1)] by blast
  moreover from this have "swept_rate seqs q cap = aggregate_hit_ratio seqs hs"
    by (simp add: swept_rate_def)
  ultimately show ?case
    using Cons.IH [of "AList.map_entry q (\<lambda>l. l @ [aggregate_hit_ratio seqs hs]) m"] Cons.prems
    by (auto simp: map_of_map_entry split: option.splits)
qed simp

lemma mrc_sweep_ok:
  "\<forall>c \<in> set caps. 1 \<le> c \<Longrightarrow> distinct ps \<Longrightarrow> \<exists>m1. mrc_sweep seqs caps ps m = Inr m1 \<and>
     (\<forall>p \<in> set ps. map_of m1 p = map_option (\<lambda>l. l @ map (swept_rate seqs p) caps) (map_of m p))"
proof (induction caps arbitrary: m)
  case (Cons c caps)
  obtain m1 where "mrc_point seqs c ps m = Inr m1"
    "\<forall>p. map_of m1 p = (if p \<in> set ps then map_option (\<lambda>l. l @ [swept_rate seqs p c]) (map_of m p) else map_of m p)"
    using mrc_point_ok [of c ps seqs m] Cons.prems by auto
  then show ?case
    using Cons.IH [of m1] Cons.prems by (auto simp: option.map_comp comp_def)
qed (simp add: option.map_ident)

lemma run_policies_returns: "1 \<le> cap \<Longrightarrow> \<exists>ts. run_policies seqs ps cap = Inr ts"
proof -
  assume "1 \<le> cap"
  have "traverse (\<lambda>p. ebind (policy_fn p seqs cap) (\<lambda>hs. Inr (p, hs))) ps =
      Inr (map (\<lambda>p. (p, projr (policy_fn p seqs cap))) ps)"
    using policy_facts [OF \<open>1 \<le> cap\<close>] by (intro traverse_tagged) blast
  then show ?thesis
    by (simp add: run_policies_def)
qed

lemma start_curves: "p \<in> set ps \<Longrightarrow> map_of (dict_from (map (\<lambda>p. (p, [])) ps)) p = Some []"
  by (auto simp: dict_from_map_of rev_map map_of_map_restrict restrict_map_def comp_def)

lemma swept_rate_bounds: "1 \<le> cap \<Longrightarrow> 0 \<le> swept_rate seqs p cap \<and> swept_rate seqs p cap \<le> 1"
proof -
  assume "1 \<le> cap"
  then obtain hs where "policy_fn p seqs cap = Inr hs" "list_all (\<lambda>h. 0 \<le> h \<and> h \<le> 1) hs"
    using policy_facts [of cap p seqs] by blast
  then show ?thesis
    using aggregate_bounds [of hs seqs] by (simp add: swept_rate_def)
qed

lemma swept_lru_mono: "1 \<le> c \<Longrightarrow> c \<le> d \<Longrightarrow> swept_rate seqs LRU c \<le> swept_rate seqs LRU d"
  using simulate_lru_mono [of c d seqs] by (auto simp: swept_rate_def intro: aggregate_mono)

lemma sorted_lru_curve: "sorted caps \<Longrightarrow> \<forall>c \<in> set caps. 1 \<le> c \<Longrightarrow> sorted (map (swept_rate seqs LRU) caps)"
  by (auto simp: sorted_wrt_map intro: sorted_wrt_mono_rel [of caps "(\<le>)"] swept_lru_mono)

text \<open>Capacities computed from sizes in GiB or tokens are positive; explicit block counts are taken as
  given, and the online policies then fail on the first block when a count is not positive.\<close>

lemma sorted_set_props: "sorted (sorted_set xs)" "distinct (sorted_set xs)" "set (sorted_set xs) = set xs"
  by (simp_all add: sorted_set_def)

lemma traverse_blocks_positive:
  "traverse (gb_to_blocks kv d t) gbs = Inr bs \<Longrightarrow> \<forall>c \<in> set bs. 1 \<le> c"
  by (induction gbs arbitrary: bs) (auto simp: ebind_Inr_iff gb_to_blocks_def split: if_splits)

lemma sized_capacities_positive:
  "ts_capacities None tokens gbs kv d t = Inr cs \<Longrightarrow> sorted cs \<and> distinct cs \<and> (\<forall>c \<in> set cs. 1 \<le> c)"
  "mrc_capacities None gbs kv d t = Inr cs \<Longrightarrow> sorted cs \<and> distinct cs \<and> (\<forall>c \<in> set cs. 1 \<le> c)"
  by (auto simp: ts_capacities_def mrc_capacities_def auto_mrc_capacities_blocks_def sorted_set_props ebind_Inr_iff
      dest!: traverse_blocks_positive split: option.splits if_splits)

lemma nonpositive_capacity_raises:
  "capacity \<le> 0 \<Longrightarrow> simulate_lru ((b # bs) # rest) capacity = Inl KeyError"
  "capacity \<le> 0 \<Longrightarrow> simulate_fifo ((b # bs) # rest) capacity = Inl IndexError"
  by (simp_all add: simulate_lru_def simulate_fifo_def lru_access_def fifo_access_def Let_def)

subsection \<open>Properties of the simulator\<close>

text \<open>
  C21. Sweeping any workload over an increasing list of positive capacities never raises; each
  policy's curve has one ratio between zero and one per capacity, and the LRU curve never falls: a
  larger LRU cache contains the smaller one at every moment.
\<close>

theorem swept_lru_curve_never_falls:
  assumes "\<forall>c \<in> set caps \<union> set ts_caps. 1 \<le> c" "sorted caps" "distinct policies"
  shows "\<exists>a. analyze_sequences seqs caps ts_caps policies = Inr a \<and>
    (\<forall>p \<in> set policies. \<exists>curve. map_of (mrc a) p = Some curve \<and> length curve = length caps \<and>
       (\<forall>x \<in> set curve. 0 \<le> x \<and> x \<le> 1) \<and> (p = LRU \<longrightarrow> sorted curve))"
proof -
  obtain m where m: "mrc_sweep seqs caps policies (dict_from (map (\<lambda>p. (p, [])) policies)) = Inr m"
    "\<forall>p \<in> set policies. map_of m p = Some (map (swept_rate seqs p) caps)"
    using mrc_sweep_ok [of caps policies seqs "dict_from (map (\<lambda>p. (p, [])) policies)"] assms
    by (auto simp: start_curves)
  have "traverse (\<lambda>cap. ebind (run_policies seqs policies cap) (\<lambda>ts. Inr (cap, ts))) ts_caps =
      Inr (map (\<lambda>cap. (cap, projr (run_policies seqs policies cap))) ts_caps)"
    using assms(1) by (intro traverse_tagged run_policies_returns) auto
  with m assms show ?thesis
    by (auto simp: analyze_sequences_def swept_rate_bounds sorted_lru_curve)
qed

theorem swept_lru_curve_witness:
  "\<exists>a lru belady. analyze_sequences [[1, 2], [1, 3]] [1, 2] [2] [LRU, Belady] = Inr a \<and>
    map_of (mrc a) LRU = Some lru \<and> length lru = 2 \<and> sorted lru \<and> list_all (\<lambda>x. 0 \<le> x \<and> x \<le> 1) lru \<and>
    map_of (mrc a) Belady = Some belady \<and> length belady = 2 \<and> list_all (\<lambda>x. 0 \<le> x \<and> x \<le> 1) belady"
  using swept_lru_curve_never_falls [of "[1, 2]" "[2]" "[LRU, Belady]" "[[1, 2], [1, 3]]"]
  by (fastforce simp: list_all_iff)

text \<open>
  C29. With a capacity of at least one block no policy raises, every hit ratio lies between zero and
  one and below that of the unbounded cache, and once the capacity holds all distinct blocks of the
  workload the three policies report exactly the hit ratios of the unbounded cache.
\<close>

theorem policies_bounded_by_unbounded_cache:
  assumes "1 \<le> capacity"
  shows "\<exists>hs us. policy_fn p seqs capacity = Inr hs \<and> unbounded_hits seqs {} = Inr us \<and>
      length hs = length seqs \<and> list_all (\<lambda>h. 0 \<le> h \<and> h \<le> 1) hs \<and> list_all2 (\<le>) hs us \<and>
      (int (card (set (concat seqs))) \<le> capacity \<longrightarrow> hs = us)"
  using policy_facts [OF assms] by blast

theorem policies_bounded_witness:
  "(1::int) \<le> 3 \<and> (\<exists>hs. policy_fn FIFO [[1, 2], [1, 3]] 3 = Inr hs \<and> unbounded_hits [[1, 2], [1, 3]] {} = Inr hs \<and>
      length hs = 2 \<and> list_all (\<lambda>h. 0 \<le> h \<and> h \<le> 1) hs)"
proof -
  have "card (set (concat [[1, 2], [1, 3 :: block]])) = 3"
    by code_simp
  with policies_bounded_by_unbounded_cache [of 3 FIFO "[[1, 2], [1, 3]]"] show ?thesis
    by auto
qed

text \<open>
  C11. The simulation of Belady's policy with its backward table of next uses and its heap of lazy
  entries is the plain rule: when the cache is full and the block is not cached, evict the block
  whose next use is farthest in the future (of several that are never used again, the smallest).
\<close>

theorem belady_evicts_farthest:
  assumes "1 \<le> capacity"
  shows "simulate_belady seqs capacity =
    replay (farthest_access (concat seqs) capacity) (\<lambda>s b. b \<in> set (fst s)) seqs ([], 0)"
  using belady_replay_farthest [OF belady_ready_start [OF assms, of "concat seqs"]]
  by (simp add: simulate_belady_def Let_def)

theorem belady_evicts_farthest_witness:
  "(1::int) \<le> 2 \<and> simulate_belady [[1, 2], [3, 1]] 2 =
    replay (farthest_access (concat [[1, 2], [3, 1]]) 2) (\<lambda>s b. b \<in> set (fst s)) [[1, 2], [3, 1]] ([], 0)"
  using belady_evicts_farthest [of 2 "[[1, 2], [3, 1]]"] by simp

text \<open>
  Belady's policy is no upper bound for the reported ratio: the hits of a request are those of its
  longest cached prefix, and on this workload (its block hashes do form chains, each block has one
  predecessor) the recency-blind policy reports 3 of 8 blocks and Belady's policy 2 of 8.
\<close>

lemma belady_below_fifo:
  "\<exists>hs bs. simulate_fifo [[1], [4], [2, 3], [4], [1], [2, 3]] 3 = Inr hs \<and>
     simulate_belady [[1], [4], [2, 3], [4], [1], [2, 3]] 3 = Inr bs \<and>
     aggregate_hit_ratio [[1], [4], [2, 3], [4], [1], [2, 3]] bs < aggregate_hit_ratio [[1], [4], [2, 3], [4], [1], [2, 3]] hs"
  by (simp add: simulate_fifo_def simulate_belady_def fifo_access_def belady_access_def Let_def py_index_def
      aggregate_hit_ratio_def total_blocks_def py_round_def)

end
