(* ===== verification/Pod_Registry.thy ===== *)
theory Pod_Registry
  imports Py_Values "HOL-Library.List_Lexorder" "HOL-Library.Char_ord" "HOL-Library.AList"
begin

text \<open>
  The pod registry of the routing agent (\<open>agent_codes/utils.py\<close>): pod addresses are bound once and for
  all to numbered pod ids, the views of the registry in the hyperparameters are rebuilt when pods are
  added, pod addresses are found in a log message and replaced by their ids. The environment variable
  and the Kubernetes client are arguments; log output is left out.
\<close>

subsection \<open>Pod ids and GPU models\<close>

definition gpu_model_to_encode :: "(string \<times> nat) list" where
  "gpu_model_to_encode =
     [(''NVIDIA-L20'', 0), (''NVIDIA-A10'', 1), (''NVIDIA-A30'', 2), (''GPU-L3c'', 3), (''NVIDIA-A100'', 4),
      (''NVIDIA-H100'', 5), (''NVIDIA-L4'', 6), (''NVIDIA-L40'', 7), (''NVIDIA-L40S'', 8), (''NVIDIA-T4'', 9),
      (''Tesla-V100'', 10)]"

definition format_generalpodid :: "nat \<Rightarrow> py_error + string" where
  "format_generalpodid idx =
     (if idx < 10 then Inr (''pod_000'' @ nat_str idx)
      else if idx < 100 then Inr (''pod_00'' @ nat_str idx)
      else if idx < 1000 then Inr (''pod_0'' @ nat_str idx)
      else Inl AssertionError)"

text \<open>Membership in the dict of models needs a hashable value: a list or a dict raises.\<close>

fun known_model :: "pyval \<Rightarrow> py_error + string option" where
  "known_model (PStr s) = Inr (if s \<in> fst ` set gpu_model_to_encode then Some s else None)"
| "known_model (PList _) = Inl TypeError"
| "known_model (PDict _) = Inl TypeError"
| "known_model _ = Inr None"

definition resolve_gpu_model :: "(string \<times> pyval) list \<Rightarrow> string \<Rightarrow> string \<Rightarrow> py_error + string" where
  "resolve_gpu_model gpu_map fallback pod_ip =
     (case map_of gpu_map pod_ip of
        None \<Rightarrow> Inr fallback
      | Some gm \<Rightarrow>
          if \<not> truthy gm then Inr fallback
          else ebind (known_model gm) (\<lambda>k. Inr (case k of Some s \<Rightarrow> s | None \<Rightarrow> fallback)))"

subsection \<open>The registry and its views\<close>

record pod_views =
  pod_ip_to_generalpodid :: "(string \<times> string) list"
  generalpodid_to_pod_ip :: "(string \<times> string) list"
  sorted_running_pod_ips :: "string list"
  pod_ip_to_gpu_model :: "(string \<times> string) list"
  pod_ip_to_gpu_model_encoded :: "(string \<times> nat) list"
  generalpodid_to_gpu_model :: "(string \<times> string) list"
  pod_gpu_mapping :: "(string \<times> string) list"
  pod_gpu_id_mapping :: "(string \<times> nat) list"

record agent_pods =
  reg_ids :: "(string \<times> string) list"
  reg_gpus :: "(string \<times> string) list"
  views :: "pod_views option"

definition lookup :: "('k \<times> 'v) list \<Rightarrow> 'k \<Rightarrow> py_error + 'v" where
  "lookup d k = (case map_of d k of Some v \<Rightarrow> Inr v | None \<Rightarrow> Inl KeyError)"

definition refresh_hyperparameter_views :: "agent_pods \<Rightarrow> py_error + pod_views" where
  "refresh_hyperparameter_views s =
     ebind (traverse (\<lambda>(ip, gm). ebind (lookup gpu_model_to_encode gm) (\<lambda>c. Inr (ip, c))) (reg_gpus s)) (\<lambda>enc.
     ebind (traverse (\<lambda>(ip, gm). ebind (lookup (reg_ids s) ip) (\<lambda>pid. Inr (pid, gm))) (reg_gpus s)) (\<lambda>by_id.
     ebind (traverse (\<lambda>(pid, gm). ebind (lookup gpu_model_to_encode gm) (\<lambda>c. Inr (pid, c))) (dict_from by_id)) (\<lambda>codes.
       Inr \<lparr>pod_ip_to_generalpodid = reg_ids s,
            generalpodid_to_pod_ip = dict_from (map (\<lambda>(ip, pid). (pid, ip)) (reg_ids s)),
            sorted_running_pod_ips = sort (map fst (reg_ids s)),
            pod_ip_to_gpu_model = reg_gpus s,
            pod_ip_to_gpu_model_encoded = enc,
            generalpodid_to_gpu_model = dict_from by_id,
            pod_gpu_mapping = dict_from by_id,
            pod_gpu_id_mapping = codes\<rparr>)))"

definition fallback_model :: "string option \<Rightarrow> string option \<Rightarrow> string" where
  "fallback_model env fallback =
     (let f = (case fallback of
                 Some f \<Rightarrow> f
               | None \<Rightarrow> (case env of Some e \<Rightarrow> if e = ''hetero'' then ''NVIDIA-A30'' else e | None \<Rightarrow> ''NVIDIA-A30''))
      in if f \<in> fst ` set gpu_model_to_encode then f else ''NVIDIA-A30'')"

text \<open>The loop over the addresses; the result counts the new ones.\<close>

fun register_new :: "(string \<times> pyval) list \<Rightarrow> string \<Rightarrow> string list \<Rightarrow> agent_pods \<Rightarrow> (agent_pods, nat) outcome" where
  "register_new gpu_map fallback [] s = (s, Inr 0)"
| "register_new gpu_map fallback (ip # ips) s =
     (if ip \<in> fst ` set (reg_ids s) then register_new gpu_map fallback ips s
      else case format_generalpodid (length (reg_ids s)) of
        Inl e \<Rightarrow> (s, Inl e)
      | Inr new_id \<Rightarrow>
         (let s1 = s\<lparr>reg_ids := AList.update ip new_id (reg_ids s)\<rparr> in
          case resolve_gpu_model gpu_map fallback ip of
            Inl e \<Rightarrow> (s1, Inl e)
          | Inr gm \<Rightarrow>
              obind (register_new gpu_map fallback ips (s1\<lparr>reg_gpus := AList.update ip gm (reg_gpus s1)\<rparr>))
                (\<lambda>s2 n. (s2, Inr (Suc n)))))"

definition register_pod_ips ::
  "string option \<Rightarrow> string list \<Rightarrow> (string \<times> pyval) list \<Rightarrow> string option \<Rightarrow> agent_pods \<Rightarrow> (agent_pods, (string \<times> string) list) outcome" where
  "register_pod_ips env pod_ips gpu_map fallback s =
     obind (register_new gpu_map (fallback_model env fallback) (sort pod_ips) s) (\<lambda>s1 n.
       if n = 0 then (s1, Inr (reg_ids s1))
       else case refresh_hyperparameter_views s1 of
         Inl e \<Rightarrow> (s1, Inl e)
       | Inr v \<Rightarrow> (s1\<lparr>views := Some v\<rparr>, Inr (reg_ids s1)))"

text \<open>The mapping of a single file, numbered in the order of the addresses.\<close>

definition create_pod_ip_to_generalpodid_mapping :: "string list \<Rightarrow> py_error + (string \<times> string) list" where
  "create_pod_ip_to_generalpodid_mapping unique_pod_ips =
     ebind (traverse (\<lambda>(idx, ip). ebind (format_generalpodid idx) (\<lambda>pid. Inr (ip, pid))) (enumerate 0 (sort unique_pod_ips)))
       (\<lambda>kvs. Inr (dict_from kvs))"

subsection \<open>GPU models of the running pods\<close>

definition create_pod_ip_to_gpu_model_mapping ::
  "string option \<Rightarrow> (string \<times> string) list \<Rightarrow> (string \<times> string) list \<Rightarrow> py_error + (string \<times> string) list \<times> (string \<times> nat) list" where
  "create_pod_ip_to_gpu_model_mapping env id_to_gpu ip_to_id =
     (let fallback = (if env = Some ''hetero'' then Some ''NVIDIA-A30'' else env);
          first = traverse (\<lambda>(ip, pid).
            case map_of id_to_gpu pid of
              None \<Rightarrow> Inl AssertionError
            | Some gm \<Rightarrow> Inr (ip, if gm = ''unknown'' then fallback else Some gm)) ip_to_id;
          second = (\<lambda>(ip, gm).
            case (case gm of Some g \<Rightarrow> map_of gpu_model_to_encode g | None \<Rightarrow> None) of
              Some c \<Rightarrow> Inr ((ip, the gm), (ip, c))
            | None \<Rightarrow>
                (case fallback of
                   Some f \<Rightarrow>
                     (case map_of gpu_model_to_encode f of
                        Some c \<Rightarrow> Inr ((ip, f), (ip, c))
                      | None \<Rightarrow> Inl AssertionError)
                 | None \<Rightarrow> Inl AssertionError))
      in ebind first (\<lambda>gms. ebind (traverse second gms) (\<lambda>rs. Inr (map fst rs, map snd rs))))"

record running_pod =
  pod_running :: bool
  pod_address :: "string option"
  pod_node :: "string option"

definition fetch_running_pod_ips :: "running_pod list \<Rightarrow> string list" where
  "fetch_running_pod_ips pods =
     sort (concat (map (\<lambda>p. if pod_running p then (case pod_address p of Some a \<Rightarrow> if a = [] then [] else [a] | None \<Rightarrow> []) else []) pods))"

text \<open>The labels of a node, or none when the query fails; any failure inside the \<open>try\<close> gives \<open>unknown\<close>.\<close>

definition node_gpu :: "(string \<Rightarrow> (string \<times> string) list option) \<Rightarrow> string option \<Rightarrow> string" where
  "node_gpu read_node node =
     (case node of
        None \<Rightarrow> ''unknown''
      | Some n \<Rightarrow>
          if n = [] then ''unknown''
          else (case read_node n of
                  None \<Rightarrow> ''unknown''
                | Some labels \<Rightarrow>
                    let gm = (case map_of labels ''nvidia.com/gpu.product'' of
                                Some g \<Rightarrow> Some g
                              | None \<Rightarrow> map_of labels ''machine.cluster.vke.volcengine.com/gpu-name'')
                    in (case gm of Some g \<Rightarrow> if g = [] then ''unknown'' else g | None \<Rightarrow> ''unknown'')))"

fun fetch_generalpodid_to_gpu_model ::
  "(string \<Rightarrow> (string \<times> string) list option) \<Rightarrow> (string \<times> string) list \<Rightarrow> running_pod list \<Rightarrow> (string \<times> string) list \<Rightarrow> py_error + (string \<times> string) list" where
  "fetch_generalpodid_to_gpu_model read_node ip_to_id [] acc = Inr acc"
| "fetch_generalpodid_to_gpu_model read_node ip_to_id (p # ps) acc =
     (case (if pod_running p then pod_address p else None) of
        None \<Rightarrow> fetch_generalpodid_to_gpu_model read_node ip_to_id ps acc
      | Some ip \<Rightarrow>
          if ip = [] then fetch_generalpodid_to_gpu_model read_node ip_to_id ps acc
          else (case map_of ip_to_id ip of
                  None \<Rightarrow> Inl AssertionError
                | Some pid \<Rightarrow> fetch_generalpodid_to_gpu_model read_node ip_to_id ps
                                (AList.update pid (node_gpu read_node (pod_node p)) acc)))"

definition aws_gpu_mapping :: "(string \<times> string) list" where
  "aws_gpu_mapping =
     [(''p2'', ''NVIDIA-K80''), (''p3'', ''NVIDIA-V100''), (''p3dn'', ''NVIDIA-V100''), (''p4'', ''NVIDIA-A100''),
      (''p4d'', ''NVIDIA-A100''), (''p4de'', ''NVIDIA-A100''), (''p5'', ''NVIDIA-H100''), (''p5d'', ''NVIDIA-H100''),
      (''p5dn'', ''NVIDIA-H100''), (''p5e'', ''NVIDIA-H200''), (''p5en'', ''NVIDIA-H100''), (''p6-b200'', ''NVIDIA-B200''),
      (''p6e-gb200'', ''NVIDIA-GB200''), (''g3'', ''NVIDIA-M60''), (''g4dn'', ''NVIDIA-T4''), (''g4ad'', ''NVIDIA-T4''),
      (''g5'', ''NVIDIA-A10G''), (''g5g'', ''NVIDIA-T4G''), (''g6'', ''NVIDIA-L4''), (''g6e'', ''NVIDIA-L40S''),
      (''g6f'', ''NVIDIA-L4'')]"

definition map_aws_instance_type_to_gpu_model :: "string \<Rightarrow> py_error + string option" where
  "map_aws_instance_type_to_gpu_model instance_type =
     (if instance_type = [] then Inr None
      else case map_of aws_gpu_mapping (hd (split_at (CHR ''.'') instance_type)) of
             Some gm \<Rightarrow> Inr (Some gm)
           | None \<Rightarrow> Inl AssertionError)"

subsection \<open>Pod ids are distinct\<close>

definition pod_name :: "nat \<Rightarrow> string" where
  "pod_name i = (case format_generalpodid i of Inr s \<Rightarrow> s | Inl _ \<Rightarrow> [])"

lemma format_generalpodid_pod_name: "i < 1000 \<Longrightarrow> format_generalpodid i = Inr (pod_name i)"
  by (simp add: format_generalpodid_def pod_name_def)

lemma nat_of_zeros: "nat_of (replicate k (CHR ''0'') @ s) = nat_of s"
proof (induction k)
  case (Suc k)
  then show ?case
    by (simp add: nat_of_def digit_val_def code_def)
qed simp

lemma pod_name_value: "i < 1000 \<Longrightarrow> nat_of (drop 4 (pod_name i)) = i"
  using nat_of_zeros [of 3 "nat_str i"] nat_of_zeros [of 2 "nat_str i"] nat_of_zeros [of 1 "nat_str i"] nat_str_props [of i]
  by (auto simp: pod_name_def format_generalpodid_def numeral_3_eq_3 numeral_2_eq_2)

lemma pod_name_inject: "i < 1000 \<Longrightarrow> j < 1000 \<Longrightarrow> pod_name i = pod_name j \<Longrightarrow> i = j"
  by (metis pod_name_value)

lemma distinct_pod_names: "n \<le> 1000 \<Longrightarrow> distinct (map pod_name [0..<n])"
  by (auto simp: distinct_map inj_on_def intro: pod_name_inject)

subsection \<open>The invariant of the registry\<close>

definition known_models :: "string set" where
  "known_models = fst ` set gpu_model_to_encode"

definition gpu_map_ok :: "(string \<times> pyval) list \<Rightarrow> bool" where
  "gpu_map_ok g \<longleftrightarrow> (\<forall>v \<in> snd ` set g. case v of PList _ \<Rightarrow> False | PDict _ \<Rightarrow> False | _ \<Rightarrow> True)"

definition reg_ok :: "agent_pods \<Rightarrow> bool" where
  "reg_ok s \<longleftrightarrow> distinct (map fst (reg_ids s)) \<and> length (reg_ids s) \<le> 1000 \<and>
     map snd (reg_ids s) = map pod_name [0..<length (reg_ids s)] \<and>
     map fst (reg_gpus s) = map fst (reg_ids s) \<and> snd ` set (reg_gpus s) \<subseteq> known_models"

definition no_pods :: agent_pods where
  "no_pods = \<lparr>reg_ids = [], reg_gpus = [], views = None\<rparr>"

lemma reg_ok_no_pods [simp]: "reg_ok no_pods"
  by (simp add: reg_ok_def no_pods_def)

lemma reg_ok_views [simp]: "reg_ok (s\<lparr>views := v\<rparr>) = reg_ok s"
  by (simp add: reg_ok_def)

lemma fallback_known: "fallback_model env fb \<in> known_models"
  by (simp add: fallback_model_def known_models_def Let_def gpu_model_to_encode_def)

lemma resolve_known:
  assumes "gpu_map_ok g" "fb \<in> known_models"
  shows "\<exists>gm \<in> known_models. resolve_gpu_model g fb ip = Inr gm"
proof (cases "map_of g ip")
  case (Some v)
  then have "v \<in> snd ` set g"
    by (force dest: map_of_SomeD)
  then have "case v of PList _ \<Rightarrow> False | PDict _ \<Rightarrow> False | _ \<Rightarrow> True"
    using assms(1) unfolding gpu_map_ok_def by (rule bspec [rotated])
  then show ?thesis
    using Some assms(2) by (cases v) (auto simp: resolve_gpu_model_def known_models_def)
qed (use assms in \<open>simp add: resolve_gpu_model_def\<close>)

lemma reg_ok_add:
  assumes "reg_ok s" "ip \<notin> fst ` set (reg_ids s)" "length (reg_ids s) < 1000" "gm \<in> known_models"
  shows "reg_ok (s\<lparr>reg_ids := reg_ids s @ [(ip, pod_name (length (reg_ids s)))], reg_gpus := reg_gpus s @ [(ip, gm)]\<rparr>)"
  using assms by (auto simp: reg_ok_def)

lemma reg_keys: "reg_ok s \<Longrightarrow> fst ` set (reg_gpus s) = fst ` set (reg_ids s)"
  by (metis list.set_map reg_ok_def)

definition grown :: "string list \<Rightarrow> agent_pods \<Rightarrow> agent_pods \<Rightarrow> py_error + nat \<Rightarrow> bool" where
  "grown ips s s1 r \<longleftrightarrow> reg_ok s1 \<and> views s1 = views s \<and>
     (\<exists>new. reg_ids s1 = reg_ids s @ new \<and> (\<forall>p \<in> set new. fst p \<in> set ips) \<and>
        (case r of
           Inr n \<Rightarrow> (\<forall>ip \<in> set ips. ip \<in> fst ` set (reg_ids s1)) \<and> n = length new \<and> (n = 0 \<longrightarrow> s1 = s)
         | Inl e \<Rightarrow> e = AssertionError \<and> length (reg_ids s1) = 1000 \<and> (\<exists>ip \<in> set ips. ip \<notin> fst ` set (reg_ids s1))))"

lemma register_new_grows:
  "reg_ok s \<Longrightarrow> gpu_map_ok g \<Longrightarrow> fb \<in> known_models \<Longrightarrow> register_new g fb ips s = (s1, r) \<Longrightarrow> grown ips s s1 r"
proof (induction ips arbitrary: s s1 r)
  case Nil
  then show ?case by (auto simp: grown_def)
next
  case (Cons ip ips)
  show ?case
  proof (cases "ip \<in> fst ` set (reg_ids s)")
    case True
    then have "grown ips s s1 r"
      using Cons by simp
    then obtain new where "reg_ok s1" "views s1 = views s" "reg_ids s1 = reg_ids s @ new" "\<forall>p \<in> set new. fst p \<in> set ips"
      "case r of Inr n \<Rightarrow> (\<forall>ip \<in> set ips. ip \<in> fst ` set (reg_ids s1)) \<and> n = length new \<and> (n = 0 \<longrightarrow> s1 = s)
       | Inl e \<Rightarrow> e = AssertionError \<and> length (reg_ids s1) = 1000 \<and> (\<exists>ip \<in> set ips. ip \<notin> fst ` set (reg_ids s1))"
      unfolding grown_def by blast
    then show ?thesis
      using True unfolding grown_def by (cases r) (simp_all add: image_Un)
  next
    case new: False
    show ?thesis
    proof (cases "length (reg_ids s) < 1000")
      case full: False
      then have "length (reg_ids s) = 1000"
        using Cons.prems(1) by (simp add: reg_ok_def)
      then show ?thesis
        using Cons.prems new by (auto simp: grown_def format_generalpodid_def)
    next
      case True
      obtain gm where gm: "gm \<in> known_models" "resolve_gpu_model g fb ip = Inr gm"
        using resolve_known Cons.prems(2,3) by blast
      let ?s = "s\<lparr>reg_ids := reg_ids s @ [(ip, pod_name (length (reg_ids s)))], reg_gpus := reg_gpus s @ [(ip, gm)]\<rparr>"
      have "ip \<notin> fst ` set (reg_gpus s)"
        using new reg_keys [OF Cons.prems(1)] by simp
      then obtain r1 where r1: "register_new g fb ips ?s = (s1, r1)" "r = (case r1 of Inr n \<Rightarrow> Inr (Suc n) | Inl e \<Rightarrow> Inl e)"
        using Cons.prems(4) new gm(2) True
        by (cases "register_new g fb ips ?s")
          (auto simp: format_generalpodid_pod_name update_new obind_def split: sum.splits)
      have "grown ips ?s s1 r1"
        using Cons.IH [OF reg_ok_add [OF Cons.prems(1) new True gm(1)] Cons.prems(2,3) r1(1)] .
      then show ?thesis
        using r1(2) by (cases r1) (auto simp: grown_def)
    qed
  qed
qed

subsection \<open>The views agree with the registry\<close>

definition views_agree :: "agent_pods \<Rightarrow> pod_views \<Rightarrow> bool" where
  "views_agree s v \<longleftrightarrow> pod_ip_to_generalpodid v = reg_ids s \<and> pod_ip_to_gpu_model v = reg_gpus s \<and>
     sorted_running_pod_ips v = sort (map fst (reg_ids s)) \<and>
     (\<forall>ip pid. map_of (generalpodid_to_pod_ip v) pid = Some ip \<longleftrightarrow> map_of (reg_ids s) ip = Some pid) \<and>
     (\<forall>ip pid gm. map_of (reg_ids s) ip = Some pid \<and> map_of (reg_gpus s) ip = Some gm \<longrightarrow>
        map_of (generalpodid_to_gpu_model v) pid = Some gm \<and> map_of (pod_gpu_mapping v) pid = Some gm \<and>
        map_of (pod_gpu_id_mapping v) pid = map_of gpu_model_to_encode gm \<and>
        map_of (pod_ip_to_gpu_model_encoded v) ip = map_of gpu_model_to_encode gm)"

lemma reg_ids_distinct: "reg_ok s \<Longrightarrow> distinct (map fst (reg_ids s)) \<and> distinct (map snd (reg_ids s))"
  by (simp add: reg_ok_def distinct_pod_names)

lemma map_of_swap:
  assumes "distinct (map fst d)" "distinct (map snd d)"
  shows "map_of (map (\<lambda>(k, v). (v, k)) d) v = Some k \<longleftrightarrow> map_of d k = Some v"
proof -
  have "distinct (map fst (map (\<lambda>(k, v). (v, k)) d))"
    using assms(2) by (simp add: comp_def case_prod_unfold)
  then show ?thesis
    using assms(1) by (auto simp: map_of_eq_Some_iff)
qed

definition gpu_code :: "string \<Rightarrow> nat" where
  "gpu_code gm = the (map_of gpu_model_to_encode gm)"

lemma lookup_gpu_code:
  assumes "gm \<in> known_models"
  shows "map_of gpu_model_to_encode gm = Some (gpu_code gm)" "lookup gpu_model_to_encode gm = Inr (gpu_code gm)"
proof -
  obtain c where "map_of gpu_model_to_encode gm = Some c"
    using assms by (cases "map_of gpu_model_to_encode gm") (auto simp: known_models_def map_of_eq_None_iff)
  then show "map_of gpu_model_to_encode gm = Some (gpu_code gm)" "lookup gpu_model_to_encode gm = Inr (gpu_code gm)"
    by (simp_all add: gpu_code_def lookup_def)
qed

definition by_pod_id :: "agent_pods \<Rightarrow> (string \<times> string) list" where
  "by_pod_id s = map (\<lambda>(ip, gm). (the (map_of (reg_ids s) ip), gm)) (reg_gpus s)"

lemma by_pod_id_keys:
  assumes "reg_ok s"
  shows "map fst (by_pod_id s) = map snd (reg_ids s)"
proof -
  have "map fst (by_pod_id s) = map (\<lambda>ip. the (map_of (reg_ids s) ip)) (map fst (reg_gpus s))"
    by (simp add: by_pod_id_def case_prod_unfold comp_def)
  also have "\<dots> = map (\<lambda>p. the (map_of (reg_ids s) (fst p))) (reg_ids s)"
    using assms by (simp add: reg_ok_def comp_def)
  also have "\<dots> = map snd (reg_ids s)"
    using reg_ids_distinct [OF assms] by (auto simp: map_of_is_SomeI intro!: map_cong)
  finally show ?thesis .
qed

lemma by_pod_id_traverse:
  assumes "reg_ok s"
  shows "traverse (\<lambda>(ip, gm). ebind (lookup (reg_ids s) ip) (\<lambda>pid. Inr (pid, gm))) (reg_gpus s) = Inr (by_pod_id s)"
  unfolding by_pod_id_def
proof (rule traverse_total, clarify)
  fix ip gm
  assume "(ip, gm) \<in> set (reg_gpus s)"
  then have "ip \<in> fst ` set (reg_ids s)"
    using reg_keys [OF assms] by (metis fst_conv image_eqI)
  then obtain pid where "map_of (reg_ids s) ip = Some pid"
    by (cases "map_of (reg_ids s) ip") (auto simp: map_of_eq_None_iff)
  then show "ebind (lookup (reg_ids s) ip) (\<lambda>pid. Inr (pid, gm)) = Inr (the (map_of (reg_ids s) ip), gm)"
    by (simp add: lookup_def)
qed

lemma code_traverse:
  "snd ` set kvs \<subseteq> known_models \<Longrightarrow>
   traverse (\<lambda>(k, gm). ebind (lookup gpu_model_to_encode gm) (\<lambda>c. Inr (k, c))) kvs = Inr (map (\<lambda>(k, gm). (k, gpu_code gm)) kvs)"
  by (rule traverse_total) (force simp: lookup_gpu_code)

lemma map_of_codes: "map_of kvs k = Some gm \<Longrightarrow> map_of (map (\<lambda>(k, gm). (k, gpu_code gm)) kvs) k = Some (gpu_code gm)"
  by (induction kvs) auto

lemma refresh_agrees:
  assumes "reg_ok s"
  shows "\<exists>v. refresh_hyperparameter_views s = Inr v \<and> views_agree s v"
proof -
  have keys: "distinct (map fst (by_pod_id s))"
    using by_pod_id_keys [OF assms] reg_ids_distinct [OF assms] by simp
  have models: "snd ` set (reg_gpus s) \<subseteq> known_models" "snd ` set (by_pod_id s) \<subseteq> known_models"
    using assms by (force simp: reg_ok_def by_pod_id_def)+
  have swap: "dict_from (map (\<lambda>(ip, pid). (pid, ip)) (reg_ids s)) = map (\<lambda>(ip, pid). (pid, ip)) (reg_ids s)"
    using reg_ids_distinct [OF assms] by (intro dict_from_distinct) (simp add: comp_def case_prod_unfold)
  have by_id: "map_of (by_pod_id s) pid = Some gm"
    if "map_of (reg_ids s) ip = Some pid" "map_of (reg_gpus s) ip = Some gm" for ip pid gm
    using keys that by (auto simp: map_of_eq_Some_iff by_pod_id_def dest!: map_of_SomeD [of "reg_gpus s"] intro!: image_eqI [rotated])
  have known: "gm \<in> known_models" if "map_of (reg_gpus s) ip = Some gm" for ip gm
    using models(1) that by (metis imageI map_of_SomeD snd_conv subsetD)
  show ?thesis
    using by_pod_id_traverse [OF assms] code_traverse [OF models(1)] code_traverse [OF models(2)] keys swap
      map_of_swap [of "reg_ids s"] reg_ids_distinct [OF assms] by_id known
    by (auto simp: refresh_hyperparameter_views_def views_agree_def dict_from_distinct lookup_gpu_code map_of_codes
        simp del: map_of_eq_Some_iff)
qed

subsection \<open>Registrations\<close>

lemma register_pod_ips_grows:
  assumes "reg_ok s" "gpu_map_ok g" "register_pod_ips env ips g fb s = (s1, r)"
  shows "reg_ok s1 \<and> (\<exists>new. reg_ids s1 = reg_ids s @ new)"
    and "case r of
           Inr d \<Rightarrow> d = reg_ids s1 \<and> fst ` set d = fst ` set (reg_ids s) \<union> set ips \<and>
             (s1 = s \<or> (\<exists>v. views s1 = Some v \<and> views_agree s1 v))
         | Inl e \<Rightarrow> e = AssertionError \<and> views s1 = views s \<and> card (fst ` set (reg_ids s) \<union> set ips) > 1000"
proof -
  obtain s2 r2 where r2: "register_new g (fallback_model env fb) (sort ips) s = (s2, r2)"
    by fastforce
  obtain new where g: "reg_ok s2" "views s2 = views s" "reg_ids s2 = reg_ids s @ new" "\<forall>p \<in> set new. fst p \<in> set ips"
    "case r2 of Inr n \<Rightarrow> (\<forall>ip \<in> set ips. ip \<in> fst ` set (reg_ids s2)) \<and> n = length new \<and> (n = 0 \<longrightarrow> s2 = s)
     | Inl e \<Rightarrow> e = AssertionError \<and> length (reg_ids s2) = 1000 \<and> (\<exists>ip \<in> set ips. ip \<notin> fst ` set (reg_ids s2))"
    using register_new_grows [OF assms(1,2) fallback_known r2] unfolding grown_def set_sort by blast
  obtain v where v: "refresh_hyperparameter_views s2 = Inr v" "views_agree s2 v"
    using refresh_agrees [OF g(1)] by blast
  have s1: "s1 = s2 \<or> s1 = s2\<lparr>views := Some v\<rparr>"
    using assms(3) r2 v(1) by (cases r2) (auto simp: register_pod_ips_def split: if_splits)
  show "reg_ok s1 \<and> (\<exists>new. reg_ids s1 = reg_ids s @ new)"
    using s1 g(1,3) by auto
  have sub: "fst ` set (reg_ids s2) \<subseteq> fst ` set (reg_ids s) \<union> set ips"
    using g(3,4) by auto
  show "case r of
           Inr d \<Rightarrow> d = reg_ids s1 \<and> fst ` set d = fst ` set (reg_ids s) \<union> set ips \<and>
             (s1 = s \<or> (\<exists>v. views s1 = Some v \<and> views_agree s1 v))
         | Inl e \<Rightarrow> e = AssertionError \<and> views s1 = views s \<and> card (fst ` set (reg_ids s) \<union> set ips) > 1000"
  proof (cases r2)
    case (Inl e)
    have "card (fst ` set (reg_ids s2)) = 1000"
      using g(1,5) Inl distinct_card [of "map fst (reg_ids s2)"] by (simp add: reg_ok_def)
    moreover have "fst ` set (reg_ids s2) \<subset> fst ` set (reg_ids s) \<union> set ips"
      using sub g(5) Inl by auto
    ultimately have "card (fst ` set (reg_ids s) \<union> set ips) > 1000"
      using psubset_card_mono [of "fst ` set (reg_ids s) \<union> set ips"] by (metis List.finite_set finite_UnI finite_imageI)
    then show ?thesis
      using assms(3) r2 Inl g(2,5) by (auto simp: register_pod_ips_def)
  next
    case (Inr n)
    have "fst ` set (reg_ids s2) = fst ` set (reg_ids s) \<union> set ips"
      using sub g(3,5) Inr by auto
    then show ?thesis
      using assms(3) r2 Inr v g(5) by (auto simp: register_pod_ips_def views_agree_def split: if_splits)
  qed
qed

text \<open>A process registers addresses again and again; a call that raises leaves its state behind.\<close>

record registration =
  r_env :: "string option"
  r_ips :: "string list"
  r_gpu_map :: "(string \<times> pyval) list"
  r_fallback :: "string option"

definition run_registration :: "agent_pods \<Rightarrow> registration \<Rightarrow> agent_pods" where
  "run_registration s c = fst (register_pod_ips (r_env c) (r_ips c) (r_gpu_map c) (r_fallback c) s)"

lemma run_registrations_grow:
  "reg_ok s \<Longrightarrow> \<forall>c \<in> set calls. gpu_map_ok (r_gpu_map c) \<Longrightarrow>
   reg_ok (foldl run_registration s calls) \<and> (\<exists>new. reg_ids (foldl run_registration s calls) = reg_ids s @ new)"
proof (induction calls arbitrary: s)
  case (Cons c calls)
  have "reg_ok (run_registration s c) \<and> (\<exists>new. reg_ids (run_registration s c) = reg_ids s @ new)"
    using register_pod_ips_grows(1) [OF Cons.prems(1), of "r_gpu_map c"] Cons.prems(2)
    unfolding run_registration_def by (metis list.set_intros(1) prod.collapse)
  then show ?case
    using Cons.IH [of "run_registration s c"] Cons.prems(2) by auto
qed simp

text \<open>A repeated address changes nothing, so only the set of the addresses matters.\<close>

lemma register_new_twice: "register_new g fb (ip # ip # ips) s = register_new g fb (ip # ips) s"
  by (auto simp: Let_def dom_update split: sum.splits)

lemma register_new_remdups_adj: "register_new g fb (remdups_adj ips) s = register_new g fb ips s"
proof (induction ips arbitrary: s rule: remdups_adj.induct)
  case (3 x y xs)
  show ?case
  proof (cases "x = y")
    case True
    then show ?thesis
      using 3(1) [OF True] register_new_twice [of g fb x xs s] by (simp del: register_new.simps)
  next
    case False
    then show ?thesis
      using 3(2) [OF False] by (simp cong: sum.case_cong)
  qed
qed simp_all

lemma distinct_remdups_adj_sorted: "sorted xs \<Longrightarrow> distinct (remdups_adj xs)"
  by (induction xs rule: remdups_adj.induct) auto

lemma remdups_adj_sort: "remdups_adj (sort xs) = sorted_list_of_set (set xs)"
  by (rule sorted_distinct_set_unique) (auto simp: sorted_remdups_adj distinct_remdups_adj_sorted)

lemma register_pod_ips_set:
  assumes "set ips = set ips'"
  shows "register_pod_ips env ips g fb s = register_pod_ips env ips' g fb s"
  using register_new_remdups_adj [of g _ "sort ips"] register_new_remdups_adj [of g _ "sort ips'"] assms
  by (simp add: register_pod_ips_def remdups_adj_sort)

subsection \<open>Numbering a file and numbering a fresh registry\<close>

lemma register_new_order:
  "register_new g fb ips s = (s1, Inr n) \<Longrightarrow> distinct ips \<Longrightarrow> set ips \<inter> fst ` set (reg_ids s) = {} \<Longrightarrow>
   map fst (reg_ids s1) = map fst (reg_ids s) @ ips"
proof (induction ips arbitrary: s n)
  case (Cons ip ips)
  then obtain pid gm n' where step: "format_generalpodid (length (reg_ids s)) = Inr pid" "resolve_gpu_model g fb ip = Inr gm"
    "register_new g fb ips (s\<lparr>reg_ids := reg_ids s @ [(ip, pid)], reg_gpus := AList.update ip gm (reg_gpus s)\<rparr>) = (s1, Inr n')"
    by (auto simp: obind_def update_new Let_def split: sum.splits prod.splits)
  then show ?case
    using Cons.IH [OF step(3)] Cons.prems by auto
qed simp

lemma mapping_numbers:
  assumes "distinct ips" "length ips \<le> 1000"
  shows "create_pod_ip_to_generalpodid_mapping ips = Inr (zip (sort ips) (map pod_name [0..<length ips]))"
proof -
  have "traverse (\<lambda>(idx, ip). ebind (format_generalpodid idx) (\<lambda>pid. Inr (ip, pid))) (enumerate 0 (sort ips)) =
      Inr (map (\<lambda>(idx, ip). (ip, pod_name idx)) (enumerate 0 (sort ips)))"
    using assms(2) by (intro traverse_total) (auto simp: in_set_enumerate_eq format_generalpodid_pod_name)
  moreover have "map (\<lambda>(idx, ip). (ip, pod_name idx)) (enumerate 0 (sort ips)) = zip (sort ips) (map pod_name [0..<length ips])"
    by (rule nth_equalityI) (auto simp: nth_enumerate_eq)
  moreover have "distinct (map fst (zip (sort ips) (map pod_name [0..<length ips])))"
    using assms(1) by (simp add: map_fst_zip_take)
  ultimately show ?thesis
    by (simp add: create_pod_ip_to_generalpodid_mapping_def dict_from_distinct)
qed

lemma mapping_is_fresh_registry:
  assumes "distinct ips" "length ips \<le> 1000" "gpu_map_ok g"
  shows "snd (register_pod_ips env ips g fb no_pods) = create_pod_ip_to_generalpodid_mapping ips"
proof -
  obtain s1 r where r: "register_new g (fallback_model env fb) (sort ips) no_pods = (s1, r)"
    by fastforce
  have g: "grown (sort ips) no_pods s1 r"
    using register_new_grows [OF _ assms(3) fallback_known r] by simp
  have "r \<noteq> Inl e" for e
  proof
    assume "r = Inl e"
    then have full: "reg_ok s1" "length (reg_ids s1) = 1000" "fst ` set (reg_ids s1) \<subseteq> set ips" "\<exists>ip \<in> set ips. ip \<notin> fst ` set (reg_ids s1)"
      using g by (auto simp: grown_def no_pods_def)
    then have "card (fst ` set (reg_ids s1)) < card (set ips)"
      by (intro psubset_card_mono) auto
    moreover have "card (fst ` set (reg_ids s1)) = 1000"
      using full(1,2) distinct_card [of "map fst (reg_ids s1)"] by (simp add: reg_ok_def)
    ultimately show False
      using assms(1,2) by (simp add: distinct_card)
  qed
  then obtain n where n: "r = Inr n"
    by (cases r) auto
  have ok: "reg_ok s1"
    using g by (simp add: grown_def)
  have "map fst (reg_ids s1) = sort ips"
    using register_new_order [OF r [unfolded n]] assms(1) by (simp add: no_pods_def)
  then have "reg_ids s1 = zip (sort ips) (map pod_name [0..<length ips])"
    using ok by (metis length_map length_sort reg_ok_def zip_map_fst_snd)
  then show ?thesis
    using r n refresh_agrees [OF ok] mapping_numbers [OF assms(1,2)] by (auto simp: register_pod_ips_def)
qed

subsection \<open>Properties of the registry\<close>



text \<open>
  C27. A registration succeeds exactly when the pods known so far and the new ones are at most 1000. Then
  every given address is bound, nothing else is, and if a pod was added the eight views of the
  hyperparameters agree with the registry. Otherwise it raises \<open>AssertionError\<close> and the views stay
  as they were. The order and repetition of the given addresses do not matter.
\<close>

theorem registration_outcome:
  assumes "reg_ok s" "gpu_map_ok g" "set ips = set ips'"
  shows "register_pod_ips env ips g fb s = register_pod_ips env ips' g fb s \<and>
    (case register_pod_ips env ips g fb s of
      (s1, Inr d) \<Rightarrow> card (fst ` set (reg_ids s) \<union> set ips) \<le> 1000 \<and> d = reg_ids s1 \<and>
        fst ` set d = fst ` set (reg_ids s) \<union> set ips \<and> (s1 = s \<or> (\<exists>v. views s1 = Some v \<and> views_agree s1 v))
    | (s1, Inl e) \<Rightarrow> card (fst ` set (reg_ids s) \<union> set ips) > 1000 \<and> e = AssertionError \<and> views s1 = views s)"
proof -
  obtain s1 r where r: "register_pod_ips env ips g fb s = (s1, r)"
    by fastforce
  have "reg_ok s1"
    using register_pod_ips_grows(1) [OF assms(1,2) r] by simp
  then have "card (fst ` set (reg_ids s1)) \<le> 1000"
    using distinct_card [of "map fst (reg_ids s1)"] by (simp add: reg_ok_def)
  then show ?thesis
    using register_pod_ips_set [OF assms(3)] register_pod_ips_grows(2) [OF assms(1,2) r] r by (cases r) auto
qed

theorem registration_outcome_witness:
  "register_pod_ips None [''10.0.0.1''] [] None no_pods = register_pod_ips None [''10.0.0.1'', ''10.0.0.1''] [] None no_pods \<and>
    (case register_pod_ips None [''10.0.0.1''] [] None no_pods of
      (s1, Inr d) \<Rightarrow> card (fst ` set (reg_ids no_pods) \<union> set [''10.0.0.1'']) \<le> 1000 \<and> d = reg_ids s1 \<and>
        fst ` set d = fst ` set (reg_ids no_pods) \<union> set [''10.0.0.1''] \<and> (s1 = no_pods \<or> (\<exists>v. views s1 = Some v \<and> views_agree s1 v))
    | (s1, Inl e) \<Rightarrow> card (fst ` set (reg_ids no_pods) \<union> set [''10.0.0.1'']) > 1000 \<and> e = AssertionError \<and> views s1 = views no_pods)"
  by (rule registration_outcome) (simp_all add: gpu_map_ok_def)

end
