(* ===== verification/Pod_Text.thy ===== *)
theory Pod_Text
  imports Pod_Registry
begin

text \<open>
  Pod addresses in text (\<open>agent_codes/utils.py\<close>): the three search patterns for addresses, the GPU map
  of a log message, and the replacement of addresses by pod ids. The regular expressions are read as
  the matchers they denote; \<open>find_all\<close> is the left to right search for matches that do not overlap.
\<close>

subsection \<open>Searching addresses\<close>

text \<open>\<open>\w\<close> on the characters 0 to 255.\<close>

definition word_char :: "char \<Rightarrow> bool" where
  "word_char c \<longleftrightarrow> is_digit c \<or> (65 \<le> code c \<and> code c \<le> 90) \<or> (97 \<le> code c \<and> code c \<le> 122) \<or> code c = 95 \<or>
     code c \<in> {170, 178, 179, 181, 185, 186, 188, 189, 190} \<or> (192 \<le> code c \<and> code c \<noteq> 215 \<and> code c \<noteq> 247)"

text \<open>\<open>\d{1,3}\<close> before a character that is no digit: the whole run of digits, at most three.\<close>

definition match_octet :: "string \<Rightarrow> (string \<times> string) option" where
  "match_octet s =
     (let d = takeWhile is_digit s in if d \<noteq> [] \<and> length d \<le> 3 then Some (d, drop (length d) s) else None)"

definition match_dot :: "string \<times> string \<Rightarrow> (string \<times> string) option" where
  "match_dot m =
     (case snd m of
        c # r \<Rightarrow> if c = CHR ''.'' then map_option (\<lambda>(d, r1). (fst m @ c # d, r1)) (match_octet r) else None
      | [] \<Rightarrow> None)"

definition match_ip :: "string \<Rightarrow> (string \<times> string) option" where
  "match_ip s =
     Option.bind (match_octet s) (\<lambda>a. Option.bind (match_dot a) (\<lambda>b. Option.bind (match_dot b) match_dot))"

definition selectedpod_pattern :: "char option \<Rightarrow> string \<Rightarrow> (string \<times> string) option" where
  "selectedpod_pattern prev s =
     (if starts_with ''selectedpod@'' s then
        (case match_ip (drop 12 s) of
           Some (ip, c # r) \<Rightarrow> if c = CHR ''@'' then Some (ip, r) else None
         | _ \<Rightarrow> None)
      else None)"

definition json_ip_pattern :: "char option \<Rightarrow> string \<Rightarrow> (string \<times> string) option" where
  "json_ip_pattern prev s =
     (case s of
        c # t \<Rightarrow>
          if code c \<noteq> 34 then None
          else (case match_ip t of
                  Some (ip, d # e # r) \<Rightarrow> if code d = 34 \<and> e = CHR '':'' then Some (ip, r) else None
                | _ \<Rightarrow> None)
      | [] \<Rightarrow> None)"

definition general_ip_pattern :: "char option \<Rightarrow> string \<Rightarrow> (string \<times> string) option" where
  "general_ip_pattern prev s =
     (if (case prev of Some p \<Rightarrow> word_char p | None \<Rightarrow> False) then None
      else case match_ip s of
             Some (ip, r) \<Rightarrow> (case r of c # _ \<Rightarrow> if word_char c then None else Some (ip, r) | [] \<Rightarrow> Some (ip, r))
           | None \<Rightarrow> None)"

function find_all :: "(char option \<Rightarrow> string \<Rightarrow> (string \<times> string) option) \<Rightarrow> char option \<Rightarrow> string \<Rightarrow> string list" where
  "find_all pat prev [] = []"
| "find_all pat prev (c # cs) =
     (case pat prev (c # cs) of
        Some (g, r) \<Rightarrow>
          if length r \<le> length cs then g # find_all pat (Some ((c # cs) ! (length cs - length r))) r
          else find_all pat (Some c) cs
      | None \<Rightarrow> find_all pat (Some c) cs)"
  by pat_completeness auto
termination find_all
  by (relation "measure (\<lambda>(_, _, s). length s)") auto

definition valid_ip :: "string \<Rightarrow> bool" where
  "valid_ip ip \<longleftrightarrow>
     (let parts = split_at (CHR ''.'') ip
      in length parts = 4 \<and> (\<forall>p \<in> set parts. p \<noteq> [] \<and> list_all is_digit p \<longrightarrow> nat_of p \<le> 255))"

text \<open>The set of the addresses, here without repetition in the order they are found.\<close>

definition extract_pod_ips_from_content :: "string \<Rightarrow> string list" where
  "extract_pod_ips_from_content content =
     filter valid_ip (remdups (find_all selectedpod_pattern None content @ find_all json_ip_pattern None content @
       filter (starts_with ''10.'') (find_all general_ip_pattern None content)))"

subsection \<open>The GPU map of a log message\<close>

fun gpu_field :: "string \<Rightarrow> string option" where
  "gpu_field [] = None"
| "gpu_field (c # cs) =
     (let field = takeWhile (\<lambda>x. x \<noteq> CHR ''@'') (drop 4 cs);
          body = rev (dropWhile (\<lambda>x. x \<noteq> CHR ''}'') (rev field))
      in if starts_with (''@GPU@'' @ ''{'') (c # cs) \<and> body \<noteq> [] then Some body else gpu_field cs)"

definition extract_gpu_map_from_log_message :: "string \<Rightarrow> (string \<times> pyval) list" where
  "extract_gpu_map_from_log_message content =
     (case gpu_field content of
        None \<Rightarrow> []
      | Some body \<Rightarrow> (case loads body of Inr (PDict d) \<Rightarrow> d | _ \<Rightarrow> []))"

subsection \<open>Replacing addresses\<close>

text \<open>The substitution of a pattern that is the alternation of literal keys: at each position the first
  key that matches there.\<close>

function sub_keys :: "(string \<times> string) list \<Rightarrow> string \<Rightarrow> string" where
  "sub_keys kvs [] = []"
| "sub_keys kvs (c # cs) =
     (case find (\<lambda>kv. starts_with (fst kv) (c # cs)) kvs of
        Some (k, v) \<Rightarrow> if k = [] then v @ c # sub_keys kvs cs else v @ sub_keys kvs (drop (length k) (c # cs))
      | None \<Rightarrow> c # sub_keys kvs cs)"
  by pat_completeness auto
termination sub_keys
  by (relation "measure (\<lambda>(_, s). length s)") auto

definition longest_first :: "(string \<times> string) list \<Rightarrow> (string \<times> string) list" where
  "longest_first kvs = sort_key (\<lambda>kv. - int (length (fst kv))) kvs"

definition replaceable :: "(string \<times> string) list \<Rightarrow> string list \<Rightarrow> (string \<times> string) list" where
  "replaceable ids ips = concat (map (\<lambda>ip. case map_of ids ip of Some v \<Rightarrow> [(ip, v)] | None \<Rightarrow> []) ips)"

definition replace_in_log :: "string option \<Rightarrow> string \<Rightarrow> agent_pods \<Rightarrow> (agent_pods, string) outcome" where
  "replace_in_log env content s =
     (let ips = extract_pod_ips_from_content content in
      if ips = [] then (s, Inl AssertionError)
      else obind (register_pod_ips env ips (extract_gpu_map_from_log_message content) None s) (\<lambda>s1 ids.
             let r = replaceable ids ips
             in (s1, Inr (if r = [] then content else sub_keys (longest_first r) content))))"

text \<open>Without the registry (the per-call mapping) and for a whole file.\<close>

definition replace_in_log_legacy :: "string \<Rightarrow> py_error + string" where
  "replace_in_log_legacy content =
     (let ips = extract_pod_ips_from_content content in
      if ips = [] then Inl AssertionError
      else ebind (create_pod_ip_to_generalpodid_mapping (sort ips)) (\<lambda>ids.
             let r = replaceable ids ips
             in Inr (if r = [] then content else sub_keys (longest_first r) content)))"

definition replace_in_file :: "string \<Rightarrow> py_error + string" where
  "replace_in_file content =
     (let ips = sort (extract_pod_ips_from_content content) in
      if ips = [] then Inl ValueError
      else ebind (create_pod_ip_to_generalpodid_mapping ips) (\<lambda>ids. Inr (sub_keys (longest_first ids) content)))"

subsection \<open>Replacement acts on whole addresses\<close>

definition address_char :: "char \<Rightarrow> bool" where
  "address_char c \<longleftrightarrow> is_digit c \<or> c = CHR ''.''"

text \<open>A text as its maximal runs of address characters and the single other characters.\<close>

function tokens :: "string \<Rightarrow> string list" where
  "tokens [] = []"
| "tokens (c # cs) =
     (if address_char c then takeWhile address_char (c # cs) # tokens (dropWhile address_char (c # cs))
      else [c] # tokens cs)"
  by pat_completeness auto
termination tokens
  by (relation "measure length") (auto simp: le_imp_less_Suc length_dropWhile_le)

lemma concat_tokens: "concat (tokens s) = s"
  by (induction s rule: tokens.induct) auto

definition subst_token :: "(string \<times> string) list \<Rightarrow> string \<Rightarrow> string" where
  "subst_token kvs t = (case map_of kvs t of Some v \<Rightarrow> v | None \<Rightarrow> t)"

definition address_keys :: "(string \<times> string) list \<Rightarrow> bool" where
  "address_keys kvs \<longleftrightarrow> distinct (map fst kvs) \<and> (\<forall>k \<in> fst ` set kvs. k \<noteq> [] \<and> list_all address_char k)"

lemma address_keysD: "address_keys kvs \<Longrightarrow> k \<in> fst ` set kvs \<Longrightarrow> k \<noteq> [] \<and> list_all address_char k"
  unfolding address_keys_def by blast

text \<open>A run is replaced as a whole when it is a key, and must not hide a key otherwise.\<close>

definition clear_token :: "(string \<times> string) list \<Rightarrow> string \<Rightarrow> bool" where
  "clear_token kvs t \<longleftrightarrow> t \<in> fst ` set kvs \<or> (\<forall>k \<in> fst ` set kvs. \<not> contains k t)"

lemma starts_with_iff: "starts_with k s \<longleftrightarrow> (\<exists>r. s = k @ r)"
  by (induction k s rule: starts_with.induct) auto

lemma str_index_prefix: "str_index k (a @ k @ b) \<noteq> None"
proof (induction a)
  case Nil
  then show ?case
    using str_index_front by simp
qed auto

lemma starts_with_run:
  assumes "list_all address_char k" "starts_with k (r @ rest)" "rest = [] \<or> \<not> address_char (hd rest)"
  shows "starts_with k r"
  using assms
proof (induction k r rule: starts_with.induct)
  case (2 c cs)
  then show ?case
    by (cases rest) auto
qed auto

lemma find_longest:
  assumes "(k, v) \<in> set kvs" "distinct (map fst kvs)" "sorted (map (\<lambda>kv. - int (length (fst kv))) kvs)"
    and "starts_with k s" "\<And>k'. k' \<in> fst ` set kvs \<Longrightarrow> starts_with k' s \<Longrightarrow> length k' \<le> length k"
  shows "find (\<lambda>kv. starts_with (fst kv) s) kvs = Some (k, v)"
  using assms
proof (induction kvs)
  case (Cons kv kvs)
  show ?case
  proof (cases "starts_with (fst kv) s")
    case True
    have "length (fst kv) \<le> length k"
      using Cons.prems(5) True by simp
    moreover have "length k \<le> length (fst kv)"
      using Cons.prems(1,3) by auto
    ultimately have "fst kv = k"
      using True Cons.prems(4) by (auto simp: starts_with_iff)
    moreover from this have "(k, v) \<notin> set kvs"
      using Cons.prems(2) by (auto simp: rev_image_eqI)
    ultimately have "kv = (k, v)"
      using Cons.prems(1) by simp
    then show ?thesis
      using True by simp
  next
    case False
    then have "(k, v) \<in> set kvs"
      using Cons.prems(1,4) by auto
    then show ?thesis
      using Cons False by simp
  qed
qed simp

lemma longest_first_props:
  "set (longest_first kvs) = set kvs" "sorted (map (\<lambda>kv. - int (length (fst kv))) (longest_first kvs))"
  "distinct (map fst kvs) \<Longrightarrow> distinct (map fst (longest_first kvs))"
proof -
  show "distinct (map fst kvs) \<Longrightarrow> distinct (map fst (longest_first kvs))"
    by (simp add: distinct_map longest_first_def)
qed (simp_all add: longest_first_def)

lemma address_keys_longest_first: "address_keys kvs \<Longrightarrow> address_keys (longest_first kvs)"
  by (simp add: address_keys_def longest_first_props)

lemma map_of_longest_first: "distinct (map fst kvs) \<Longrightarrow> map_of (longest_first kvs) = map_of kvs"
  using longest_first_props [of kvs] by (intro map_of_inject_set [THEN iffD2]) auto

lemma sub_keys_skip:
  assumes "address_keys kvs" "\<not> address_char c"
  shows "sub_keys kvs (c # cs) = c # sub_keys kvs cs"
proof -
  have "\<not> starts_with (fst kv) (c # cs)" if "kv \<in> set kvs" for kv
    using assms that by (cases "fst kv") (auto simp: address_keys_def)
  then have "find (\<lambda>kv. starts_with (fst kv) (c # cs)) kvs = None"
    by (auto simp: find_None_iff)
  then show ?thesis by simp
qed

lemma sub_keys_plain_run:
  assumes "address_keys kvs" "rest = [] \<or> \<not> address_char (hd rest)" "\<forall>k \<in> fst ` set kvs. \<not> contains k (a @ r)"
  shows "sub_keys kvs (r @ rest) = r @ sub_keys kvs rest"
  using assms(3)
proof (induction r arbitrary: a)
  case (Cons c r)
  have "\<not> starts_with (fst kv) (c # r @ rest)" if kv: "kv \<in> set kvs" for kv
  proof
    assume "starts_with (fst kv) (c # r @ rest)"
    then have "starts_with (fst kv) (c # r)"
      using starts_with_run [of "fst kv" "c # r" rest] assms(1,2) kv by (auto simp: address_keys_def)
    then obtain b where "c # r = fst kv @ b"
      by (auto simp: starts_with_iff)
    then have "contains (fst kv) (a @ c # r)"
      using str_index_prefix [of "fst kv" a b] by (simp add: contains_def)
    then show False
      using Cons.prems kv by auto
  qed
  then have "find (\<lambda>kv. starts_with (fst kv) (c # r @ rest)) kvs = None"
    by (auto simp: find_None_iff)
  then show ?case
    using Cons.IH [of "a @ [c]"] Cons.prems by simp
qed simp

lemma sub_keys_key_run:
  assumes k: "address_keys kvs" "(r, v) \<in> set kvs"
    and rest: "rest = [] \<or> \<not> address_char (hd rest)"
  shows "sub_keys (longest_first kvs) (r @ rest) = v @ sub_keys (longest_first kvs) rest"
proof -
  have r: "r \<noteq> []" "list_all address_char r"
    using k by (auto simp: address_keys_def)
  have "length k' \<le> length r" if "k' \<in> fst ` set (longest_first kvs)" "starts_with k' (r @ rest)" for k'
  proof -
    have "starts_with k' r"
      using starts_with_run [of k' r rest] that address_keysD [OF k(1), of k'] rest by (simp add: longest_first_props)
    then show ?thesis
      by (auto simp: starts_with_iff)
  qed
  then have "find (\<lambda>kv. starts_with (fst kv) (r @ rest)) (longest_first kvs) = Some (r, v)"
    using k by (intro find_longest) (auto simp: longest_first_props address_keys_def starts_with_append)
  then show ?thesis
    using r by (cases r) auto
qed

lemma sub_keys_tokens:
  assumes "address_keys kvs"
  shows "\<forall>t \<in> set (tokens s). clear_token kvs t \<Longrightarrow>
    sub_keys (longest_first kvs) s = concat (map (subst_token kvs) (tokens s))"
proof (induction s rule: tokens.induct)
  case 1
  then show ?case by simp
next
  case (2 c cs)
  note keys = address_keys_longest_first [OF assms]
  show ?case
  proof (cases "address_char c")
    case False
    then have "[c] \<notin> fst ` set kvs"
      using address_keysD [OF assms, of "[c]"] by auto
    then have "map_of kvs [c] = None"
      by (simp add: map_of_eq_None_iff)
    then have "subst_token kvs [c] = [c]"
      by (simp add: subst_token_def)
    then show ?thesis
      using 2 False sub_keys_skip [OF keys False] by simp
  next
    case True
    define r rest where "r = takeWhile address_char (c # cs)" and "rest = dropWhile address_char (c # cs)"
    have s: "c # cs = r @ rest"
      unfolding r_def rest_def by (rule takeWhile_dropWhile_id [symmetric])
    have rest: "rest = [] \<or> \<not> address_char (hd rest)"
      unfolding rest_def using hd_dropWhile by blast
    have toks: "tokens (c # cs) = r # tokens rest"
      using True by (simp add: r_def rest_def)
    have IH: "sub_keys (longest_first kvs) rest = concat (map (subst_token kvs) (tokens rest))"
      using 2 True toks by (simp add: rest_def)
    have "sub_keys (longest_first kvs) (r @ rest) = subst_token kvs r @ sub_keys (longest_first kvs) rest"
    proof (cases "map_of kvs r")
      case None
      then have plain: "\<forall>k \<in> fst ` set (longest_first kvs). \<not> contains k ([] @ r)"
        using 2(3) toks by (auto simp: clear_token_def map_of_eq_None_iff longest_first_props)
      show ?thesis
        using sub_keys_plain_run [OF keys rest plain] None by (simp add: subst_token_def)
    next
      case (Some v)
      then show ?thesis
        using sub_keys_key_run [OF assms map_of_SomeD [OF Some] rest] by (simp add: subst_token_def)
    qed
    then show ?thesis
      using IH toks s by simp
  qed
qed

subsection \<open>What the search finds\<close>

lemma match_octet_split: "match_octet s = Some (d, r) \<Longrightarrow> s = d @ r \<and> d \<noteq> [] \<and> list_all address_char d"
  by (auto simp: match_octet_def Let_def address_char_def list_all_iff dest: set_takeWhileD split: if_splits)

lemma match_dot_split:
  "match_dot (a, s) = Some (b, r) \<Longrightarrow> a @ s = b @ r \<and> b \<noteq> [] \<and> (list_all address_char a \<longrightarrow> list_all address_char b)"
  by (auto simp: match_dot_def address_char_def split: list.splits if_splits dest!: match_octet_split)

lemma match_ip_split:
  assumes "match_ip s = Some (ip, r)"
  shows "s = ip @ r" "ip \<noteq> []" "list_all address_char ip"
proof -
  obtain a b c where a: "match_octet s = Some a" "match_dot a = Some b" "match_dot b = Some c" "match_dot c = Some (ip, r)"
    using assms by (auto simp: match_ip_def bind_eq_Some_conv)
  show "s = ip @ r" "ip \<noteq> []" "list_all address_char ip"
    using a match_octet_split [of s "fst a" "snd a"] match_dot_split [of "fst a" "snd a" "fst b" "snd b"]
      match_dot_split [of "fst b" "snd b" "fst c" "snd c"] match_dot_split [of "fst c" "snd c" ip r]
    by simp_all
qed

lemma find_all_found:
  "ip \<in> set (find_all pat prev s) \<Longrightarrow> \<exists>prev s r. pat prev s = Some (ip, r)"
proof (induction pat prev s rule: find_all.induct)
  case (2 pat prev c cs)
  show ?case
  proof (cases "pat prev (c # cs)")
    case None
    then show ?thesis
      using 2 by simp
  next
    case (Some m)
    then obtain g r where m: "pat prev (c # cs) = Some (g, r)"
      by (cases m) auto
    then show ?thesis
      using 2 by (cases "length r \<le> length cs") auto
  qed
qed simp

lemma pattern_address:
  "selectedpod_pattern prev s = Some (ip, r) \<Longrightarrow> ip \<noteq> [] \<and> list_all address_char ip"
  "json_ip_pattern prev s = Some (ip, r) \<Longrightarrow> ip \<noteq> [] \<and> list_all address_char ip"
  "general_ip_pattern prev s = Some (ip, r) \<Longrightarrow> ip \<noteq> [] \<and> list_all address_char ip"
  by (auto simp: selectedpod_pattern_def json_ip_pattern_def general_ip_pattern_def
      split: if_splits option.splits list.splits prod.splits dest: match_ip_split)

lemma extracted_address:
  assumes "ip \<in> set (extract_pod_ips_from_content content)"
  shows "ip \<noteq> [] \<and> list_all address_char ip"
proof -
  have "ip \<in> set (find_all selectedpod_pattern None content) \<or> ip \<in> set (find_all json_ip_pattern None content) \<or>
      ip \<in> set (find_all general_ip_pattern None content)"
    using assms by (auto simp: extract_pod_ips_from_content_def)
  then show ?thesis
    using find_all_found pattern_address by blast
qed

lemma replaceable_simps [simp]:
  "replaceable ids [] = []"
  "replaceable ids (a # ips) = (case map_of ids a of Some v \<Rightarrow> [(a, v)] | None \<Rightarrow> []) @ replaceable ids ips"
  by (simp_all add: replaceable_def)

lemma replaceable_props:
  "map_of (replaceable ids ips) ip = (if ip \<in> set ips then map_of ids ip else None)"
  "fst ` set (replaceable ids ips) = {ip \<in> set ips. map_of ids ip \<noteq> None}"
  "distinct ips \<Longrightarrow> distinct (map fst (replaceable ids ips))"
proof -
  have keys: "fst ` set (replaceable ids ips) = {ip \<in> set ips. map_of ids ip \<noteq> None}" for ips
    by (induction ips) (auto simp: image_Un split: option.splits)
  show "fst ` set (replaceable ids ips) = {ip \<in> set ips. map_of ids ip \<noteq> None}"
    by (rule keys)
  show "map_of (replaceable ids ips) ip = (if ip \<in> set ips then map_of ids ip else None)"
    by (induction ips) (auto simp: map_add_def split: option.splits)
  show "distinct ips \<Longrightarrow> distinct (map fst (replaceable ids ips))"
  proof (induction ips)
    case (Cons a ips)
    then show ?case
      using keys [of ips] by (auto split: option.splits)
  qed simp
qed

lemma extract_distinct: "distinct (extract_pod_ips_from_content content)"
  by (simp add: extract_pod_ips_from_content_def)

lemma replaceable_keys: "address_keys (replaceable ids (extract_pod_ips_from_content content))"
  unfolding address_keys_def replaceable_props(2)
  using replaceable_props(3) [OF extract_distinct] extracted_address by blast

subsection \<open>No quoted address is missed\<close>

lemma json_pattern_shape:
  assumes "json_ip_pattern prev s = Some (ip, r)"
  obtains q q' where "s = q # ip @ q' # CHR '':'' # r" "code q = 34" "code q' = 34" "ip \<noteq> []" "list_all address_char ip"
proof -
  obtain q q' t where m: "s = q # t" "code q = 34" "match_ip t = Some (ip, q' # CHR '':'' # r)" "code q' = 34"
    using assms by (auto simp: json_ip_pattern_def split: list.splits option.splits if_splits)
  show thesis
    by (rule that [of q q']) (use m match_ip_split [OF m(3)] in simp_all)
qed

lemma address_char_codes: "address_char c \<Longrightarrow> code c \<noteq> 34 \<and> c \<noteq> CHR '':''"
  by (auto simp: address_char_def is_digit_def code_def)

lemma nth_shape:
  "(q # ip @ q' # c # r) ! 0 = q"
  "0 < n \<Longrightarrow> n \<le> length ip \<Longrightarrow> (q # ip @ q' # c # r) ! n = ip ! (n - 1)"
  "(q # ip @ q' # c # r) ! Suc (length ip) = q'"
  "(q # ip @ q' # c # r) ! Suc (Suc (length ip)) = c"
  by (auto simp: nth_Cons nth_append split: nat.splits)

lemma quoted_no_overlap:
  assumes s: "s = Q # ip @ Q' # CHR '':'' # r" "code Q = 34" "ip \<noteq> []" "list_all address_char ip"
    and t: "pre @ s = q # ip2 @ q' # CHR '':'' # r2" "code q' = 34" "list_all address_char ip2"
    and pre: "pre \<noteq> []"
  shows "\<exists>pre2. r2 = pre2 @ s \<and> length pre2 < length pre"
proof -
  let ?n = "length pre" and ?t = "q # ip2 @ q' # CHR '':'' # r2"
  have at: "?t ! ?n = Q" "?t ! Suc ?n = hd ip"
    unfolding t(1) [symmetric] using s(1,3) by (simp_all add: nth_append hd_conv_nth)
  have hd: "address_char (hd ip)"
    using s(3,4) by (cases ip) auto
  have "\<not> ?n \<le> length ip2"
  proof
    assume "?n \<le> length ip2"
    then have "Q = ip2 ! (?n - 1)"
      using at(1) nth_shape(2) [of ?n ip2 q q' _ r2] pre by simp
    moreover have "?n - 1 < length ip2"
      using \<open>?n \<le> length ip2\<close> pre by (cases pre) auto
    ultimately have "address_char Q"
      using t(3) by (simp add: list_all_length)
    then show False
      using address_char_codes s(2) by blast
  qed
  moreover have "?n \<noteq> Suc (length ip2)"
    using at(2) hd address_char_codes nth_shape(4) [of q ip2 q'] by metis
  moreover have "?n \<noteq> Suc (Suc (length ip2))"
    using at(1) s(2) nth_shape(4) [of q ip2 q' "CHR '':''" r2] by (auto simp: code_def)
  ultimately have n: "?n \<ge> length ip2 + 3" by linarith
  have "r2 = drop (length ip2 + 3) (pre @ s)"
    using t(1) by (simp add: numeral_3_eq_3)
  also have "\<dots> = drop (length ip2 + 3) pre @ s"
    using n by simp
  finally show ?thesis
    using n pre by (intro exI [of _ "drop (length ip2 + 3) pre"]) auto
qed

lemma find_all_quoted:
  assumes s: "\<And>prev. json_ip_pattern prev s = Some (ip, r)"
  shows "ip \<in> set (find_all json_ip_pattern prev (pre @ s))"
proof (induction "length pre" arbitrary: pre prev rule: less_induct)
  case less
  obtain Q Q' where sh: "s = Q # ip @ Q' # CHR '':'' # r" "code Q = 34" "ip \<noteq> []" "list_all address_char ip"
    by (rule json_pattern_shape [OF s [of None]]) (rule that)
  show ?case
  proof (cases pre)
    case Nil
    then show ?thesis
      using s sh(1) by simp
  next
    case (Cons c pre')
    show ?thesis
    proof (cases "json_ip_pattern prev (pre @ s)")
      case None
      then show ?thesis
        using less [of pre' "Some c"] Cons by simp
    next
      case (Some m)
      obtain ip2 r2 where m: "json_ip_pattern prev (pre @ s) = Some (ip2, r2)"
        using Some by (cases m) auto
      obtain q q' where "pre @ s = q # ip2 @ q' # CHR '':'' # r2" "code q' = 34" "list_all address_char ip2"
        by (rule json_pattern_shape [OF m]) (rule that)
      then obtain pre2 where "r2 = pre2 @ s" "length pre2 < length pre"
        using quoted_no_overlap [OF sh] Cons by blast
      then show ?thesis
        using less [of pre2] m Cons by auto
    qed
  qed
qed

lemma match_octet_append:
  "match_octet s = Some (d, r) \<Longrightarrow> rest = [] \<or> \<not> is_digit (hd rest) \<Longrightarrow> match_octet (s @ rest) = Some (d, r @ rest)"
proof -
  assume m: "match_octet s = Some (d, r)" and rest: "rest = [] \<or> \<not> is_digit (hd rest)"
  have "takeWhile is_digit rest = []"
    using rest by (cases rest) auto
  then have "takeWhile is_digit (s @ rest) = takeWhile is_digit s"
    by (induction s) simp_all
  then show ?thesis
    using m by (auto simp: match_octet_def Let_def length_takeWhile_le split: if_splits)
qed

lemma match_dot_append:
  "match_dot (a, s) = Some (b, r) \<Longrightarrow> rest = [] \<or> \<not> is_digit (hd rest) \<Longrightarrow> match_dot (a, s @ rest) = Some (b, r @ rest)"
  by (auto simp: match_dot_def match_octet_append split: list.splits if_splits)

lemma match_ip_append:
  assumes "match_ip s = Some (ip, r)" "rest = [] \<or> \<not> is_digit (hd rest)"
  shows "match_ip (s @ rest) = Some (ip, r @ rest)"
proof -
  obtain a b c where "match_octet s = Some a" "match_dot a = Some b" "match_dot b = Some c" "match_dot c = Some (ip, r)"
    using assms(1) by (auto simp: match_ip_def bind_eq_Some_conv)
  then show ?thesis
    using assms(2) match_octet_append [of s "fst a" "snd a" rest] match_dot_append [of "fst a" "snd a" "fst b" "snd b" rest]
      match_dot_append [of "fst b" "snd b" "fst c" "snd c" rest] match_dot_append [of "fst c" "snd c" ip r rest]
    by (simp add: match_ip_def)
qed

subsection \<open>Properties of the replacement\<close>

definition quote_char :: char where
  "quote_char = char_of (34 :: nat)"

text \<open>
  C28. Every pod that is a key of a JSON map in a log message is found: a dotted quad with numbers up to
  255 between quotes and before a colon is among the extracted addresses, whatever surrounds it.
\<close>

theorem quoted_addresses_are_extracted:
  assumes "match_ip ip = Some (ip, [])" "valid_ip ip"
  shows "ip \<in> set (extract_pod_ips_from_content (pre @ quote_char # ip @ quote_char # CHR '':'' # post))"
proof -
  have q: "code quote_char = 34" "\<not> is_digit quote_char"
    by (simp_all add: quote_char_def code_def is_digit_def)
  have "match_ip (ip @ quote_char # CHR '':'' # post) = Some (ip, quote_char # CHR '':'' # post)"
    using match_ip_append [OF assms(1), of "quote_char # CHR '':'' # post"] q(2) by simp
  then have "json_ip_pattern prev (quote_char # ip @ quote_char # CHR '':'' # post) = Some (ip, post)" for prev
    using q(1) by (simp add: json_ip_pattern_def)
  then have "ip \<in> set (find_all json_ip_pattern None (pre @ quote_char # ip @ quote_char # CHR '':'' # post))"
    by (rule find_all_quoted)
  then show ?thesis
    using assms(2) by (simp add: extract_pod_ips_from_content_def)
qed

theorem quoted_addresses_are_extracted_witness:
  "''10.0.1.5'' \<in> set (extract_pod_ips_from_content (''GPU: {'' @ quote_char # ''10.0.1.5'' @ quote_char # CHR '':'' # ''1}''))"
  by (rule quoted_addresses_are_extracted) code_simp+

text \<open>
  C9. Replacement puts the registered pod id for every extracted address and changes nothing else, also
  where one address is a prefix of another: if every maximal run of digits and dots in the message is
  an extracted address or contains none, the result is the message with exactly those runs replaced.
\<close>

theorem log_addresses_become_pod_ids:
  assumes "reg_ok s" "gpu_map_ok (extract_gpu_map_from_log_message content)"
    and "replace_in_log env content s = (s1, Inr out)"
    and "\<forall>t \<in> set (tokens content). clear_token (replaceable (reg_ids s1) (extract_pod_ips_from_content content)) t"
  shows "set (extract_pod_ips_from_content content) \<subseteq> fst ` set (reg_ids s1) \<and>
    out = concat (map (\<lambda>t. if t \<in> set (extract_pod_ips_from_content content) then the (map_of (reg_ids s1) t) else t) (tokens content))"
proof -
  let ?ips = "extract_pod_ips_from_content content"
  let ?r = "replaceable (reg_ids s1) ?ips"
  obtain d where d: "register_pod_ips env ?ips (extract_gpu_map_from_log_message content) None s = (s1, Inr d)"
    and out: "out = (if replaceable d ?ips = [] then content else sub_keys (longest_first (replaceable d ?ips)) content)"
    using assms(3) by (auto simp: replace_in_log_def Let_def obind_def split: prod.splits sum.splits if_splits)
  have dom: "d = reg_ids s1" "set ?ips \<subseteq> fst ` set (reg_ids s1)"
    using register_pod_ips_grows(2) [OF assms(1,2) d] by auto
  have subst: "subst_token ?r t = (if t \<in> set ?ips then the (map_of (reg_ids s1) t) else t)" for t
  proof (cases "t \<in> set ?ips")
    case True
    then obtain v where "map_of (reg_ids s1) t = Some v"
      using dom(2) by (cases "map_of (reg_ids s1) t") (auto simp: map_of_eq_None_iff)
    then show ?thesis
      using True by (simp add: subst_token_def replaceable_props(1))
  qed (simp add: subst_token_def replaceable_props(1))
  have "subst_token [] = (\<lambda>t. t)"
    by (simp add: subst_token_def fun_eq_iff)
  then have "?r = [] \<Longrightarrow> concat (map (subst_token ?r) (tokens content)) = content"
    by (simp add: concat_tokens)
  then have "out = concat (map (subst_token ?r) (tokens content))"
    using out dom(1) sub_keys_tokens [OF replaceable_keys assms(4)] by auto
  also have "map (subst_token ?r) (tokens content) =
      map (\<lambda>t. if t \<in> set ?ips then the (map_of (reg_ids s1) t) else t) (tokens content)"
    by (rule map_cong [OF refl]) (rule subst)
  finally show ?thesis
    using dom(2) by blast
qed

theorem log_addresses_become_pod_ids_witness:
  "let X = replace_in_log None ''10.0.1.5@10.0.1.50'' no_pods; ips = extract_pod_ips_from_content ''10.0.1.5@10.0.1.50'' in
    set ips \<subseteq> fst ` set (reg_ids (fst X)) \<and>
    projr (snd X) = concat (map (\<lambda>t. if t \<in> set ips then the (map_of (reg_ids (fst X)) t) else t) (tokens ''10.0.1.5@10.0.1.50''))"
proof -
  let ?c = "''10.0.1.5@10.0.1.50''"
  let ?X = "replace_in_log None ?c no_pods"
  have "isl (snd ?X) = False"
    by code_simp
  then have r: "?X = (fst ?X, Inr (projr (snd ?X)))"
    by (cases ?X) (auto split: sum.splits simp: isl_def)
  have "\<forall>t \<in> set (tokens ?c). clear_token (replaceable (reg_ids (fst ?X)) (extract_pod_ips_from_content ?c)) t"
    by code_simp
  moreover have "gpu_map_ok (extract_gpu_map_from_log_message ?c)"
    by code_simp
  ultimately show ?thesis
    using log_addresses_become_pod_ids [OF reg_ok_no_pods _ r] by (simp add: Let_def)
qed

text \<open>
  The ids of a flushed training batch are not the ids of serving. Requests registered first
  \<open>10.0.0.2\<close> and then \<open>10.0.0.1\<close>, so serving calls them \<open>pod_0000\<close> and \<open>pod_0001\<close>; the batch file numbers
  the addresses of the file in sorted order, and the same line gets the two ids exchanged.
\<close>

lemma flushed_batch_exchanges_pod_ids:
  "let s1 = fst (replace_in_log None ''selectedpod@10.0.0.2@x'' no_pods);
       r = replace_in_log None ''selectedpod@10.0.0.1@other@10.0.0.2@x'' s1
   in snd r = Inr ''selectedpod@pod_0001@other@pod_0000@x'' \<and>
      replace_in_file ''selectedpod@10.0.0.1@other@10.0.0.2@x'' = Inr ''selectedpod@pod_0000@other@pod_0001@x''"
  by code_simp

end
