(* ===== verification/Log_Parser.thy ===== *)
theory Log_Parser
  imports Pod_Text
begin

text \<open>
  The parsers of gateway log lines (\<open>agent_codes/preprocess.py\<close>): \<open>_parse_log_to_dict\<close> for one request in
  serving and \<open>parse_log_file\<close> for the files of training, and the pod ids of a row
  (\<open>get_sorted_all_pod_ids\<close> of \<open>utils.py\<close>). A row is the association list of its columns.
\<close>

type_synonym row = "(string \<times> pyval) list"

subsection \<open>Values\<close>

text \<open>\<open>str.isdigit\<close>: it also holds of the superscript digits, which \<open>int\<close> refuses.\<close>

definition py_isdigit :: "string \<Rightarrow> bool" where
  "py_isdigit s \<longleftrightarrow> s \<noteq> [] \<and> list_all (\<lambda>c. is_digit c \<or> code c = 178 \<or> code c = 179 \<or> code c = 185) s"

definition fast_parse_value :: "string \<Rightarrow> py_error + pyval" where
  "fast_parse_value value =
     (if value = [] then Inr (PStr value)
      else if py_isdigit value then (case py_int value of Some i \<Rightarrow> Inr (PInt i) | None \<Rightarrow> Inl ValueError)
      else if count_list value (CHR ''.'') = 1 \<and> py_isdigit (filter (\<lambda>c. c \<noteq> CHR ''.'' \<and> c \<noteq> CHR ''-'') value)
      then Inr (case py_float value of Some x \<Rightarrow> PFloat x | None \<Rightarrow> PStr value)
      else Inr (PStr value))"

text \<open>\<open>value.replace('\\"', '"')\<close>.\<close>

fun unescape_quotes :: "string \<Rightarrow> string" where
  "unescape_quotes (c # d # r) =
     (if code c = 92 \<and> code d = 34 then d # unescape_quotes r else c # unescape_quotes (d # r))"
| "unescape_quotes s = s"

definition braced :: "string \<Rightarrow> bool" where
  "braced value \<longleftrightarrow> value \<noteq> [] \<and> hd value = CHR ''{'' \<and> last value = CHR ''}''"

fun field_pairs :: "string list \<Rightarrow> (string \<times> string) list" where
  "field_pairs (k # v # rest) = (k, v) # field_pairs rest"
| "field_pairs _ = []"

subsection \<open>One request\<close>

fun parse_fields :: "(string \<times> string) list \<Rightarrow> row \<Rightarrow> string list \<Rightarrow> py_error + row \<times> string list" where
  "parse_fields [] row json_columns = Inr (row, json_columns)"
| "parse_fields ((key, value) # rest) row json_columns =
     (if braced value then
        (case loads (unescape_quotes value) of
           Inr v \<Rightarrow> parse_fields rest (AList.update key v row) (json_columns @ [key])
         | Inl _ \<Rightarrow> parse_fields rest (AList.update key (PStr (unescape_quotes value)) row) json_columns)
      else ebind (fast_parse_value value) (\<lambda>v. parse_fields rest (AList.update key v row) json_columns))"

definition parse_log_to_dict :: "string \<Rightarrow> py_error + row \<times> string list" where
  "parse_log_to_dict log_message =
     (if \<not> contains ''latency_metrics'' log_message then Inr ([], [])
      else case str_index ''latency_metrics@'' log_message of
             None \<Rightarrow> Inr ([], [])
           | Some i \<Rightarrow> parse_fields (field_pairs (split_at (CHR ''@'') (drop (i + 16) log_message))) [] [])"

subsection \<open>A file of requests\<close>

definition train_value :: "string \<Rightarrow> pyval" where
  "train_value value =
     (if value = ''null'' then PDict []
      else case py_int value of
             Some i \<Rightarrow> PInt i
           | None \<Rightarrow> (case py_float value of Some x \<Rightarrow> PFloat x | None \<Rightarrow> PStr value))"

definition add_column :: "string \<Rightarrow> string list \<Rightarrow> string list" where
  "add_column c cols = (if c \<in> set cols then cols else cols @ [c])"

fun train_fields :: "(string \<times> string) list \<Rightarrow> row \<Rightarrow> string list \<Rightarrow> row \<times> string list" where
  "train_fields [] row json_columns = (row, json_columns)"
| "train_fields ((key, value) # rest) row json_columns =
     (if braced value then
        train_fields rest
          (AList.update key (case loads (unescape_quotes value) of Inr v \<Rightarrow> v | Inl _ \<Rightarrow> PStr value) row)
          (add_column key json_columns)
      else train_fields rest (AList.update key (train_value value) row)
             (if value = ''null'' then add_column key json_columns else json_columns))"

text \<open>\<open>line.split(sep)[1]\<close>: the text between the first two separators.\<close>

definition second_part :: "string \<Rightarrow> string \<Rightarrow> py_error + string" where
  "second_part sep s =
     (case str_index sep s of
        None \<Rightarrow> Inl IndexError
      | Some i \<Rightarrow> (let r = drop (i + length sep) s
                   in Inr (case str_index sep r of Some j \<Rightarrow> take j r | None \<Rightarrow> r)))"

definition line_parts :: "string \<Rightarrow> py_error + string list" where
  "line_parts line =
     (if \<not> contains ''latency_metrics'' line then Inl AssertionError
      else if contains ''**@'' line
      then ebind (second_part ''**@latency_metrics@'' line) (\<lambda>body. Inr (split_at (CHR ''@'') body))
      else Inr (split_at (CHR ''@'') line))"

fun parse_lines_from :: "string list \<Rightarrow> string list option \<Rightarrow> string list \<Rightarrow> py_error + row list \<times> string list option \<times> string list" where
  "parse_lines_from [] columns json_columns = Inr ([], columns, json_columns)"
| "parse_lines_from (line # lines) columns json_columns =
     (if line = [] then parse_lines_from lines columns json_columns
      else ebind (line_parts line) (\<lambda>parts.
             let fields = field_pairs parts;
                 columns1 = (case columns of Some cs \<Rightarrow> cs | None \<Rightarrow> map fst fields);
                 (row, json1) = train_fields fields [] json_columns
             in ebind (parse_lines_from lines (Some columns1) json1) (\<lambda>(rows, cs, js). Inr (row # rows, cs, js))))"

text \<open>\<open>pd.DataFrame(data, columns=names)\<close> keeps the named columns; an absent value is NaN.\<close>

definition frame_row :: "string list \<Rightarrow> row \<Rightarrow> row" where
  "frame_row columns row = map (\<lambda>c. (c, case map_of row c of Some v \<Rightarrow> v | None \<Rightarrow> PFloat NaN)) columns"

definition parse_log_file :: "(string \<times> string) list \<Rightarrow> string \<Rightarrow> py_error + row list \<times> string list" where
  "parse_log_file pod_ip_mapping content =
     (let text = (if pod_ip_mapping = [] then content else sub_keys (longest_first pod_ip_mapping) content) in
      ebind (parse_lines_from (split_at (CHR ''\<newline>'') text) None []) (\<lambda>(rows, columns, json_columns).
        if rows = [] then Inl AssertionError
        else Inr (map (frame_row (case columns of Some cs \<Rightarrow> cs | None \<Rightarrow> [])) rows, json_columns)))"

subsection \<open>The pods of a row\<close>

definition pod_columns :: "string list" where
  "pod_columns = [''allPodsKvCacheHitRatios'', ''numInflightRequestsAllPods'', ''vllmGPUKVCacheUsage'',
     ''vllmCPUKVCacheUsage'', ''vllmNumRequestsRunning'', ''vllmNumRequestsWaiting'']"

text \<open>\<open>v.keys()\<close>.\<close>

fun dict_keys :: "pyval \<Rightarrow> py_error + string list" where
  "dict_keys (PDict kvs) = Inr (map fst kvs)"
| "dict_keys _ = Inl AttributeError"

definition column_value :: "row \<Rightarrow> string \<Rightarrow> pyval \<Rightarrow> pyval" where
  "column_value row col d = (case map_of row col of Some v \<Rightarrow> v | None \<Rightarrow> d)"

definition single_row_pod_ids :: "row \<Rightarrow> py_error + string list" where
  "single_row_pod_ids row =
     ebind (traverse (\<lambda>col. dict_keys (column_value row col (PDict []))) pod_columns) (\<lambda>kss.
       let ids = sort (remdups (concat kss)) in if ids = [] then Inl AssertionError else Inr ids)"

text \<open>In a frame of parsed lines other entries are skipped; a text is parsed as JSON first.\<close>

definition batch_entry_keys :: "pyval \<Rightarrow> py_error + string list" where
  "batch_entry_keys v =
     (case v of
        PDict kvs \<Rightarrow> Inr (map fst kvs)
      | PStr s \<Rightarrow> (case loads s of Inr w \<Rightarrow> dict_keys w | Inl _ \<Rightarrow> Inr [])
      | _ \<Rightarrow> Inr [])"

definition batch_pod_ids :: "row list \<Rightarrow> py_error + string list" where
  "batch_pod_ids rows =
     ebind (traverse batch_entry_keys
              (concat (map (\<lambda>col. concat (map (\<lambda>r. case map_of r col of Some v \<Rightarrow> [v] | None \<Rightarrow> []) rows)) pod_columns)))
       (\<lambda>kss. Inr (sort (remdups (concat kss))))"

definition pod_suffixes :: "string list" where
  "pod_suffixes = [''-gpu_kv_cache'', ''-cpu_kv_cache'', ''-running_requests'', ''-waiting_requests'']"

definition csv_column_pod_ids :: "string list \<Rightarrow> string list" where
  "csv_column_pod_ids cols =
     sort (remdups (concat (map (\<lambda>col. case find (\<lambda>suf. ends_with suf col) pod_suffixes of
        Some suf \<Rightarrow> [take (length col - length suf) col] | None \<Rightarrow> []) cols)))"

subsection \<open>Ordinary values\<close>

definition nat_text :: "string \<Rightarrow> bool" where
  "nat_text v \<longleftrightarrow> v \<noteq> [] \<and> list_all is_digit v"

definition decimal_text :: "string \<Rightarrow> bool" where
  "decimal_text v \<longleftrightarrow>
     (let w = (case v of c # t \<Rightarrow> if c = CHR ''-'' then t else v | [] \<Rightarrow> []) in
      nat_text (takeWhile is_digit w) \<and>
      (case dropWhile is_digit w of c # f \<Rightarrow> c = CHR ''.'' \<and> nat_text f | [] \<Rightarrow> False))"

definition word_text :: "string \<Rightarrow> bool" where
  "word_text v \<longleftrightarrow>
     v = [] \<or> (\<not> is_digit (hd v) \<and> hd v \<notin> set ''+-.'' \<and> \<not> py_space (hd v) \<and> code (hd v) \<notin> {178, 179, 185} \<and>
       map lower_char (strip v) \<notin> {''inf'', ''infinity'', ''nan''} \<and> v \<noteq> ''null'')"

definition ordinary :: "string \<Rightarrow> bool" where
  "ordinary v \<longleftrightarrow> nat_text v \<or> decimal_text v \<or> word_text v"

lemma nat_text_py_isdigit: "nat_text v \<Longrightarrow> py_isdigit v"
  by (auto simp: nat_text_def py_isdigit_def list_all_iff)

lemma digit_head: "is_digit c \<Longrightarrow> c \<noteq> CHR ''-'' \<and> c \<noteq> CHR ''+'' \<and> c \<noteq> CHR ''.'' \<and> c \<noteq> CHR ''_''"
  by (auto simp: is_digit_def code_def)

lemma py_int_digits: "nat_text v \<Longrightarrow> py_int v = Some (int (nat_of v))"
proof -
  assume "nat_text v"
  then obtain c t where v: "v = c # t" "is_digit c" "list_all is_digit v"
    by (cases v) (auto simp: nat_text_def)
  then show ?thesis
    using digit_head [OF v(2)] strip_digits [OF v(3)] digits_value_digits [OF v(3), of 0]
    by (simp add: py_int_def unsigned_value_def nat_of_def)
qed

lemma strip_keeps_head:
  assumes "\<not> py_space c"
  shows "\<exists>t. strip (c # s) = c # t"
proof -
  have "dropWhile py_space (rev s @ [c]) \<noteq> []"
    using assms by simp
  moreover have "last (dropWhile py_space (rev s @ [c])) = c"
    using assms by (induction "rev s") (auto simp: dropWhile_append3 dropWhile_append2)
  ultimately show ?thesis
    using assms by (cases "rev (dropWhile py_space (rev s @ [c]))") (auto simp: strip_def hd_rev [symmetric])
qed

lemma digits_value_dot: "list_all is_digit i \<Longrightarrow> digits_value acc (i @ CHR ''.'' # f) = None"
  by (induction i arbitrary: acc) (auto simp: is_digit_def code_def)

lemma strip_no_space: "list_all (\<lambda>c. \<not> py_space c) v \<Longrightarrow> strip v = v"
proof -
  assume v: "list_all (\<lambda>c. \<not> py_space c) v"
  have d: "dropWhile py_space u = u" if "list_all (\<lambda>c. \<not> py_space c) u" for u
    using that by (cases u) auto
  show ?thesis
    using d [OF v] d [of "rev v"] v by (simp add: strip_def)
qed

lemma decimal_shape:
  assumes "decimal_text v"
  obtains g i f where "v = g @ i @ CHR ''.'' # f" "g = [] \<or> g = ''-''" "nat_text i" "nat_text f"
proof -
  define w where "w = (case v of c # t \<Rightarrow> if c = CHR ''-'' then t else v | [] \<Rightarrow> [])"
  obtain f where f: "dropWhile is_digit w = CHR ''.'' # f" "nat_text f" "nat_text (takeWhile is_digit w)"
    using assms by (auto simp: decimal_text_def w_def [symmetric] Let_def split: list.splits)
  have w: "w = takeWhile is_digit w @ CHR ''.'' # f"
    using f(1) by (metis takeWhile_dropWhile_id)
  have "v = [] @ w \<or> v = ''-'' @ w"
    by (auto simp: w_def split: list.splits)
  then show thesis
    using that w f(2,3) by metis
qed

lemma ordinary_decimal:
  assumes "decimal_text v"
  shows "fast_parse_value v = Inr (train_value v)"
proof -
  obtain g i f where v: "v = g @ i @ CHR ''.'' # f" "g = [] \<or> g = ''-''" and i: "nat_text i" and f: "nat_text f"
    by (rule decimal_shape [OF assms])
  have di: "list_all is_digit i" "i \<noteq> []" and df: "list_all is_digit f" "f \<noteq> []"
    using i f by (auto simp: nat_text_def)
  obtain c i' where i': "i = c # i'" "is_digit c"
    using di by (cases i) auto
  have nosp: "list_all (\<lambda>c. \<not> py_space c) v"
    using v di(1) df(1) digit_no_space by (auto simp: list_all_iff py_space_def code_def)
  have int: "py_int v = None"
    using v(1,2) strip_no_space [OF nosp] digits_value_dot [OF di(1), of 0 f] i' digit_head [OF i'(2)]
    by (auto simp: py_int_def unsigned_value_def)
  have dots: "count_list i (CHR ''.'') = 0" "count_list f (CHR ''.'') = 0"
    using di(1) df(1) digit_head by (auto simp: count_list_0_iff list_all_iff)
  have nodot: "filter (\<lambda>c. c \<noteq> CHR ''.'' \<and> c \<noteq> CHR ''-'') i = i" "filter (\<lambda>c. c \<noteq> CHR ''.'' \<and> c \<noteq> CHR ''-'') f = f"
    using di(1) df(1) digit_head by (auto simp: filter_id_conv list_all_iff)
  have "count_list v (CHR ''.'') = 1"
    using v dots by (auto simp: count_list_append)
  moreover have "filter (\<lambda>c. c \<noteq> CHR ''.'' \<and> c \<noteq> CHR ''-'') v = i @ f"
    using v nodot by auto
  moreover have "py_isdigit (i @ f)"
    using di df by (intro nat_text_py_isdigit) (simp add: nat_text_def)
  moreover have "\<not> py_isdigit v"
    using v(1) by (simp add: py_isdigit_def is_digit_def code_def)
  moreover have "v \<noteq> ''null'' \<and> v \<noteq> []"
    using \<open>count_list v (CHR ''.'') = 1\<close> by auto
  ultimately show ?thesis
    using int by (auto simp: fast_parse_value_def train_value_def split: option.splits)
qed

lemma ordinary_word:
  assumes "word_text v"
  shows "fast_parse_value v = Inr (train_value v)"
proof (cases v)
  case Nil
  then show ?thesis
    by (simp add: fast_parse_value_def train_value_def py_int_def py_float_def strip_def)
next
  case (Cons c t)
  then have c: "\<not> is_digit c" "c \<notin> set ''+-.''" "\<not> py_space c" "code c \<notin> {178, 179, 185}"
    "map lower_char (strip v) \<notin> {''inf'', ''infinity'', ''nan''}" "v \<noteq> ''null''"
    using assms by (auto simp: word_text_def)
  obtain u where u: "strip v = c # u"
    using strip_keeps_head [OF c(3), of t] Cons by blast
  have "py_int v = None"
    using u c(1,2) by (simp add: py_int_def unsigned_value_def)
  moreover have "unsigned_float (c # u) = None"
    using c(1,2,5) u by (simp add: unsigned_float_def Let_def)
  then have "py_float v = None"
    using u c(2) by (simp add: py_float_def)
  moreover have "\<not> py_isdigit v"
    using Cons c(1,4) by (simp add: py_isdigit_def)
  moreover have "\<not> py_isdigit (filter (\<lambda>c. c \<noteq> CHR ''.'' \<and> c \<noteq> CHR ''-'') v)"
    using Cons c(1,2,4) by (simp add: py_isdigit_def)
  ultimately show ?thesis
    using Cons c(6) by (simp add: fast_parse_value_def train_value_def)
qed

lemma ordinary_nat:
  assumes "nat_text v"
  shows "fast_parse_value v = Inr (train_value v)"
proof -
  have "v \<noteq> ''null''" "v \<noteq> []"
    using assms by (auto simp: nat_text_def is_digit_def code_def)
  then show ?thesis
    using nat_text_py_isdigit [OF assms] py_int_digits [OF assms] by (simp add: fast_parse_value_def train_value_def)
qed

lemma ordinary_agrees: "ordinary v \<Longrightarrow> fast_parse_value v = Inr (train_value v)"
  unfolding ordinary_def using ordinary_nat ordinary_decimal ordinary_word by blast

subsection \<open>Both parsers read the same row\<close>

definition value_ok :: "string \<Rightarrow> bool" where
  "value_ok v \<longleftrightarrow> (if braced v then (case loads (unescape_quotes v) of Inr _ \<Rightarrow> True | Inl _ \<Rightarrow> False) else ordinary v)"

lemma fields_agree:
  "\<forall>kv \<in> set fs. value_ok (snd kv) \<Longrightarrow>
   \<exists>js'. parse_fields fs row js = Inr (fst (train_fields fs row js2), js')"
proof (induction fs arbitrary: row js js2)
  case (Cons kv fs)
  obtain k v where kv: "kv = (k, v)"
    by fastforce
  then have v: "value_ok v" and rest: "\<forall>kv \<in> set fs. value_ok (snd kv)"
    using Cons.prems by auto
  show ?case
  proof (cases "braced v")
    case True
    then obtain w where "loads (unescape_quotes v) = Inr w"
      using v by (auto simp: value_ok_def split: sum.splits)
    then show ?thesis
      using kv True Cons.IH [OF rest] by simp
  next
    case False
    then have "fast_parse_value v = Inr (train_value v)"
      using v ordinary_agrees by (simp add: value_ok_def)
    then show ?thesis
      using kv False Cons.IH [OF rest] by simp
  qed
qed simp

definition field_list :: "(string \<times> string) list \<Rightarrow> string list" where
  "field_list fs = concat (map (\<lambda>(k, v). [k, v]) fs)"

lemma field_pairs_list: "field_pairs (field_list fs) = fs"
  by (induction fs) (auto simp: field_list_def)

lemma split_at_join: "xs \<noteq> [] \<Longrightarrow> \<forall>x \<in> set xs. c \<notin> set x \<Longrightarrow> split_at c (join [c] xs) = xs"
  by (induction "[c]" xs rule: join.induct) (auto simp: split_at_no split_at_sep)

lemma set_join: "set (join sep xs) \<subseteq> set sep \<union> (\<Union>x \<in> set xs. set x)"
  by (induction sep xs rule: join.induct) auto

lemma train_keys: "fst ` set (fst (train_fields fs row js)) = fst ` set row \<union> fst ` set fs"
  by (induction fs row js rule: train_fields.induct) (auto simp: dom_update)

lemma train_order:
  "distinct (map fst fs) \<Longrightarrow> fst ` set row \<inter> fst ` set fs = {} \<Longrightarrow>
   map fst (fst (train_fields fs row js)) = map fst row @ map fst fs"
  by (induction fs row js rule: train_fields.induct) (auto simp: update_new)

lemma frame_row_id: "distinct (map fst row) \<Longrightarrow> frame_row (map fst row) row = row"
  by (auto simp: frame_row_def comp_def intro!: map_idI split: option.splits)

text \<open>The line of a request as both parsers cut it.\<close>

lemma gateway_line:
  assumes "\<not> contains ''**@latency_metrics@'' body" "CHR ''\<newline>'' \<notin> set body"
  defines "line \<equiv> ''**@latency_metrics@'' @ body"
  shows "contains ''latency_metrics'' line" "str_index ''latency_metrics@'' line = Some 3" "drop 19 line = body"
    "line_parts line = Inr (split_at (CHR ''@'') body)" "split_at (CHR ''\<newline>'') line = [line]" "line \<noteq> []"
proof -
  show has: "contains ''latency_metrics'' line"
    using str_index_prefix [of "''latency_metrics''" "''**@''" "CHR ''@'' # body"] by (simp add: contains_def line_def)
  have stars: "contains ''**@'' line"
    using str_index_prefix [of "''**@''" "[]" "''latency_metrics@'' @ body"] by (simp add: contains_def line_def)
  show "str_index ''latency_metrics@'' line = Some 3" "drop 19 line = body" "line \<noteq> []"
    by (simp_all add: line_def)
  have "second_part ''**@latency_metrics@'' line = Inr body"
    using assms(1) str_index_front [of "''**@latency_metrics@''" body]
    by (simp add: second_part_def contains_def line_def Let_def del: append_Cons)
  then show "line_parts line = Inr (split_at (CHR ''@'') body)"
    using has stars by (simp add: line_parts_def)
  have "CHR ''\<newline>'' \<notin> set line"
    using assms(2) by (simp add: line_def)
  then show "split_at (CHR ''\<newline>'') line = [line]"
    by (rule split_at_no)
qed

text \<open>
  C26. Serving and training read the same row: on a line of the gateway whose values are JSON objects,
  digits, signed decimals or words, the parser of one request returns, without raising, exactly the row
  that the parser of training files returns for the line.
\<close>

theorem training_and_serving_parse_alike:
  assumes "fs \<noteq> []" "distinct (map fst fs)"
    and "\<forall>x \<in> set (field_list fs). CHR ''@'' \<notin> set x \<and> CHR ''\<newline>'' \<notin> set x"
    and "\<forall>kv \<in> set fs. value_ok (snd kv)"
    and "\<not> contains ''**@latency_metrics@'' (join ''@'' (field_list fs))"
  shows "let line = ''**@latency_metrics@'' @ join ''@'' (field_list fs) in
    \<exists>row js js'. parse_log_to_dict line = Inr (row, js) \<and> parse_log_file [] line = Inr ([row], js') \<and>
      map fst row = map fst fs"
proof -
  let ?body = "join ''@'' (field_list fs)"
  define line where "line = ''**@latency_metrics@'' @ ?body"
  have ne: "field_list fs \<noteq> []"
    using assms(1) by (cases fs) (auto simp: field_list_def)
  have parts: "field_pairs (split_at (CHR ''@'') ?body) = fs"
    using split_at_join [OF ne] assms(3) by (simp add: field_pairs_list)
  have nl: "CHR ''\<newline>'' \<notin> set ?body"
  proof
    assume "CHR ''\<newline>'' \<in> set ?body"
    then have "CHR ''\<newline>'' \<in> set ''@'' \<union> (\<Union>x \<in> set (field_list fs). set x)"
      using set_join by blast
    then show False
      using assms(3) by simp
  qed
  note line = gateway_line [OF assms(5) nl, folded line_def]
  obtain row js where row: "train_fields fs [] [] = (row, js)"
    by fastforce
  have keys: "map fst row = map fst fs"
    using train_order [OF assms(2), of "[]" "[]"] row by simp
  obtain js' where fast: "parse_fields fs [] [] = Inr (row, js')"
    using fields_agree [OF assms(4), of "[]" "[]" "[]"] row by auto
  have "parse_log_to_dict line = Inr (row, js')"
    using line(1-3) parts fast by (simp add: parse_log_to_dict_def)
  moreover have "parse_lines_from [line] None [] = Inr ([row], Some (map fst fs), js)"
    using line(4,6) parts row by (simp add: Let_def)
  then have "parse_log_file [] line = Inr ([row], js)"
    using line(5) frame_row_id [of row] keys assms(2) by (simp add: parse_log_file_def)
  ultimately show ?thesis
    using keys unfolding line_def [symmetric] Let_def by blast
qed

definition sample_fields :: "(string \<times> string) list" where
  "sample_fields = [(''requestID'', ''a1''), (''numInputTokens'', ''12''), (''ttft'', ''-1.5''), (''GPU'', ''{}'')]"

theorem training_and_serving_parse_alike_witness:
  "let line = ''**@latency_metrics@'' @ join ''@'' (field_list sample_fields) in
    \<exists>row js js'. parse_log_to_dict line = Inr (row, js) \<and> parse_log_file [] line = Inr ([row], js') \<and>
      map fst row = map fst sample_fields"
proof (rule training_and_serving_parse_alike [of sample_fields])
  show "\<forall>kv \<in> set sample_fields. value_ok (snd kv)"
    by code_simp
  show "\<forall>x \<in> set (field_list sample_fields). CHR ''@'' \<notin> set x \<and> CHR ''\<newline>'' \<notin> set x"
    by code_simp
  show "\<not> contains ''**@latency_metrics@'' (join ''@'' (field_list sample_fields))"
    by code_simp
qed code_simp+

end
