(* ===== verification/Preprocess.thy ===== *)
theory Preprocess
  imports Log_Parser
begin

text \<open>
  Preprocessing of one request (\<open>agent_codes/preprocess.py\<close>): \<open>main\<close> on a log message, the fast path
  \<open>preprocess_inference_fast\<close> over plain dicts, and the general \<open>preprocess_data_unified\<close> as it runs on a
  frame of one row outside of training. Timing entries are left out; what Pandas and \<open>ast\<close> do to a single
  value (\<open>to_numeric\<close>, \<open>literal_eval\<close>) are arguments.
\<close>

subsection \<open>Columns and settings\<close>

definition json_columns :: "string list" where
  "json_columns =
     [''allPodsKvCacheHitRatios'', ''allPodsKvCacheLastAccess'', ''numInflightRequestsAllPods'',
      ''numInflightPrefillRequestsAllPods'', ''numInflightDecodeRequestsAllPods'', ''vllmGPUKVCacheUsage'',
      ''vllmCPUKVCacheUsage'', ''vllmNumRequestsRunning'', ''vllmNumRequestsWaiting'',
      ''numPrefillTokensForAllPods'', ''numDecodeTokensForAllPods'', ''GPU'']"

definition numeric_columns :: "string list" where
  "numeric_columns =
     [''ttft'', ''avg_tpot'', ''total_decode_time'', ''e2e'', ''numInputTokens'', ''numOutputTokens'',
      ''numTotalTokens'', ''request_start_time'', ''request_end_time'', ''prev_reward'']"

definition expected_columns :: "string list" where
  "expected_columns =
     [''requestID'', ''selectedpod'', ''ttft'', ''avg_tpot'', ''total_decode_time'', ''e2e'', ''numInputTokens'',
      ''numOutputTokens'', ''numTotalTokens'', ''request_start_time'', ''request_end_time'',
      ''allPodsKvCacheHitRatios'', ''numInflightRequestsAllPods'', ''vllmGPUKVCacheUsage'', ''vllmCPUKVCacheUsage'',
      ''vllmNumRequestsRunning'', ''vllmNumRequestsWaiting'', ''numPrefillTokensForAllPods'',
      ''numDecodeTokensForAllPods'', ''GPU'', ''subAlgorithm'']"

definition feature_configs :: "(string \<times> string) list" where
  "feature_configs =
     [(''kv_hit_ratio'', ''allPodsKvCacheHitRatios''), (''inflight_requests'', ''numInflightRequestsAllPods''),
      (''inflight_prefill_requests'', ''numInflightPrefillRequestsAllPods''),
      (''inflight_decode_requests'', ''numInflightDecodeRequestsAllPods''), (''gpu_kv_cache'', ''vllmGPUKVCacheUsage''),
      (''cpu_kv_cache'', ''vllmCPUKVCacheUsage''), (''running_requests'', ''vllmNumRequestsRunning''),
      (''waiting_requests'', ''vllmNumRequestsWaiting''), (''prefill_tokens'', ''numPrefillTokensForAllPods''),
      (''decode_tokens'', ''numDecodeTokensForAllPods'')]"

record settings =
  excluded_pod_features :: "string list option"
  kv_freshness_half_life :: "flt option"

definition excluded_set :: "settings option \<Rightarrow> string list" where
  "excluded_set h =
     (case h of
        None \<Rightarrow> []
      | Some st \<Rightarrow> (case excluded_pod_features st of
                     None \<Rightarrow> []
                   | Some fs \<Rightarrow> if ''none'' \<in> set fs \<or> ''None'' \<in> set fs then [] else fs))"

definition half_life :: "settings option \<Rightarrow> flt" where
  "half_life h =
     (case h of
        None \<Rightarrow> Fin 15
      | Some st \<Rightarrow> (case kv_freshness_half_life st of None \<Rightarrow> Fin 15 | Some x \<Rightarrow> x))"

subsection \<open>Shared steps\<close>

definition safe_parse_json :: "string \<Rightarrow> py_error + pyval" where
  "safe_parse_json s =
     (if s = [] then Inl AssertionError
      else case loads s of
             Inr v \<Rightarrow> Inr v
           | Inl _ \<Rightarrow> loads (map (\<lambda>c. if code c = 39 then char_of (34 :: nat) else c) s))"

fun is_number :: "pyval \<Rightarrow> bool" where
  "is_number (PBool _) = True"
| "is_number (PInt _) = True"
| "is_number (PFloat _) = True"
| "is_number _ = False"

definition base_features :: "row \<Rightarrow> row" where
  "base_features row =
     [(''request_id'', column_value row ''requestID'' PNone), (''selected_pod'', column_value row ''selectedpod'' PNone),
      (''input_tokens'', column_value row ''numInputTokens'' (PInt 0)),
      (''output_tokens'', column_value row ''numOutputTokens'' (PInt 0)),
      (''total_tokens'', column_value row ''numTotalTokens'' (PInt 0)), (''ttft'', column_value row ''ttft'' (PInt 0)),
      (''avg_tpot'', column_value row ''avg_tpot'' (PInt 0)), (''e2e_latency'', column_value row ''e2e'' (PInt 0)),
      (''request_start_time'', column_value row ''request_start_time'' (PInt 0)),
      (''request_end_time'', column_value row ''request_end_time'' (PInt 0)),
      (''subAlgorithm'', column_value row ''subAlgorithm'' PNone)]"

definition pod_key :: "string \<Rightarrow> string \<Rightarrow> string" where
  "pod_key name pod = pod @ CHR ''-'' # name"

fun fexp :: "flt \<Rightarrow> flt" where
  "fexp (Fin x) = Fin (exp x)"
| "fexp PInf = PInf"
| "fexp MInf = Fin 0"
| "fexp NaN = NaN"

definition default_row :: "row \<Rightarrow> row" where
  "default_row row =
     (let r1 = (if ''subAlgorithm'' \<in> fst ` set row then row else AList.update ''subAlgorithm'' PNone row)
      in if ''GPU'' \<in> fst ` set r1 then r1 else AList.update ''GPU'' (PDict []) r1)"

subsection \<open>The fast path\<close>

fun fill_json :: "string list \<Rightarrow> row \<Rightarrow> py_error + row" where
  "fill_json [] row = Inr row"
| "fill_json (col # cols) row =
     (case column_value row col PNone of
        PStr s \<Rightarrow> ebind (safe_parse_json s) (\<lambda>v. fill_json cols (AList.update col v row))
      | PNone \<Rightarrow> fill_json cols (AList.update col (PDict []) row)
      | _ \<Rightarrow> fill_json cols row)"

fun to_numbers :: "string list \<Rightarrow> row \<Rightarrow> row" where
  "to_numbers [] row = row"
| "to_numbers (col # cols) row =
     (case map_of row col of
        None \<Rightarrow> to_numbers cols row
      | Some v \<Rightarrow>
          if is_number v then to_numbers cols row
          else to_numbers cols (AList.update col (PFloat (case as_float v of Inr x \<Rightarrow> x | Inl _ \<Rightarrow> NaN)) row))"

definition pod_map :: "row \<Rightarrow> string \<Rightarrow> row" where
  "pod_map row col = (case column_value row col (PDict []) of PDict d \<Rightarrow> d | _ \<Rightarrow> [])"

definition feature_value :: "row \<Rightarrow> string \<Rightarrow> pyval" where
  "feature_value d pod = PFloat (case as_float (column_value d pod (PInt 0)) of Inr x \<Rightarrow> x | Inl _ \<Rightarrow> Fin 0)"

definition fast_block :: "string list \<Rightarrow> string list \<Rightarrow> row \<Rightarrow> string \<times> string \<Rightarrow> row" where
  "fast_block excluded pods row cfg =
     (if fst cfg \<in> set excluded then []
      else map (\<lambda>pod. (pod_key (fst cfg) pod, feature_value (pod_map row (snd cfg)) pod)) pods)"

definition fresh_weight :: "flt \<Rightarrow> flt \<Rightarrow> flt \<Rightarrow> flt" where
  "fresh_weight hl current_us la =
     (let age = py_min (if la > Fin 0 then py_max (Fin 0) ((current_us - la) / Fin 1000000) else Fin 999) (Fin 999)
      in fexp (Fin (- 0.693147) * age / py_max hl (Fin 0.1)))"

fun float_of :: "pyval \<Rightarrow> flt" where
  "float_of (PFloat x) = x"
| "float_of _ = Fin 0"

definition fast_fresh :: "settings option \<Rightarrow> string list \<Rightarrow> row \<Rightarrow> row \<Rightarrow> py_error + row" where
  "fast_fresh h pods row result =
     (if ''kv_hit_ratio_fresh'' \<in> set (excluded_set h) \<or> ''kv_hit_ratio'' \<in> set (excluded_set h) then Inr []
      else ebind (as_float (column_value result ''request_start_time'' (PInt 0))) (\<lambda>current_us.
           traverse (\<lambda>pod.
             ebind (as_float (column_value (pod_map row ''allPodsKvCacheLastAccess'') pod (PInt 0))) (\<lambda>la.
               Inr (pod_key ''kv_hit_ratio_fresh'' pod,
                    PFloat (float_of (column_value result (pod_key ''kv_hit_ratio'' pod) (PFloat (Fin 0))) *
                            fresh_weight (half_life h) current_us la)))) pods))"

definition gpu_block :: "string list \<Rightarrow> string list \<Rightarrow> row \<Rightarrow> row" where
  "gpu_block excluded pods gpu_map =
     (if ''GPU'' \<in> set excluded then []
      else map (\<lambda>pod. (pod_key ''GPU'' pod, column_value gpu_map pod (PStr ''GPU-L3c''))) pods)"

text \<open>Floats that are not a number become 0.\<close>

definition fill_nan :: "row \<Rightarrow> row" where
  "fill_nan row = map (\<lambda>(k, v). (k, if v = PFloat NaN then PInt 0 else v)) row"

definition preprocess_inference_fast :: "settings option \<Rightarrow> string list \<Rightarrow> row \<Rightarrow> py_error + row" where
  "preprocess_inference_fast h pods row =
     ebind (fill_json json_columns row) (\<lambda>row1.
       let row2 = to_numbers numeric_columns (default_row row1);
           features = concat (map (fast_block (excluded_set h) pods row2) feature_configs);
           result = dict_from (base_features row2 @ features)
       in ebind (fast_fresh h pods row2 result) (\<lambda>fresh.
            Inr (fill_nan (dict_from (base_features row2 @ features @ fresh @
              gpu_block (excluded_set h) pods (pod_map row2 ''GPU''))))))"

definition preprocess_log_message :: "settings option \<Rightarrow> string \<Rightarrow> py_error + row \<times> string list" where
  "preprocess_log_message h log_message =
     (if log_message = [] then Inl AssertionError
      else ebind (parse_log_to_dict log_message) (\<lambda>(row, _).
           if row = [] then Inl AssertionError
           else ebind (single_row_pod_ids row) (\<lambda>pods.
                ebind (preprocess_inference_fast h pods row) (\<lambda>r. Inr (r, pods)))))"

subsection \<open>The general path on one row\<close>

fun parse_json_cells :: "string list \<Rightarrow> row \<Rightarrow> py_error + row" where
  "parse_json_cells [] row = Inr row"
| "parse_json_cells (col # cols) row =
     (case map_of row col of
        Some (PStr s) \<Rightarrow> ebind (safe_parse_json s) (\<lambda>v. parse_json_cells cols (AList.update col v row))
      | _ \<Rightarrow> parse_json_cells cols row)"

definition numeric_cells :: "(pyval \<Rightarrow> pyval) \<Rightarrow> row \<Rightarrow> row" where
  "numeric_cells to_numeric row = map (\<lambda>(c, v). (c, if c \<in> set numeric_columns then to_numeric v else v)) row"

definition entry_map :: "(string \<Rightarrow> pyval option) \<Rightarrow> pyval \<Rightarrow> pyval" where
  "entry_map literal_eval v =
     (case v of
        PDict d \<Rightarrow> PDict d
      | PStr s \<Rightarrow>
          (let t = strip s in
           if t = [] \<or> map lower_char t = ''null'' \<or> map lower_char t = ''none'' then PDict []
           else case loads t of
                  Inr w \<Rightarrow> w
                | Inl _ \<Rightarrow> (case literal_eval t of Some w \<Rightarrow> w | None \<Rightarrow> PDict []))
      | _ \<Rightarrow> PDict [])"

text \<open>\<open>np.array([v], dtype=float32)[0]\<close>; text is kept as an object.\<close>

fun numpy_cell :: "pyval \<Rightarrow> py_error + pyval" where
  "numpy_cell (PStr s) = Inr (PStr s)"
| "numpy_cell PNone = Inr (PFloat NaN)"
| "numpy_cell (PList _) = Inl TypeError"
| "numpy_cell (PDict _) = Inl TypeError"
| "numpy_cell v = ebind (as_float v) (\<lambda>x. Inr (PFloat x))"

definition extract_pod_features_fast :: "(string \<Rightarrow> pyval option) \<Rightarrow> pyval \<Rightarrow> string list \<Rightarrow> pyval \<Rightarrow> py_error + row" where
  "extract_pod_features_fast literal_eval entry pods dflt =
     traverse (\<lambda>pod. ebind (py_get (entry_map literal_eval entry) pod dflt) (\<lambda>v. ebind (numpy_cell v) (\<lambda>w. Inr (pod, w)))) pods"

definition unified_block :: "(string \<Rightarrow> pyval option) \<Rightarrow> string list \<Rightarrow> string list \<Rightarrow> row \<Rightarrow> string \<times> string \<Rightarrow> pyval \<Rightarrow> py_error + row" where
  "unified_block literal_eval excluded pods row cfg dflt =
     (if fst cfg \<in> set excluded then Inr []
      else ebind (extract_pod_features_fast literal_eval (column_value row (snd cfg) (PDict [])) pods dflt)
             (\<lambda>fs. Inr (map (\<lambda>(pod, v). (pod_key (fst cfg) pod, v)) fs)))"

fun fmaximum :: "flt \<Rightarrow> flt \<Rightarrow> flt" where
  "fmaximum a b = (if a = NaN \<or> b = NaN then NaN else if a < b then b else a)"

definition numpy_weight :: "flt \<Rightarrow> flt \<Rightarrow> flt \<Rightarrow> flt" where
  "numpy_weight hl current_us la =
     (let age = (if la > Fin 0 then fmaximum (Fin 0) ((current_us - la) / Fin 1000000) else Fin 999)
      in fexp (Fin (- 0.693147) * fclip (Fin 0) (Fin 999) age / py_max hl (Fin 0.1)))"

definition unified_fresh :: "(string \<Rightarrow> pyval option) \<Rightarrow> settings option \<Rightarrow> string list \<Rightarrow> row \<Rightarrow> row \<Rightarrow> py_error + row" where
  "unified_fresh literal_eval h pods row base =
     (if ''kv_hit_ratio_fresh'' \<in> set (excluded_set h) \<or> ''kv_hit_ratio'' \<in> set (excluded_set h) then Inr []
      else ebind (extract_pod_features_fast literal_eval (column_value row ''allPodsKvCacheLastAccess'' (PDict [])) pods (PInt 0)) (\<lambda>las.
           ebind (as_float (column_value base ''request_start_time'' (PInt 0))) (\<lambda>current_us.
           traverse (\<lambda>(pod, la).
             ebind (as_float la) (\<lambda>x.
             case column_value base (pod_key ''kv_hit_ratio'' pod) (PFloat (Fin 0)) of
               PFloat raw \<Rightarrow> Inr (pod_key ''kv_hit_ratio_fresh'' pod, PFloat (raw * numpy_weight (half_life h) current_us x))
             | _ \<Rightarrow> Inl TypeError)) las)))"

text \<open>\<open>pd.isna\<close> also holds of \<open>None\<close>.\<close>

definition fill_missing :: "row \<Rightarrow> row" where
  "fill_missing row = map (\<lambda>(k, v). (k, if v = PFloat NaN \<or> v = PNone then PInt 0 else v)) row"

definition preprocess_data_unified :: "(pyval \<Rightarrow> pyval) \<Rightarrow> (string \<Rightarrow> pyval option) \<Rightarrow> settings option \<Rightarrow> string list \<Rightarrow> row \<Rightarrow> py_error + row" where
  "preprocess_data_unified to_numeric literal_eval h pods row =
     ebind (parse_json_cells json_columns row) (\<lambda>row1.
       let row2 = default_row row1; excluded = excluded_set h in
       if \<exists>c \<in> set expected_columns. c \<notin> fst ` set row2 then Inl AssertionError
       else
         let row3 = numeric_cells to_numeric row2; base = base_features row3;
             block = (\<lambda>cfg. unified_block literal_eval excluded pods row3 cfg (PInt 0))
         in ebind (block (hd feature_configs)) (\<lambda>kv.
            ebind (unified_fresh literal_eval h pods row3 (dict_from (base @ kv))) (\<lambda>fresh.
            ebind (traverse block (tl feature_configs)) (\<lambda>blocks.
            ebind (unified_block literal_eval excluded pods row3 (''GPU'', ''GPU'') (PStr ''GPU-L3c'')) (\<lambda>gpus.
              Inr (fill_missing (dict_from (base @ kv @ fresh @ concat blocks @ gpus))))))))"

subsection \<open>Keys of the result\<close>

lemma pod_key_inject: "CHR ''-'' \<notin> set n \<Longrightarrow> CHR ''-'' \<notin> set m \<Longrightarrow> pod_key n p = pod_key m q \<Longrightarrow> n = m \<and> p = q"
proof -
  assume n: "CHR ''-'' \<notin> set n" and m: "CHR ''-'' \<notin> set m" and eq: "pod_key n p = pod_key m q"
  have tw: "takeWhile (\<lambda>c. c \<noteq> CHR ''-'') (rev (pod_key n' p')) = rev n'" if "CHR ''-'' \<notin> set n'" for n' p'
    using that by (auto simp: pod_key_def takeWhile_append2 takeWhile_tail)
  have "n = m"
    using tw [OF n, of p] tw [OF m, of q] eq by simp
  with eq show ?thesis
    by (simp add: pod_key_def)
qed

lemma distinct_pod_keys:
  "distinct names \<Longrightarrow> \<forall>n \<in> set names. CHR ''-'' \<notin> set n \<Longrightarrow> distinct pods \<Longrightarrow>
   distinct (concat (map (\<lambda>n. if skip n then [] else map (pod_key n) pods) names))"
proof (induction names)
  case (Cons n names)
  have "distinct (map (pod_key n) pods)"
    using Cons.prems(3) by (simp add: distinct_map inj_on_def pod_key_def)
  moreover have "pod_key n p \<noteq> pod_key m q" if "m \<in> set names" for m p q
    using pod_key_inject [of n m p q] Cons.prems(1,2) that by auto
  ultimately show ?case
    using Cons by (auto split: if_splits)
qed simp

lemma pod_key_dash: "CHR ''-'' \<in> set (pod_key n p)"
  by (simp add: pod_key_def)

definition result_names :: "string list" where
  "result_names = map fst feature_configs @ [''kv_hit_ratio_fresh'', ''GPU'']"

lemma result_names_ok: "distinct result_names" "\<forall>n \<in> set result_names. CHR ''-'' \<notin> set n"
  by (simp_all add: result_names_def feature_configs_def)

lemma base_keys:
  "map fst (base_features row) = [''request_id'', ''selected_pod'', ''input_tokens'', ''output_tokens'', ''total_tokens'',
     ''ttft'', ''avg_tpot'', ''e2e_latency'', ''request_start_time'', ''request_end_time'', ''subAlgorithm'']"
  by (simp add: base_features_def)

lemma distinct_result_keys:
  assumes "distinct pods"
  shows "distinct (map fst (base_features row) @ concat (map (\<lambda>n. if skip n then [] else map (pod_key n) pods) result_names))"
proof -
  have "\<forall>k \<in> set (map fst (base_features row)). CHR ''-'' \<notin> set k" "distinct (map fst (base_features row))"
    unfolding base_keys by simp_all
  moreover have "CHR ''-'' \<in> set k" if "k \<in> set (concat (map (\<lambda>n. if skip n then [] else map (pod_key n) pods) result_names))" for k
    using that by (auto simp: pod_key_dash split: if_splits)
  ultimately show ?thesis
    using distinct_pod_keys [OF result_names_ok assms, of skip] by auto
qed

subsection \<open>Rows on which both paths agree\<close>

text \<open>The per-pod maps are absent or map pods to numbers (the GPU map to names), the expected columns are
  there, the numeric ones hold numbers, and nothing expected is \<open>None\<close>.\<close>

definition number_map :: "pyval \<Rightarrow> bool" where
  "number_map v \<longleftrightarrow> (case v of PDict d \<Rightarrow> list_all is_number (map snd d) | _ \<Rightarrow> False)"

definition name_map :: "pyval \<Rightarrow> bool" where
  "name_map v \<longleftrightarrow> (case v of PDict d \<Rightarrow> list_all (\<lambda>w. case w of PStr _ \<Rightarrow> True | _ \<Rightarrow> False) (map snd d) | _ \<Rightarrow> False)"

definition clean_row :: "row \<Rightarrow> bool" where
  "clean_row row \<longleftrightarrow>
     (\<forall>c \<in> set json_columns. case map_of row c of
        None \<Rightarrow> True | Some v \<Rightarrow> if c = ''GPU'' then name_map v else number_map v) \<and>
     (\<forall>c \<in> set expected_columns. c = ''GPU'' \<or> c \<in> fst ` set row) \<and>
     (\<forall>c \<in> set numeric_columns. case map_of row c of None \<Rightarrow> True | Some v \<Rightarrow> is_number v) \<and>
     (\<forall>c \<in> {''requestID'', ''selectedpod'', ''subAlgorithm''}. map_of row c \<noteq> Some PNone) \<and>
     (\<exists>t. as_float (column_value row ''request_start_time'' (PInt 0)) = Inr (Fin t))"

definition dict_of_column :: "row \<Rightarrow> string \<Rightarrow> row" where
  "dict_of_column row c = (case map_of row c of Some (PDict d) \<Rightarrow> d | _ \<Rightarrow> [])"

lemma clean_column:
  assumes "clean_row row" "c \<in> set json_columns"
  shows "map_of row c = None \<or> map_of row c = Some (PDict (dict_of_column row c))"
  using assms by (cases "map_of row c")
    (auto simp: clean_row_def dict_of_column_def number_map_def name_map_def split: pyval.splits if_splits dest!: bspec)

lemma clean_values:
  assumes "clean_row row" "c \<in> set json_columns" "v \<in> snd ` set (dict_of_column row c)"
  shows "if c = ''GPU'' then \<exists>s. v = PStr s else is_number v"
proof -
  have "case map_of row c of None \<Rightarrow> True | Some v \<Rightarrow> if c = ''GPU'' then name_map v else number_map v"
    using assms(1,2) by (simp add: clean_row_def)
  then show ?thesis
    using assms(3) by (cases v; force simp: dict_of_column_def number_map_def name_map_def list_all_iff
      split: option.splits pyval.splits if_splits)
qed

definition filled :: "row \<Rightarrow> string list \<Rightarrow> string \<Rightarrow> pyval option" where
  "filled row cols c = (if c \<in> set cols \<and> map_of row c = None then Some (PDict []) else map_of row c)"

lemma fill_json_clean:
  "\<forall>c \<in> set cols. map_of row c = None \<or> (\<exists>d. map_of row c = Some (PDict d)) \<Longrightarrow>
   \<exists>row1. fill_json cols row = Inr row1 \<and> map_of row1 = filled row cols"
proof (induction cols arbitrary: row)
  case (Cons col cols)
  show ?case
  proof (cases "map_of row col")
    case None
    let ?row = "AList.update col (PDict []) row"
    have m: "map_of ?row = (map_of row)(col \<mapsto> PDict [])"
      by (simp add: update_conv')
    have "\<forall>c \<in> set cols. map_of ?row c = None \<or> (\<exists>d. map_of ?row c = Some (PDict d))"
      using Cons.prems by (simp add: m)
    from Cons.IH [OF this] show ?thesis
      using None by (auto simp: column_value_def m filled_def fun_eq_iff)
  next
    case (Some v)
    then obtain d where v: "v = PDict d"
      using Cons.prems by auto
    have "\<forall>c \<in> set cols. map_of row c = None \<or> (\<exists>d. map_of row c = Some (PDict d))"
      using Cons.prems by simp
    from Cons.IH [OF this] show ?thesis
      using Some v by (auto simp: column_value_def filled_def fun_eq_iff)
  qed
qed (simp add: filled_def fun_eq_iff)

lemma to_numbers_id: "\<forall>c \<in> set cols. case map_of row c of None \<Rightarrow> True | Some v \<Rightarrow> is_number v \<Longrightarrow> to_numbers cols row = row"
  by (induction cols) (auto split: option.splits)

lemma parse_json_cells_id: "\<forall>c \<in> set cols. map_of row c = None \<or> (\<exists>d. map_of row c = Some (PDict d)) \<Longrightarrow> parse_json_cells cols row = Inr row"
  by (induction cols) (auto split: option.splits pyval.splits)

lemma map_of_numeric_cells:
  "map_of (numeric_cells to_numeric row) c =
   (if c \<in> set numeric_columns then map_option to_numeric (map_of row c) else map_of row c)"
  unfolding numeric_cells_def by (induction row) auto

lemma weights_agree: "fresh_weight hl (Fin t) la = numpy_weight hl (Fin t) la"
proof (cases la)
  case (Fin x)
  then show ?thesis
    by (auto simp: fresh_weight_def numpy_weight_def py_min_def py_max_def fclip_def fmin_def fmax_def Let_def)
next
  case PInf
  have "(Fin t - PInf) / Fin 1000000 = MInf"
    by (simp add: minus_flt_def divide_flt_def plus_flt_def uminus_flt_def signed_inf_def)
  then show ?thesis
    using PInf by (simp add: fresh_weight_def numpy_weight_def py_min_def py_max_def fclip_def fmin_def fmax_def Let_def)
qed (auto simp: fresh_weight_def numpy_weight_def py_min_def py_max_def fclip_def fmin_def fmax_def Let_def)

text \<open>The row after the first steps of each path.\<close>

lemma fast_row:
  assumes "clean_row row"
  obtains row1 where "fill_json json_columns row = Inr row1" "to_numbers numeric_columns (default_row row1) = row1"
    "map_of row1 = filled row json_columns"
proof -
  have "\<forall>c \<in> set json_columns. map_of row c = None \<or> (\<exists>d. map_of row c = Some (PDict d))"
    using clean_column [OF assms] by blast
  then obtain row1 where row1: "fill_json json_columns row = Inr row1" "map_of row1 = filled row json_columns"
    using fill_json_clean by blast
  have "map_of row ''subAlgorithm'' \<noteq> None"
    using assms by (simp add: clean_row_def expected_columns_def map_of_eq_None_iff)
  then have "map_of row1 ''subAlgorithm'' \<noteq> None" "map_of row1 ''GPU'' \<noteq> None"
    using row1(2) by (simp_all add: filled_def json_columns_def)
  then have "default_row row1 = row1"
    by (simp add: default_row_def map_of_eq_None_iff)
  moreover have "\<forall>c \<in> set numeric_columns. case map_of row1 c of None \<Rightarrow> True | Some v \<Rightarrow> is_number v"
  proof
    fix c assume c: "c \<in> set numeric_columns"
    then have "c \<notin> set json_columns"
      by (auto simp: numeric_columns_def json_columns_def)
    then show "case map_of row1 c of None \<Rightarrow> True | Some v \<Rightarrow> is_number v"
      using assms c row1(2) by (simp add: clean_row_def filled_def)
  qed
  ultimately show thesis
    using that [OF row1(1) _ row1(2)] to_numbers_id by simp
qed

definition unified_row :: "row \<Rightarrow> string \<Rightarrow> pyval option" where
  "unified_row row c = (if c = ''GPU'' \<and> map_of row c = None then Some (PDict []) else map_of row c)"

lemma default_row_clean:
  assumes "clean_row row"
  shows "map_of (default_row row) = unified_row row"
proof -
  have "''subAlgorithm'' \<in> fst ` set row"
    using assms by (simp add: clean_row_def expected_columns_def)
  then show ?thesis
    by (auto simp: default_row_def unified_row_def fun_eq_iff update_conv' map_of_eq_None_iff)
qed

lemma unified_columns:
  assumes "clean_row row" "\<And>v. is_number v \<Longrightarrow> to_numeric v = v"
  shows "map_of (numeric_cells to_numeric (default_row row)) = unified_row row"
proof
  fix c
  have "map_option to_numeric (map_of row c) = map_of row c" if "c \<in> set numeric_columns"
    using assms that by (cases "map_of row c") (auto simp: clean_row_def dest: bspec)
  moreover have "''GPU'' \<notin> set numeric_columns"
    by (simp add: numeric_columns_def)
  ultimately show "map_of (numeric_cells to_numeric (default_row row)) c = unified_row row c"
    using default_row_clean [OF assms(1)] by (auto simp: map_of_numeric_cells unified_row_def)
qed

lemma column_dicts:
  assumes "clean_row row" "c \<in> set json_columns" "map_of row1 = filled row json_columns" "map_of row3 = unified_row row"
  shows "pod_map row1 c = dict_of_column row c" "column_value row3 c (PDict []) = PDict (dict_of_column row c)"
proof -
  consider "map_of row c = None" | d where "map_of row c = Some (PDict d)"
    using clean_column [OF assms(1,2)] by metis
  then have "pod_map row1 c = dict_of_column row c \<and> column_value row3 c (PDict []) = PDict (dict_of_column row c)"
    by cases (use assms(2-4) in \<open>simp_all add: pod_map_def column_value_def filled_def unified_row_def dict_of_column_def\<close>)
  then show "pod_map row1 c = dict_of_column row c" "column_value row3 c (PDict []) = PDict (dict_of_column row c)"
    by simp_all
qed

lemma base_agrees:
  assumes "map_of row1 = filled row json_columns" "map_of row3 = unified_row row"
  shows "base_features row1 = base_features row3"
  using assms by (simp add: base_features_def column_value_def filled_def unified_row_def json_columns_def)

lemma number_cell:
  assumes "\<forall>v \<in> snd ` set d. is_number v"
  shows "numpy_cell (column_value d pod (PInt 0)) = Inr (feature_value d pod)"
    and "as_float (column_value d pod (PInt 0)) = Inr (float_of (feature_value d pod))"
proof -
  have "is_number (column_value d pod (PInt 0))"
    using assms by (auto simp: column_value_def split: option.splits dest!: map_of_SomeD)
  then show "numpy_cell (column_value d pod (PInt 0)) = Inr (feature_value d pod)"
    "as_float (column_value d pod (PInt 0)) = Inr (float_of (feature_value d pod))"
    by (cases "column_value d pod (PInt 0)"; simp add: feature_value_def)+
qed

lemma extract_numbers:
  assumes "\<forall>v \<in> snd ` set d. is_number v"
  shows "extract_pod_features_fast le (PDict d) pods (PInt 0) = Inr (map (\<lambda>pod. (pod, feature_value d pod)) pods)"
  unfolding extract_pod_features_fast_def
  using number_cell(1) [OF assms] by (intro traverse_total) (simp add: entry_map_def column_value_def)

lemma extract_names:
  assumes "\<forall>v \<in> snd ` set d. \<exists>s. v = PStr s"
  shows "extract_pod_features_fast le (PDict d) pods (PStr s) = Inr (map (\<lambda>pod. (pod, column_value d pod (PStr s))) pods)"
  unfolding extract_pod_features_fast_def
proof (rule traverse_total)
  fix pod
  have "\<exists>t. column_value d pod (PStr s) = PStr t"
    using assms by (auto simp: column_value_def split: option.splits dest!: map_of_SomeD)
  then show "ebind (py_get (entry_map le (PDict d)) pod (PStr s)) (\<lambda>v. ebind (numpy_cell v) (\<lambda>w. Inr (pod, w))) =
      Inr (pod, column_value d pod (PStr s))"
    by (auto simp: entry_map_def column_value_def)
qed

lemma config_columns: "cfg \<in> set feature_configs \<Longrightarrow> snd cfg \<in> set json_columns \<and> snd cfg \<noteq> ''GPU''"
  by (auto simp: feature_configs_def json_columns_def)

lemma blocks_agree:
  assumes c: "clean_row row" "map_of row1 = filled row json_columns" "map_of row3 = unified_row row"
    and cfg: "cfg \<in> set feature_configs"
  shows "unified_block le ex pods row3 cfg (PInt 0) = Inr (fast_block ex pods row1 cfg)"
proof -
  have j: "snd cfg \<in> set json_columns" "snd cfg \<noteq> ''GPU''"
    using config_columns [OF cfg] by simp_all
  have "\<forall>v \<in> snd ` set (dict_of_column row (snd cfg)). is_number v"
    using clean_values [OF c(1) j(1)] j(2) by auto
  from extract_numbers [OF this] show ?thesis
    using column_dicts [OF c(1) j(1) c(2,3)] by (simp add: unified_block_def fast_block_def comp_def)
qed

lemma gpu_agrees:
  assumes c: "clean_row row" "map_of row1 = filled row json_columns" "map_of row3 = unified_row row"
  shows "unified_block le ex pods row3 (''GPU'', ''GPU'') (PStr ''GPU-L3c'') = Inr (gpu_block ex pods (pod_map row1 ''GPU''))"
proof -
  have j: "''GPU'' \<in> set json_columns"
    by (simp add: json_columns_def)
  have "\<forall>v \<in> snd ` set (dict_of_column row ''GPU''). \<exists>s. v = PStr s"
    using clean_values [OF c(1) j] by simp
  from extract_names [OF this] show ?thesis
    using column_dicts [OF c(1) j c(2,3)] by (simp add: unified_block_def gpu_block_def comp_def)
qed

text \<open>The freshness weighted hit ratio, whatever else the results hold so far.\<close>

lemma fresh_agrees:
  assumes c: "clean_row row" "map_of row1 = filled row json_columns" "map_of row3 = unified_row row"
    and start: "column_value result ''request_start_time'' (PInt 0) = column_value base ''request_start_time'' (PInt 0)"
      "as_float (column_value base ''request_start_time'' (PInt 0)) = Inr (Fin t)"
    and raw: "''kv_hit_ratio'' \<notin> set (excluded_set h) \<Longrightarrow> \<forall>pod \<in> set pods. \<exists>x.
      column_value result (pod_key ''kv_hit_ratio'' pod) (PFloat (Fin 0)) = PFloat x \<and>
      column_value base (pod_key ''kv_hit_ratio'' pod) (PFloat (Fin 0)) = PFloat x"
  shows "\<exists>fresh. fast_fresh h pods row1 result = Inr fresh \<and> unified_fresh le h pods row3 base = Inr fresh \<and>
    map fst fresh = (if ''kv_hit_ratio_fresh'' \<in> set (excluded_set h) \<or> ''kv_hit_ratio'' \<in> set (excluded_set h) then []
      else map (pod_key ''kv_hit_ratio_fresh'') pods) \<and> (\<forall>v \<in> snd ` set fresh. v \<noteq> PNone)"
proof (cases "''kv_hit_ratio_fresh'' \<in> set (excluded_set h) \<or> ''kv_hit_ratio'' \<in> set (excluded_set h)")
  case True
  then show ?thesis
    by (auto simp: fast_fresh_def unified_fresh_def)
next
  case False
  let ?d = "dict_of_column row ''allPodsKvCacheLastAccess''"
  let ?f = "\<lambda>pod. (pod_key ''kv_hit_ratio_fresh'' pod,
      PFloat (float_of (column_value result (pod_key ''kv_hit_ratio'' pod) (PFloat (Fin 0))) *
        fresh_weight (half_life h) (Fin t) (float_of (feature_value ?d pod))))"
  have j: "''allPodsKvCacheLastAccess'' \<in> set json_columns"
    by (simp add: json_columns_def)
  have num: "\<forall>v \<in> snd ` set ?d. is_number v"
    using clean_values [OF c(1) j] by auto
  note dicts = column_dicts [OF c(1) j c(2,3)]
  have fast: "fast_fresh h pods row1 result = Inr (map ?f pods)"
    using False start dicts number_cell(2) [OF num] by (simp add: fast_fresh_def traverse_total)
  have "traverse (\<lambda>(pod, la). ebind (as_float la) (\<lambda>x.
       case column_value base (pod_key ''kv_hit_ratio'' pod) (PFloat (Fin 0)) of
         PFloat raw \<Rightarrow> Inr (pod_key ''kv_hit_ratio_fresh'' pod, PFloat (raw * numpy_weight (half_life h) (Fin t) x))
       | _ \<Rightarrow> Inl TypeError)) (map (\<lambda>pod. (pod, feature_value ?d pod)) pods) = Inr (map (?f \<circ> fst) (map (\<lambda>pod. (pod, feature_value ?d pod)) pods))"
  proof (rule traverse_total, clarsimp)
    fix pod assume "pod \<in> set pods"
    then obtain x where "column_value result (pod_key ''kv_hit_ratio'' pod) (PFloat (Fin 0)) = PFloat x"
      "column_value base (pod_key ''kv_hit_ratio'' pod) (PFloat (Fin 0)) = PFloat x"
      using raw False by blast
    then show "ebind (as_float (feature_value ?d pod)) (\<lambda>x.
       case column_value base (pod_key ''kv_hit_ratio'' pod) (PFloat (Fin 0)) of
         PFloat raw \<Rightarrow> Inr (pod_key ''kv_hit_ratio_fresh'' pod, PFloat (raw * numpy_weight (half_life h) (Fin t) x))
       | _ \<Rightarrow> Inl TypeError) = Inr (?f pod)"
      by (simp add: feature_value_def weights_agree)
  qed
  then have "unified_fresh le h pods row3 base = Inr (map ?f pods)"
    using False start dicts extract_numbers [OF num] by (simp add: unified_fresh_def comp_def)
  with fast False show ?thesis
    by (auto simp: comp_def)
qed

lemma fast_block_keys:
  "map fst (fast_block ex pods row cfg) = (if fst cfg \<in> set ex then [] else map (pod_key (fst cfg)) pods)"
  by (simp add: fast_block_def comp_def)

lemma column_value_member: "distinct (map fst d) \<Longrightarrow> (k, v) \<in> set d \<Longrightarrow> column_value d k w = v"
  by (simp add: column_value_def)

text \<open>Keys of the whole result of the fast path, in its order.\<close>

lemma result_keys_distinct:
  assumes "distinct pods"
    and "map fst fresh = (if skip then [] else map (pod_key ''kv_hit_ratio_fresh'') pods)"
  shows "distinct (map fst (base_features row1 @ concat (map (fast_block ex pods row1) feature_configs) @ fresh @ gpu_block ex pods g))"
proof -
  let ?skip = "\<lambda>n. if n = ''kv_hit_ratio_fresh'' then skip else n \<in> set ex"
  have "map fst (gpu_block ex pods g) = (if ''GPU'' \<in> set ex then [] else map (pod_key ''GPU'') pods)"
    by (simp add: gpu_block_def comp_def)
  moreover have "map fst (concat (map (fast_block ex pods row1) feature_configs)) =
      concat (map (\<lambda>n. if ?skip n then [] else map (pod_key n) pods) (map fst feature_configs))"
    by (simp add: feature_configs_def fast_block_keys)
  ultimately have "map fst (base_features row1 @ concat (map (fast_block ex pods row1) feature_configs) @ fresh @ gpu_block ex pods g) =
      map fst (base_features row1) @ concat (map (\<lambda>n. if ?skip n then [] else map (pod_key n) pods) result_names)"
    using assms(2) by (simp add: result_names_def)
  then show ?thesis
    using distinct_result_keys [OF assms(1), of row1 ?skip] by simp
qed

lemma fill_agree: "\<forall>v \<in> snd ` set r. v \<noteq> PNone \<Longrightarrow> fill_missing r = fill_nan r"
  by (auto simp: fill_missing_def fill_nan_def)

lemma map_of_fill_nan: "map_of (fill_nan r) k = map_option (\<lambda>v. if v = PFloat NaN then PInt 0 else v) (map_of r k)"
  by (simp add: fill_nan_def map_of_map)

lemma map_of_perm:
  assumes "distinct (map fst xs)" "mset xs = mset ys"
  shows "map_of xs = map_of ys"
proof -
  have "mset (map fst xs) = mset (map fst ys)"
    using assms(2) by simp
  from mset_eq_imp_distinct_iff [OF this] have "distinct (map fst ys)"
    using assms(1) by simp
  then show ?thesis
    using map_of_inject_set [OF assms(1)] mset_eq_setD [OF assms(2)] by simp
qed

lemma base_not_none:
  assumes "clean_row row" "map_of row3 = unified_row row"
  shows "\<forall>v \<in> snd ` set (base_features row3). v \<noteq> PNone"
proof -
  have present: "\<exists>v. map_of row c = Some v" if "c \<in> set expected_columns" "c \<noteq> ''GPU''" for c
    using assms(1) that by (cases "map_of row c") (auto simp: clean_row_def map_of_eq_None_iff)
  have num: "column_value row3 c d \<noteq> PNone" if "c \<in> set numeric_columns" "d \<noteq> PNone" for c d
  proof -
    have "''GPU'' \<notin> set numeric_columns"
      by (simp add: numeric_columns_def)
    then have "c \<noteq> ''GPU''"
      using that(1) by metis
    moreover have "case map_of row c of None \<Rightarrow> True | Some v \<Rightarrow> is_number v"
      using assms(1) that(1) by (simp add: clean_row_def)
    ultimately show ?thesis
      using that(2) assms(2) by (auto simp: column_value_def unified_row_def split: option.splits)
  qed
  have here: "column_value row3 c PNone \<noteq> PNone"
    if "c \<in> set expected_columns" "c \<noteq> ''GPU''" "map_of row c \<noteq> Some PNone" for c
    using present [OF that(1,2)] that(2,3) assms(2) by (auto simp: column_value_def unified_row_def)
  have none: "map_of row ''requestID'' \<noteq> Some PNone" "map_of row ''selectedpod'' \<noteq> Some PNone" "map_of row ''subAlgorithm'' \<noteq> Some PNone"
    using assms(1) by (simp_all add: clean_row_def)
  have words: "column_value row3 ''requestID'' PNone \<noteq> PNone" "column_value row3 ''selectedpod'' PNone \<noteq> PNone"
    "column_value row3 ''subAlgorithm'' PNone \<noteq> PNone"
    using here none by (simp_all add: expected_columns_def)
  show ?thesis
    using num words by (simp add: base_features_def numeric_columns_def)
qed

lemma blocks_not_none:
  "\<forall>v \<in> snd ` set (fast_block ex pods row cfg). v \<noteq> PNone"
  by (auto simp: fast_block_def feature_value_def)

lemma gpu_block_not_none:
  assumes "clean_row row"
  shows "\<forall>v \<in> snd ` set (gpu_block ex pods (dict_of_column row ''GPU'')). v \<noteq> PNone"
proof -
  have "\<forall>v \<in> snd ` set (dict_of_column row ''GPU''). \<exists>s. v = PStr s"
    using clean_values [OF assms, of "''GPU''"] by (simp add: json_columns_def)
  then show ?thesis
    by (auto simp: gpu_block_def column_value_def split: option.splits dest!: map_of_SomeD)
qed

lemma start_column:
  "column_value (base_features row @ xs) ''request_start_time'' (PInt 0) = column_value row ''request_start_time'' (PInt 0)"
  by (simp add: base_features_def column_value_def)

lemma kv_column:
  assumes "distinct (map fst (base_features row1 @ fast_block ex pods row1 (hd feature_configs) @ xs))"
    and "''kv_hit_ratio'' \<notin> set ex" "pod \<in> set pods"
  shows "column_value (base_features row1 @ fast_block ex pods row1 (hd feature_configs) @ xs) (pod_key ''kv_hit_ratio'' pod) w =
    feature_value (pod_map row1 ''allPodsKvCacheHitRatios'') pod"
  by (rule column_value_member [OF assms(1)]) (use assms(2,3) in \<open>simp add: fast_block_def feature_configs_def\<close>)

lemma expected_present:
  assumes "clean_row row" "c \<in> set expected_columns"
  shows "c \<in> fst ` set (default_row row)"
proof -
  have "map_of (default_row row) c \<noteq> None"
  proof (cases "c = ''GPU''")
    case False
    then have "c \<in> fst ` set row"
      using assms unfolding clean_row_def by blast
    then show ?thesis
      using default_row_clean [OF assms(1)] False by (simp add: unified_row_def map_of_eq_None_iff)
  qed (use default_row_clean [OF assms(1)] in \<open>simp add: unified_row_def\<close>)
  then show ?thesis
    by (simp add: map_of_eq_None_iff)
qed

text \<open>The two orders in which the features are entered.\<close>

lemma both_paths:
  assumes c: "clean_row row" "distinct pods" "\<And>v. is_number v \<Longrightarrow> to_numeric v = v"
  shows "\<exists>base kv fresh rest gpus.
    preprocess_inference_fast h pods row = Inr (fill_nan (base @ kv @ rest @ fresh @ gpus)) \<and>
    preprocess_data_unified to_numeric le h pods row = Inr (fill_nan (base @ kv @ fresh @ rest @ gpus)) \<and>
    distinct (map fst (base @ kv @ rest @ fresh @ gpus))"
proof -
  obtain row1 where row1: "fill_json json_columns row = Inr row1" "to_numbers numeric_columns (default_row row1) = row1"
    "map_of row1 = filled row json_columns"
    by (rule fast_row [OF c(1)]) (rule that)
  define row3 where "row3 = numeric_cells to_numeric (default_row row)"
  have row3: "map_of row3 = unified_row row"
    unfolding row3_def using unified_columns [OF c(1,3)] by simp
  let ?ex = "excluded_set h" and ?block = "fast_block (excluded_set h) pods row1"
  define base kv rest gpus where "base = base_features row1" and "kv = ?block (hd feature_configs)"
    and "rest = concat (map ?block (tl feature_configs))" and "gpus = gpu_block ?ex pods (pod_map row1 ''GPU'')"
  have all: "concat (map ?block feature_configs) = kv @ rest"
    by (simp add: kv_def rest_def feature_configs_def)
  have base3: "base_features row3 = base"
    using base_agrees [OF row1(3) row3] by (simp add: base_def)
  have dist: "distinct (map fst (base @ kv @ rest @ xs @ gpus))"
    if "map fst xs = (if skip then [] else map (pod_key ''kv_hit_ratio_fresh'') pods)" for xs skip
    using result_keys_distinct [OF c(2) that, of row1 ?ex] all by (simp add: base_def gpus_def)
  have d0: "distinct (map fst (base @ kv @ rest))" "distinct (map fst (base @ kv))"
    using dist [of "[]" True] by auto
  obtain t where t: "as_float (column_value row ''request_start_time'' (PInt 0)) = Inr (Fin t)"
    using c(1) by (auto simp: clean_row_def)
  have start: "column_value row3 ''request_start_time'' (PInt 0) = column_value row ''request_start_time'' (PInt 0)"
    using row3 by (simp add: column_value_def unified_row_def)
  have raw: "\<forall>pod \<in> set pods. \<exists>x. column_value (base @ kv @ rest) (pod_key ''kv_hit_ratio'' pod) (PFloat (Fin 0)) = PFloat x \<and>
      column_value (base @ kv) (pod_key ''kv_hit_ratio'' pod) (PFloat (Fin 0)) = PFloat x" if "''kv_hit_ratio'' \<notin> set ?ex"
    using kv_column [of row1 ?ex pods rest] kv_column [of row1 ?ex pods "[]"] that d0
    by (auto simp: base_def kv_def feature_value_def)
  have startr: "column_value (base @ kv @ rest) ''request_start_time'' (PInt 0) = column_value (base @ kv) ''request_start_time'' (PInt 0)"
    "as_float (column_value (base @ kv) ''request_start_time'' (PInt 0)) = Inr (Fin t)"
    using start_column [of row3 "kv @ rest"] start_column [of row3 kv] start t base3 by simp_all
  obtain fresh where fresh: "fast_fresh h pods row1 (base @ kv @ rest) = Inr fresh" "unified_fresh le h pods row3 (base @ kv) = Inr fresh"
    "map fst fresh = (if ''kv_hit_ratio_fresh'' \<in> set ?ex \<or> ''kv_hit_ratio'' \<in> set ?ex then [] else map (pod_key ''kv_hit_ratio_fresh'') pods)"
    "\<forall>v \<in> snd ` set fresh. v \<noteq> PNone"
    using fresh_agrees [OF c(1) row1(3) row3 startr raw] by blast
  have full: "distinct (map fst (base @ kv @ rest @ fresh @ gpus))"
    by (rule dist [OF fresh(3)])
  have swap: "distinct (map fst (base @ kv @ fresh @ rest @ gpus))"
    using full by auto
  have fast: "preprocess_inference_fast h pods row = Inr (fill_nan (base @ kv @ rest @ fresh @ gpus))"
    using row1(1,2) fresh(1) full d0(1) all
    by (simp add: preprocess_inference_fast_def Let_def dict_from_distinct flip: base_def gpus_def)
  have cells: "parse_json_cells json_columns row = Inr row"
    using clean_column [OF c(1)] by (intro parse_json_cells_id) blast
  have here: "\<not> (\<exists>c \<in> set expected_columns. c \<notin> fst ` set (default_row row))"
    using expected_present [OF c(1)] by blast
  have hd: "hd feature_configs \<in> set feature_configs" and tl: "set (tl feature_configs) \<subseteq> set feature_configs"
    by (auto simp: feature_configs_def)
  have blk: "unified_block le ?ex pods row3 cfg (PInt 0) = Inr (?block cfg)" if "cfg \<in> set feature_configs" for cfg
    using blocks_agree [OF c(1) row1(3) row3 that] .
  have blks: "traverse (\<lambda>cfg. unified_block le ?ex pods row3 cfg (PInt 0)) (tl feature_configs) = Inr (map ?block (tl feature_configs))"
    using blk tl by (intro traverse_total) blast
  have nonone: "\<forall>v \<in> snd ` set (base @ kv @ fresh @ rest @ gpus). v \<noteq> PNone"
  proof -
    have "pod_map row1 ''GPU'' = dict_of_column row ''GPU''"
      using column_dicts(1) [OF c(1) _ row1(3) row3, of "''GPU''"] by (simp add: json_columns_def)
    then have "\<forall>v \<in> snd ` set gpus. v \<noteq> PNone"
      using gpu_block_not_none [OF c(1)] by (simp add: gpus_def)
    moreover have "\<forall>v \<in> snd ` set kv. v \<noteq> PNone" "\<forall>v \<in> snd ` set rest. v \<noteq> PNone"
      using blocks_not_none unfolding kv_def rest_def by fastforce+
    moreover have "\<forall>v \<in> snd ` set base. v \<noteq> PNone"
      using base_not_none [OF c(1) row3] base3 by simp
    ultimately show ?thesis
      using fresh(4) by (simp add: ball_Un image_Un)
  qed
  have "preprocess_data_unified to_numeric le h pods row = Inr (fill_missing (base @ kv @ fresh @ rest @ gpus))"
    using cells here blk [OF hd] blks fresh(2) gpu_agrees [OF c(1) row1(3) row3] d0(2) swap base3
    by (simp add: preprocess_data_unified_def Let_def dict_from_distinct flip: row3_def kv_def rest_def gpus_def)
  then have "preprocess_data_unified to_numeric le h pods row = Inr (fill_nan (base @ kv @ fresh @ rest @ gpus))"
    using fill_agree [OF nonone] by simp
  with fast full show ?thesis
    by blast
qed

subsection \<open>Properties of preprocessing\<close>



definition sample_row :: row where
  "sample_row =
     [(''requestID'', PStr ''r1''), (''selectedpod'', PStr ''pod_0000''), (''ttft'', PInt 120), (''avg_tpot'', PFloat (Fin 20)),
      (''total_decode_time'', PInt 900), (''e2e'', PInt 1020), (''numInputTokens'', PInt 64), (''numOutputTokens'', PInt 45),
      (''numTotalTokens'', PInt 109), (''request_start_time'', PInt 5000000), (''request_end_time'', PInt 6020000),
      (''allPodsKvCacheHitRatios'', PDict [(''pod_0000'', PInt 50), (''pod_0001'', PInt 0)]),
      (''allPodsKvCacheLastAccess'', PDict [(''pod_0000'', PInt 4000000)]),
      (''numInflightRequestsAllPods'', PDict [(''pod_0000'', PInt 3), (''pod_0001'', PInt 1)]),
      (''vllmGPUKVCacheUsage'', PDict []), (''vllmCPUKVCacheUsage'', PDict []), (''vllmNumRequestsRunning'', PDict []),
      (''vllmNumRequestsWaiting'', PDict []), (''numPrefillTokensForAllPods'', PDict []),
      (''numDecodeTokensForAllPods'', PDict []), (''GPU'', PDict [(''pod_0000'', PStr ''NVIDIA-L20'')]),
      (''subAlgorithm'', PStr ''rl'')]"

lemma sample_row_clean: "clean_row sample_row"
  by (simp add: clean_row_def sample_row_def json_columns_def expected_columns_def numeric_columns_def number_map_def
      name_map_def column_value_def)


text \<open>Outside of such rows the two differ: without a column \<open>subAlgorithm\<close> the fast path keeps \<open>None\<close> and the
  general one fills in 0, and without one of the other expected columns only the general one refuses the row.\<close>

lemma no_pod_blocks [simp]: "concat (map (fast_block ex [] row) cfgs) = []" "gpu_block ex [] g = []"
  by (auto simp: fast_block_def gpu_block_def)

lemma fast_keeps_none: "\<exists>r. preprocess_inference_fast None [] [] = Inr r \<and> map_of r ''subAlgorithm'' = Some PNone"
proof -
  let ?maps = "map (\<lambda>c. (c, PDict [])) json_columns"
  let ?row = "?maps @ [(''subAlgorithm'', PNone)]"
  have "fill_json json_columns [] = Inr ?maps"
    by code_simp
  moreover have "fast_fresh None [] row2 r = ebind (as_float (column_value r ''request_start_time'' (PInt 0))) (\<lambda>_. Inr [])" for row2 r
    by (simp add: fast_fresh_def excluded_set_def)
  moreover have "to_numbers numeric_columns (default_row ?maps) = ?row"
    by code_simp
  moreover have "dict_from (base_features ?row) = base_features ?row"
    by code_simp
  moreover have "as_float (column_value (base_features ?row) ''request_start_time'' (PInt 0)) = Inr (Fin 0)"
    by code_simp
  moreover have "map_of (fill_nan (base_features ?row)) ''subAlgorithm'' = Some PNone"
    by code_simp
  ultimately show ?thesis
    by (simp add: preprocess_inference_fast_def Let_def)
qed

lemma unified_refuses_missing: "preprocess_data_unified to_numeric literal_eval None [] [] = Inl AssertionError"
proof -
  have "default_row [] = [(''subAlgorithm'', PNone), (''GPU'', PDict [])]"
    by (simp add: default_row_def)
  then have "\<exists>c \<in> set expected_columns. c \<notin> fst ` set (default_row [])"
    by (intro bexI [of _ "''requestID''"]) (simp_all add: expected_columns_def)
  then show ?thesis
    by (simp add: preprocess_data_unified_def json_columns_def)
qed

text \<open>The gateway writes \<open>null\<close> for a map it does not have: training reads the empty dict, serving keeps the
  text, and the search for the pods of the row then raises.\<close>

lemma null_map_breaks_serving:
  "parse_log_to_dict ''**@latency_metrics@vllmNumRequestsRunning@null'' = Inr ([(''vllmNumRequestsRunning'', PStr ''null'')], [])"
  "preprocess_log_message None ''**@latency_metrics@vllmNumRequestsRunning@null'' = Inl AttributeError"
  "train_value ''null'' = PDict []"
proof -
  show parse: "parse_log_to_dict ''**@latency_metrics@vllmNumRequestsRunning@null'' = Inr ([(''vllmNumRequestsRunning'', PStr ''null'')], [])"
    by code_simp
  have "single_row_pod_ids [(''vllmNumRequestsRunning'', PStr ''null'')] = Inl AttributeError"
    by (simp add: single_row_pod_ids_def pod_columns_def column_value_def)
  then show "preprocess_log_message None ''**@latency_metrics@vllmNumRequestsRunning@null'' = Inl AttributeError"
    by (simp add: preprocess_log_message_def parse)
  show "train_value ''null'' = PDict []"
    by code_simp
qed

end
