(* ===== verification/Load_Buffer.thy ===== *)
theory Load_Buffer
  imports Prelude
begin

text \<open>
  The buffer of request points of the load monitor (\<open>gpu_optimizer/load_monitor/helpers.py\<close>): a
  preallocated array, the number of rows that are committed and the number that includes rows in
  processing. The specification is a bounded window of points; the buffer implements it, and its
  client relies on the contract of the window alone.
\<close>

subsection \<open>Slice assignment\<close>

text \<open>
  \<open>a[lo:hi] = rows\<close> for an array of rows: the bounds are clipped to the array, a single row is
  repeated, any other difference in length raises.
\<close>

definition assign_slice :: "nat \<Rightarrow> nat \<Rightarrow> 'a list \<Rightarrow> 'a list \<Rightarrow> py_error + 'a list" where
  "assign_slice lo hi rows a =
     (let i = min lo (length a); n = min hi (length a) - i in
      if length rows = n then Inr (take i a @ rows @ drop (i + n) a)
      else if length rows = 1 then Inr (take i a @ replicate n (hd rows) @ drop (i + n) a)
      else Inl ValueError)"

text \<open>\<open>np.resize\<close>: the rows are repeated until the new length is reached.\<close>

definition np_resize :: "nat \<Rightarrow> 'a list \<Rightarrow> 'a list" where
  "np_resize n a = map (\<lambda>i. a ! (i mod length a)) [0..<n]"

subsection \<open>The buffer\<close>

record 'a data_buffer =
  buf_xy :: "'a list"
  buf_commited :: nat
  buf_head :: nat

text \<open>The initial contents are whatever \<open>np.empty\<close> returns.\<close>

definition DataBuffer :: "'a list \<Rightarrow> 'a data_buffer" where
  "DataBuffer storage = \<lparr>buf_xy = storage, buf_commited = 0, buf_head = 0\<rparr>"

partial_function (option) grow_cap :: "nat \<Rightarrow> nat \<Rightarrow> nat option" where
  "grow_cap cap new_cap = (if new_cap < cap then grow_cap cap (new_cap * 2) else Some new_cap)"

declare grow_cap.simps [code]

definition reconcile :: "nat \<Rightarrow> 'a data_buffer \<Rightarrow> 'a data_buffer option" where
  "reconcile cap b =
     (if cap < length (buf_xy b) then Some b
      else map_option (\<lambda>n. b\<lparr>buf_xy := np_resize n (buf_xy b)\<rparr>) (grow_cap cap (length (buf_xy b) * 2)))"

definition clear_buffer :: "'a data_buffer \<Rightarrow> 'a data_buffer" where
  "clear_buffer b = b\<lparr>buf_commited := 0, buf_head := 0\<rparr>"

definition commit :: "'a data_buffer \<Rightarrow> 'a data_buffer" where
  "commit b = b\<lparr>buf_commited := buf_head b\<rparr>"

definition trim_head :: "int \<Rightarrow> 'a data_buffer \<Rightarrow> ('a data_buffer, unit) outcome" where
  "trim_head start b =
     (let c = int (buf_commited b); xy = buf_xy b in
      if buf_head b \<noteq> buf_commited b then (b, Inl Exception)
      else if start \<ge> c then (b\<lparr>buf_commited := 0, buf_head := 0\<rparr>, Inr ())
      else if start \<le> - c then (b, Inr ())
      else
        let left = (if start > 0 then c - start else - start);
            moved = (if start > 0 then py_slice xy start c else py_slice xy (c + start) c)
        in case assign_slice 0 (nat left) moved xy of
             Inl e \<Rightarrow> (b, Inl e)
           | Inr xy' \<Rightarrow> (b\<lparr>buf_xy := xy', buf_commited := nat left, buf_head := nat left\<rparr>, Inr ()))"

text \<open>
  \<open>append\<close> returns the rows it stored. An empty batch raises in the slice assignment, because an
  array without rows has no columns either.
\<close>

definition append_points :: "'a list \<Rightarrow> bool \<Rightarrow> 'a data_buffer \<Rightarrow> ('a data_buffer, 'a list) outcome" where
  "append_points tokens do_commit b =
     (let cap = length (buf_xy b);
          size_gap = int (buf_commited b) + int (length tokens) - int cap
      in obind (if size_gap > 0 then trim_head size_gap b else (b, Inr ())) (\<lambda>b1 _.
           let ts = (if length tokens > cap \<and> cap > 0 then last_n cap tokens else tokens);
               c = buf_commited b1
           in if ts = [] then (b1, Inl ValueError)
              else case assign_slice c (c + length ts) ts (buf_xy b1) of
                Inl e \<Rightarrow> (b1, Inl e)
              | Inr xy \<Rightarrow>
                  let b2 = b1\<lparr>buf_xy := xy, buf_head := buf_head b1 + length ts\<rparr> in
                  (if do_commit then commit b2 else b2, Inr (py_slice xy (int c) (int (c + length ts))))))"

definition datapoints :: "'a data_buffer \<Rightarrow> 'a list" where
  "datapoints b = take (buf_commited b) (buf_xy b)"

definition buffer_len :: "'a data_buffer \<Rightarrow> nat" where
  "buffer_len b = buf_commited b"

definition buffer_cap :: "'a data_buffer \<Rightarrow> nat" where
  "buffer_cap b = length (buf_xy b)"

subsection \<open>The bounded window\<close>

record 'a window =
  win_cap :: nat
  win_points :: "'a list"

definition win_append :: "'a list \<Rightarrow> 'a window \<Rightarrow> 'a window" where
  "win_append ts w = w\<lparr>win_points := last_n (win_cap w) (win_points w @ ts)\<rparr>"

text \<open>A positive count drops the oldest points, any other keeps that many of the newest.\<close>

definition win_trim :: "int \<Rightarrow> 'a window \<Rightarrow> 'a window" where
  "win_trim k w =
     w\<lparr>win_points := (if k > 0 then drop (nat k) (win_points w) else last_n (nat (- k)) (win_points w))\<rparr>"

definition win_clear :: "'a window \<Rightarrow> 'a window" where
  "win_clear w = w\<lparr>win_points := []\<rparr>"

text \<open>The capacity grows to the least doubling that holds the request.\<close>

definition win_grow :: "nat \<Rightarrow> 'a window \<Rightarrow> 'a window" where
  "win_grow n w =
     (if n < win_cap w then w
      else w\<lparr>win_cap := (LEAST m. n \<le> m \<and> (\<exists>k. m = win_cap w * 2 * 2 ^ k))\<rparr>)"

definition window_of :: "'a data_buffer \<Rightarrow> 'a window" where
  "window_of b = \<lparr>win_cap = length (buf_xy b), win_points = datapoints b\<rparr>"

definition buffer_ok :: "'a data_buffer \<Rightarrow> bool" where
  "buffer_ok b \<longleftrightarrow> buf_head b = buf_commited b \<and> buf_commited b \<le> length (buf_xy b) \<and> 0 < length (buf_xy b)"

subsection \<open>Each operation implements its specification\<close>

lemma assign_prefix:
  "length rows = n \<Longrightarrow> n \<le> length a \<Longrightarrow> assign_slice 0 n rows a = Inr (rows @ drop n a)"
  by (simp add: assign_slice_def Let_def)

lemma assign_inside:
  "c + length rows \<le> length a \<Longrightarrow>
   assign_slice c (c + length rows) rows a = Inr (take c a @ rows @ drop (c + length rows) a)"
  by (simp add: assign_slice_def Let_def min_def)

lemma py_slice_inside:
  "i \<le> j \<Longrightarrow> py_slice xs (int i) (int j) = take (j - i) (drop i xs)"
  using py_slice_nonneg [of "int i" "int j" xs] by (simp add: nat_diff_distrib)

lemma trim_head_spec:
  assumes "buffer_ok b"
  obtains b' where "trim_head k b = (b', Inr ())" "buffer_ok b'" "window_of b' = win_trim k (window_of b)"
    "length (buf_xy b') = length (buf_xy b)"
proof -
  let ?c = "buf_commited b" and ?xy = "buf_xy b"
  have ok: "buf_head b = ?c" "?c \<le> length ?xy" "0 < length ?xy"
    using assms by (auto simp: buffer_ok_def)
  consider "k \<ge> int ?c" | "k < int ?c" "k \<le> - int ?c" | "0 < k" "k < int ?c" | "- int ?c < k" "k \<le> 0" "k < int ?c"
    by linarith
  then show ?thesis
  proof cases
    case 1
    then show ?thesis
      using that [of "b\<lparr>buf_commited := 0, buf_head := 0\<rparr>"] ok
      by (auto simp: trim_head_def Let_def buffer_ok_def window_of_def win_trim_def datapoints_def last_n_def)
  next
    case 2
    then show ?thesis
      using that [of b] ok assms
      by (auto simp: trim_head_def Let_def window_of_def win_trim_def datapoints_def)
  next
    case 3
    let ?n = "?c - nat k"
    have moved: "py_slice ?xy k (int ?c) = take ?n (drop (nat k) ?xy)"
      using 3 py_slice_inside [of "nat k" ?c ?xy] by simp
    have "nat (int ?c - k) = ?n" "length (take ?n (drop (nat k) ?xy)) = ?n" "?n \<le> length ?xy"
      using 3 ok by auto
    then have "trim_head k b = (b\<lparr>buf_xy := take ?n (drop (nat k) ?xy) @ drop ?n ?xy, buf_commited := ?n, buf_head := ?n\<rparr>, Inr ())"
      using 3 ok assign_prefix [of "take ?n (drop (nat k) ?xy)" ?n ?xy] by (simp add: trim_head_def Let_def moved)
    then show ?thesis
      using that ok 3 by (auto simp: buffer_ok_def window_of_def win_trim_def datapoints_def drop_take)
  next
    case 4
    let ?n = "nat (- k)"
    have moved: "py_slice ?xy (int ?c + k) (int ?c) = take ?n (drop (?c - ?n) ?xy)"
      using 4 py_slice_inside [of "?c - ?n" ?c ?xy] by (simp add: of_nat_diff)
    have "length (take ?n (drop (?c - ?n) ?xy)) = ?n" "?n \<le> length ?xy"
      using 4 ok by auto
    then have "trim_head k b = (b\<lparr>buf_xy := take ?n (drop (?c - ?n) ?xy) @ drop ?n ?xy, buf_commited := ?n, buf_head := ?n\<rparr>, Inr ())"
      using 4 ok assign_prefix [of "take ?n (drop (?c - ?n) ?xy)" ?n ?xy] by (simp add: trim_head_def Let_def moved)
    then show ?thesis
      using that ok 4 by (auto simp: buffer_ok_def window_of_def win_trim_def datapoints_def drop_take last_n_def)
  qed
qed

lemma append_room:
  assumes "buffer_ok b" "ts \<noteq> []" "buf_commited b + length ts \<le> length (buf_xy b)"
  obtains b' where "append_points ts True b = (b', Inr ts)" "buffer_ok b'"
    "length (buf_xy b') = length (buf_xy b)" "datapoints b' = datapoints b @ ts"
proof -
  let ?c = "buf_commited b" and ?xy = "buf_xy b"
  let ?new = "take ?c ?xy @ ts @ drop (?c + length ts) ?xy"
  have "assign_slice ?c (?c + length ts) ts ?xy = Inr ?new"
    using assign_inside assms(3) .
  moreover have "py_slice ?new (int ?c) (int (?c + length ts)) = ts"
    using assms(3) py_slice_inside [of ?c "?c + length ts" ?new] by simp
  ultimately have "append_points ts True b = (commit (b\<lparr>buf_xy := ?new, buf_head := buf_head b + length ts\<rparr>), Inr ts)"
    using assms by (simp add: append_points_def Let_def)
  then show ?thesis
    using that assms by (auto simp: buffer_ok_def commit_def datapoints_def)
qed

lemma append_spec:
  assumes "buffer_ok b" "ts \<noteq> []"
  obtains b' where "append_points ts True b = (b', Inr (last_n (length (buf_xy b)) ts))" "buffer_ok b'"
    "window_of b' = win_append ts (window_of b)" "length (buf_xy b') = length (buf_xy b)"
proof (cases "buf_commited b + length ts \<le> length (buf_xy b)")
  case True
  then show ?thesis
    using append_room [OF assms True] that assms(1)
    by (auto simp: window_of_def win_append_def datapoints_def buffer_ok_def)
next
  case False
  let ?cap = "length (buf_xy b)"
  let ?gap = "int (buf_commited b) + int (length ts) - int ?cap" and ?ts = "last_n ?cap ts"
  have gap: "?gap > 0"
    using False by linarith
  obtain b1 where b1: "trim_head ?gap b = (b1, Inr ())" "buffer_ok b1" "window_of b1 = win_trim ?gap (window_of b)"
    "length (buf_xy b1) = ?cap"
    using trim_head_spec [OF assms(1)] .
  have d1: "datapoints b1 = drop (nat ?gap) (datapoints b)"
    using b1(3) gap by (simp add: window_of_def win_trim_def)
  have len: "length (datapoints b) = buf_commited b" "length (datapoints b1) = buf_commited b1"
    using assms(1) b1(2) by (auto simp: datapoints_def buffer_ok_def)
  have c1: "buf_commited b1 = buf_commited b - nat ?gap"
    using d1 len by simp
  have room: "buf_commited b1 + length ?ts \<le> length (buf_xy b1)"
    using c1 b1(4) gap assms(1) by (auto simp: buffer_ok_def)
  have "0 < length ?ts"
    using assms by (simp add: buffer_ok_def)
  then have ne: "?ts \<noteq> []"
    by blast
  have same: "append_points ts True b = append_points ?ts True b1"
  proof (cases "?cap < length ts")
    case True
    then show ?thesis
      using gap b1(1,4) room ne assms(1) by (simp add: append_points_def Let_def buffer_ok_def)
  next
    case False
    then show ?thesis
      using gap b1(1,4) room assms(2) by (simp add: append_points_def Let_def)
  qed
  obtain b' where b': "append_points ?ts True b1 = (b', Inr ?ts)" "buffer_ok b'"
    "length (buf_xy b') = length (buf_xy b1)" "datapoints b' = datapoints b1 @ ?ts"
    using append_room [OF b1(2) ne room] .
  have "datapoints b1 @ ?ts = last_n ?cap (datapoints b @ ts)"
    using d1 len(1) gap assms(1) by (auto simp: last_n_def buffer_ok_def nat_diff_distrib intro: arg_cong2 [where f = drop])
  then show ?thesis
    using that [of b'] same b' b1(4) by (simp add: window_of_def win_append_def)
qed

lemma grow_cap_spec:
  assumes "0 < m"
  shows "grow_cap n m = Some (LEAST x. n \<le> x \<and> (\<exists>k. x = m * 2 ^ k))"
  using assms
proof (induction "n - m" arbitrary: m rule: less_induct)
  case less
  show ?case
  proof (cases "m < n")
    case True
    have "(n \<le> x \<and> (\<exists>k. x = m * 2 ^ k)) = (n \<le> x \<and> (\<exists>k. x = m * 2 * 2 ^ k))" for x
      by (metis (no_types, opaque_lifting) True leD mult.assoc mult.right_neutral not0_implies_Suc power_0 power_Suc)
    then show ?thesis
      using less True by (subst grow_cap.simps) simp
  next
    case False
    then have "(LEAST x. n \<le> x \<and> (\<exists>k. x = m * 2 ^ k)) = m"
      by (intro Least_equality) (auto intro: exI [of _ 0])
    then show ?thesis
      using False by (subst grow_cap.simps) simp
  qed
qed

lemma grow_cap_bounds:
  assumes "0 < m" "grow_cap n m = Some x"
  shows "n \<le> x" "m \<le> x"
proof -
  have x: "x = (LEAST x. n \<le> x \<and> (\<exists>k. x = m * 2 ^ k))"
    using grow_cap_spec [OF assms(1), of n] assms(2) by simp
  have "n \<le> m * 2 ^ n"
    using assms(1) less_exp [of n] by (metis le_trans less_imp_le_nat mult_le_mono1 nat_mult_1 Suc_leI One_nat_def)
  then have "n \<le> x \<and> (\<exists>k. x = m * 2 ^ k)"
    unfolding x by (rule_tac LeastI) (auto intro: exI [of _ n])
  then show "n \<le> x" "m \<le> x"
    by auto
qed

lemma np_resize_take: "k \<le> length a \<Longrightarrow> length a \<le> n \<Longrightarrow> take k (np_resize n a) = take k a"
  by (rule nth_equalityI) (auto simp: np_resize_def)

lemma reconcile_spec:
  assumes "buffer_ok b"
  obtains b' where "reconcile n b = Some b'" "buffer_ok b'" "window_of b' = win_grow n (window_of b)"
    "n \<le> length (buf_xy b')"
proof (cases "n < length (buf_xy b)")
  case True
  then show ?thesis
    using that [of b] assms by (simp add: reconcile_def window_of_def win_grow_def)
next
  case False
  let ?m = "length (buf_xy b) * 2"
  have pos: "0 < ?m"
    using assms by (simp add: buffer_ok_def)
  obtain x where x: "grow_cap n ?m = Some x" "x = (LEAST x. n \<le> x \<and> (\<exists>k. x = ?m * 2 ^ k))"
    using grow_cap_spec [OF pos] by blast
  have le: "n \<le> x" "?m \<le> x"
    using grow_cap_bounds [OF pos x(1)] by auto
  let ?b = "b\<lparr>buf_xy := np_resize x (buf_xy b)\<rparr>"
  have len: "length (np_resize x (buf_xy b)) = x"
    by (simp add: np_resize_def)
  have "datapoints ?b = datapoints b"
    using assms le by (simp add: datapoints_def buffer_ok_def np_resize_take)
  then show ?thesis
    using that [of ?b] False assms x(1) x(2) [symmetric] le len
    by (simp add: reconcile_def window_of_def win_grow_def buffer_ok_def del: length_greater_0_conv)
qed

subsection \<open>The contract of the window\<close>

locale window_store =
  fixes ok :: "'s \<Rightarrow> bool" and view :: "'s \<Rightarrow> 'a window"
    and add :: "'a list \<Rightarrow> 's \<Rightarrow> ('s, 'a list) outcome"
    and trim :: "int \<Rightarrow> 's \<Rightarrow> ('s, unit) outcome"
    and grow :: "nat \<Rightarrow> 's \<Rightarrow> 's option"
  assumes add_law: "ok s \<Longrightarrow> ts \<noteq> [] \<Longrightarrow>
      \<exists>s'. add ts s = (s', Inr (last_n (win_cap (view s)) ts)) \<and> ok s' \<and> view s' = win_append ts (view s)"
    and trim_law: "ok s \<Longrightarrow> \<exists>s'. trim k s = (s', Inr ()) \<and> ok s' \<and> view s' = win_trim k (view s)"
    and grow_law: "ok s \<Longrightarrow>
      \<exists>s'. grow n s = Some s' \<and> ok s' \<and> view s' = win_grow n (view s) \<and> n \<le> win_cap (view s')"
begin

text \<open>After growing to the points held and the points to come, nothing is evicted.\<close>

lemma grow_then_add:
  assumes "ok s" "ts \<noteq> []" "length (win_points (view s)) + length ts \<le> n"
  obtains s1 s2 where "grow n s = Some s1" "add ts s1 = (s2, Inr ts)" "ok s2"
    "win_points (view s2) = win_points (view s) @ ts"
proof -
  obtain s1 where s1: "grow n s = Some s1" "ok s1" "view s1 = win_grow n (view s)" "n \<le> win_cap (view s1)"
    using grow_law [OF assms(1)] by blast
  obtain s2 where s2: "add ts s1 = (s2, Inr (last_n (win_cap (view s1)) ts))" "ok s2" "view s2 = win_append ts (view s1)"
    using add_law [OF s1(2) assms(2)] by blast
  have "win_points (view s1) = win_points (view s)"
    using s1(3) by (simp add: win_grow_def)
  then show ?thesis
    using that [OF s1(1)] s1(4) s2 assms(3) by (simp add: win_append_def)
qed

lemma trim_to_newest:
  assumes "ok s"
  obtains s' where "trim (- int k) s = (s', Inr ())" "ok s'" "win_points (view s') = last_n k (win_points (view s))"
  using trim_law [OF assms, of "- int k"] that by (auto simp: win_trim_def)

end

interpretation buffer: window_store buffer_ok window_of "\<lambda>ts. append_points ts True" trim_head reconcile
proof
  show "\<exists>b'. append_points ts True b = (b', Inr (last_n (win_cap (window_of b)) ts)) \<and> buffer_ok b' \<and>
      window_of b' = win_append ts (window_of b)"
    if "buffer_ok b" "ts \<noteq> []" for b :: "'a data_buffer" and ts
    using append_spec [OF that] by (metis window_of_def window.select_convs(1))
  show "\<exists>b'. trim_head k b = (b', Inr ()) \<and> buffer_ok b' \<and> window_of b' = win_trim k (window_of b)"
    if "buffer_ok b" for b :: "'a data_buffer" and k
    using trim_head_spec [OF that] by metis
  show "\<exists>b'. reconcile n b = Some b' \<and> buffer_ok b' \<and> window_of b' = win_grow n (window_of b) \<and> n \<le> win_cap (window_of b')"
    if "buffer_ok b" for b :: "'a data_buffer" and n
    using reconcile_spec [OF that, of n] by (metis window_of_def window.select_convs(1))
qed

text \<open>Committing later is the same as committing at once.\<close>

lemma append_then_commit:
  "append_points ts True b = (case append_points ts False b of (b1, Inr r) \<Rightarrow> (commit b1, Inr r) | (b1, Inl e) \<Rightarrow> (b1, Inl e))"
  by (simp add: append_points_def obind_def Let_def split: prod.splits sum.splits)

subsection \<open>Sequences of operations\<close>

datatype 'a buffer_op = Append "'a list" | Trim int | Reconcile nat | Clear

fun buffer_step :: "'a buffer_op \<Rightarrow> 'a data_buffer \<Rightarrow> 'a data_buffer option" where
  "buffer_step (Append ts) b = (case append_points ts True b of (b', Inr _) \<Rightarrow> Some b' | (b', Inl _) \<Rightarrow> None)"
| "buffer_step (Trim k) b = (case trim_head k b of (b', Inr _) \<Rightarrow> Some b' | (b', Inl _) \<Rightarrow> None)"
| "buffer_step (Reconcile n) b = reconcile n b"
| "buffer_step Clear b = Some (clear_buffer b)"

fun run_buffer :: "'a buffer_op list \<Rightarrow> 'a data_buffer \<Rightarrow> 'a data_buffer option" where
  "run_buffer [] b = Some b"
| "run_buffer (x # xs) b = Option.bind (buffer_step x b) (run_buffer xs)"

fun window_step :: "'a buffer_op \<Rightarrow> 'a window \<Rightarrow> 'a window" where
  "window_step (Append ts) = win_append ts"
| "window_step (Trim k) = win_trim k"
| "window_step (Reconcile n) = win_grow n"
| "window_step Clear = win_clear"

lemma buffer_step_simulates:
  assumes "buffer_ok b" "x \<noteq> Append []"
  obtains b' where "buffer_step x b = Some b'" "buffer_ok b'" "window_of b' = window_step x (window_of b)"
proof (cases x)
  case (Append ts)
  then show ?thesis
    using buffer.add_law [OF assms(1), of ts] assms(2) that by fastforce
next
  case (Trim k)
  then show ?thesis
    using buffer.trim_law [OF assms(1), of k] that by fastforce
next
  case (Reconcile n)
  then show ?thesis
    using buffer.grow_law [OF assms(1), of n] that by fastforce
next
  case Clear
  then show ?thesis
    using that [of "clear_buffer b"] assms(1)
    by (simp add: clear_buffer_def buffer_ok_def window_of_def win_clear_def datapoints_def)
qed

subsection \<open>Properties\<close>

text \<open>
  C13. The buffer refines the bounded window: from a consistent buffer every sequence of appends of
  non-empty batches, trims, growths and clears returns without an exception and shows the points of
  the window, which keeps the newest points up to its capacity.
\<close>

theorem buffer_refines_window:
  assumes "buffer_ok b" "Append [] \<notin> set ops"
  shows "\<exists>b'. run_buffer ops b = Some b' \<and> buffer_ok b' \<and> window_of b' = fold window_step ops (window_of b)"
  using assms
proof (induction ops arbitrary: b)
  case (Cons x xs)
  obtain b1 where "buffer_step x b = Some b1" "buffer_ok b1" "window_of b1 = window_step x (window_of b)"
    using buffer_step_simulates [OF Cons.prems(1), of x] Cons.prems(2) by auto
  then show ?case
    using Cons.IH [of b1] Cons.prems(2) by simp
qed simp

theorem buffer_refines_window_witness:
  "\<exists>b'. run_buffer [Append [1, 2], Append [3, 4 :: nat], Trim (- 1)] (DataBuffer [0, 0, 0]) = Some b' \<and> buffer_ok b' \<and>
     window_of b' = fold window_step [Append [1, 2], Append [3, 4], Trim (- 1)] (window_of (DataBuffer [0, 0, 0]))"
  by (rule buffer_refines_window) (simp_all add: DataBuffer_def buffer_ok_def)

end
