(* ===== verification/Load_Clusterer.thy ===== *)
theory Load_Clusterer
  imports Load_Buffer Floats "HOL-Library.AList" "HOL-Library.Sublist"
begin

text \<open>
  Points, centroids and clusterers of the load monitor (\<open>gpu_optimizer/load_monitor/helpers.py\<close> and
  \<open>clusterer.py\<close>). The third-party incremental DBSCAN enters as a function \<open>dbscan\<close> from the points
  inserted since its creation and the points asked for to their labels; the object itself is the
  list of the points inserted. The reason string kept for the log is left out.
\<close>

subsection \<open>Points\<close>

text \<open>Output tokens, input tokens and age.\<close>

type_synonym datapoint = "flt \<times> flt \<times> flt"

definition DataPoint :: "flt \<Rightarrow> flt \<Rightarrow> flt \<Rightarrow> datapoint" where
  "DataPoint a b age = (a, b, age)"

definition point_age :: "datapoint \<Rightarrow> flt" where
  "point_age p = snd (snd p)"

definition point_signature :: "datapoint \<Rightarrow> flt list" where
  "point_signature p = [fst p, fst (snd p)]"

subsection \<open>Centroids\<close>

record centeroid =
  cen_sum :: "flt list option"
  cen_min :: "flt list"
  cen_max :: "flt list"
  cen_span_min :: flt
  cen_span_max :: flt
  cen_span :: flt
  cen_size :: nat
  cen_signature :: "nat list option"
  cen_up_to_date :: bool

definition Centeroid :: "flt \<Rightarrow> centeroid" where
  "Centeroid sp = \<lparr>cen_sum = None, cen_min = [], cen_max = [], cen_span_min = Fin 0, cen_span_max = Fin 0,
     cen_span = sp, cen_size = 0, cen_signature = None, cen_up_to_date = False\<rparr>"

definition add_point :: "datapoint \<Rightarrow> centeroid \<Rightarrow> centeroid" where
  "add_point p c =
     (let sg = point_signature p; age = point_age p in
      (case cen_sum c of
         None \<Rightarrow> c\<lparr>cen_sum := Some sg, cen_min := sg, cen_max := sg, cen_span_max := age, cen_span_min := age,
                   cen_signature := Some (replicate (length sg) 0)\<rparr>
       | Some s \<Rightarrow> c\<lparr>cen_sum := Some (map2 (+) s sg), cen_min := map2 py_min (cen_min c) sg,
                   cen_max := map2 py_max (cen_max c) sg, cen_span_min := py_min (cen_span_min c) age,
                   cen_span_max := py_max (cen_span_max c) age, cen_up_to_date := False\<rparr>)
      \<lparr>cen_size := cen_size c + 1\<rparr>)"

definition center :: "centeroid \<Rightarrow> py_error + flt list" where
  "center c = (case cen_sum c of
     None \<Rightarrow> Inl TypeError
   | Some s \<Rightarrow> Inr (map (\<lambda>v. v / Fin (real (cen_size c))) s))"

definition radius :: "centeroid \<Rightarrow> flt" where
  "radius c = py_max_by id (map2 (\<lambda>hi lo. (hi - lo) / Fin 2) (cen_max c) (cen_min c))"

definition span_of :: "centeroid \<Rightarrow> flt" where
  "span_of c =
     (if cen_span c > Fin 0 then cen_span c
      else if cen_span_max c = cen_span_min c \<and> cen_span_max c \<noteq> NaN then Fin 1
      else cen_span_max c - cen_span_min c)"

definition rate :: "centeroid \<Rightarrow> flt" where
  "rate c = Fin (real (cen_size c)) / span_of c"

definition signature :: "centeroid \<Rightarrow> py_error + nat list" where
  "signature c =
     (if \<not> cen_up_to_date c then Inl Exception
      else case cen_signature c of None \<Rightarrow> Inl Exception | Some sg \<Rightarrow> Inr sg)"

definition to_array :: "centeroid \<Rightarrow> py_error + flt list" where
  "to_array c = (case center c of Inl e \<Rightarrow> Inl e | Inr xs \<Rightarrow> Inr (xs @ [radius c, rate c]))"

subsection \<open>Index signatures\<close>

text \<open>
  The error suppressor gets the dimension, the value, the index assigned, the value of that index
  and the offset.
\<close>

type_synonym suppressor = "nat \<Rightarrow> flt \<Rightarrow> nat \<Rightarrow> flt \<Rightarrow> flt \<Rightarrow> bool"

function (sequential) index_search :: "flt list \<Rightarrow> flt \<Rightarrow> nat \<Rightarrow> nat \<Rightarrow> nat + nat \<times> nat" where
  "index_search idx value left right =
     (if left + 1 < right then
        let mid = (left + right) div 2 in
        if value < idx ! mid then index_search idx value left mid
        else if value > idx ! mid then index_search idx value mid right
        else Inl mid
      else Inr (left, right))"
  by pat_completeness auto
termination index_search
  by (relation "measure (\<lambda>(idx, v, l, r). r - l)") auto

text \<open>The index of one dimension; \<open>None\<close> leaves the stored one.\<close>

definition dimension_index :: "suppressor option \<Rightarrow> nat \<Rightarrow> flt \<Rightarrow> flt list \<Rightarrow> py_error + nat option" where
  "dimension_index esup i value idx =
     (let n = length idx; tolerance = Fin (1 / 2) in
      if n = 0 then Inl Exception
      else if n = 1 then Inr (Some 0)
      else
        let distance = (last idx - hd idx) / Fin (real (n - 1)) in
        if value < hd idx then
          let offset = - distance * (Fin 1 - tolerance) in
          if value \<ge> hd idx + offset then Inr (Some 0)
          else (case esup of
                  Some f \<Rightarrow> Inr (if f i value 0 (hd idx) offset then Some 0 else None)
                | None \<Rightarrow> Inl Exception)
        else if value > last idx then
          let offset = distance * tolerance in
          if value \<le> hd idx + offset then Inr (Some (n - 1))
          else (case esup of
                  Some f \<Rightarrow> Inr (if f i value (n - 1) (last idx) distance then Some (n - 1) else None)
                | None \<Rightarrow> Inl Exception)
        else
          (case index_search idx value 0 (n - 1) of
             Inl mid \<Rightarrow> Inr (Some mid)
           | Inr (left, right) \<Rightarrow>
               Inr (Some (if value < idx ! left + (idx ! right - idx ! left) * tolerance then left else right))))"

fun signature_loop :: "suppressor option \<Rightarrow> flt list list \<Rightarrow> nat \<Rightarrow> flt list \<Rightarrow> nat list \<Rightarrow> (nat list, unit) outcome" where
  "signature_loop esup indexes i [] sg = (sg, Inr ())"
| "signature_loop esup indexes i (v # vs) sg =
     (case dimension_index esup i v (indexes ! i) of
        Inl e \<Rightarrow> (sg, Inl e)
      | Inr None \<Rightarrow> signature_loop esup indexes (i + 1) vs sg
      | Inr (Some k) \<Rightarrow> signature_loop esup indexes (i + 1) vs (sg[i := k]))"

definition get_signature :: "flt list list \<Rightarrow> suppressor option \<Rightarrow> centeroid \<Rightarrow> (centeroid, nat list) outcome" where
  "get_signature indexes esup c =
     (case (cen_signature c, center c) of
        (Some sg, Inr vs) \<Rightarrow>
          if length sg \<noteq> length indexes then (c, Inl Exception)
          else if cen_up_to_date c then (c, Inr sg)
          else (case signature_loop esup indexes 0 vs sg of
                  (sg', Inl e) \<Rightarrow> (c\<lparr>cen_signature := Some sg'\<rparr>, Inl e)
                | (sg', Inr _) \<Rightarrow> (c\<lparr>cen_signature := Some sg', cen_up_to_date := True\<rparr>, Inr sg'))
      | _ \<Rightarrow> (c, Inl TypeError))"

subsection \<open>The clusterer\<close>

record db_clusterer =
  db_eps :: flt
  db_min_pts :: nat
  db_points :: "datapoint list"
  db_length :: nat
  db_start :: flt
  db_end :: flt
  db_created :: flt

definition reset_clusterer :: "flt \<Rightarrow> db_clusterer \<Rightarrow> db_clusterer" where
  "reset_clusterer now c = c\<lparr>db_points := [], db_start := PInf, db_end := Fin 1, db_length := 0, db_created := now\<rparr>"

definition DBSCANClusterer :: "flt \<Rightarrow> flt \<Rightarrow> nat \<Rightarrow> db_clusterer" where
  "DBSCANClusterer now eps min_pts = reset_clusterer now
     \<lparr>db_eps = eps, db_min_pts = min_pts, db_points = [], db_length = 0, db_start = PInf, db_end = Fin 1, db_created = now\<rparr>"

text \<open>\<open>min(x)\<close> of a single number raises, so an insert without points does.\<close>

definition insert_points :: "datapoint list \<Rightarrow> db_clusterer \<Rightarrow> (db_clusterer, unit) outcome" where
  "insert_points ps c =
     (let c1 = c\<lparr>db_points := db_points c @ ps, db_length := db_length c + length ps\<rparr>;
          ages = map point_age ps
      in if ages = [] then (c1, Inl TypeError)
         else (c1\<lparr>db_start := foldl py_min (db_start c) ages, db_end := foldl py_max (db_end c) ages\<rparr>, Inr ()))"

definition clone :: "flt \<Rightarrow> db_clusterer \<Rightarrow> db_clusterer" where
  "clone now c = DBSCANClusterer now (db_eps c) (db_min_pts c)"

definition db_window :: "db_clusterer \<Rightarrow> flt" where
  "db_window c = (if db_end c = Fin 0 \<or> (db_end c = db_start c \<and> db_end c \<noteq> NaN) then Fin 1 else db_end c - db_start c)"

text \<open>The pass over the labelled points: the centroids by label, the least label and the noise.\<close>

fun label_pass ::
  "flt \<Rightarrow> (flt \<times> datapoint) list \<Rightarrow> flt \<Rightarrow> (flt \<times> centeroid) list \<Rightarrow> datapoint list \<Rightarrow>
   flt \<times> (flt \<times> centeroid) list \<times> datapoint list" where
  "label_pass sp [] start centers noise = (start, centers, noise)"
| "label_pass sp ((label, p) # rest) start centers noise =
     (if label = NaN then label_pass sp rest start centers noise
      else if label < Fin 0 then label_pass sp rest start centers (noise @ [p])
      else
        let c = (case map_of centers label of None \<Rightarrow> Centeroid sp | Some c \<Rightarrow> c) in
        label_pass sp rest (py_min start label) (AList.update label (add_point p c) centers) noise)"

definition maxsize :: flt where
  "maxsize = Fin (2 ^ 63 - 1)"

text \<open>The labels, the centroids in the order of their labels' first use, and the noise.\<close>

definition get_cluster_labels ::
  "(flt \<Rightarrow> nat \<Rightarrow> flt list list \<Rightarrow> flt list list \<Rightarrow> flt list) \<Rightarrow> datapoint list \<Rightarrow> db_clusterer \<Rightarrow>
   flt list \<times> centeroid list \<times> datapoint list" where
  "get_cluster_labels dbscan ps c =
     (let labels = dbscan (db_eps c) (db_min_pts c) (map point_signature (db_points c)) (map point_signature ps);
          (start, centers, noise) = label_pass (db_window c) (zip labels ps) maxsize [] [];
          start_label = (if start = maxsize then Fin 0 else start)
      in (if start_label \<noteq> Fin 0 then map (\<lambda>l. if l \<ge> Fin 0 then l - start_label else l) labels else labels,
          map snd centers, noise))"

subsection \<open>The moving clusterer\<close>

text \<open>A window of a number of points or of a time.\<close>

datatype window_size = PointsWindow int | TimeWindow flt

record moving_clusterer =
  mv_window :: window_size
  mv_buffer_size :: int
  mv_frontier :: nat
  mv_clusterers :: "db_clusterer list"

definition MovingDBSCANClusterer :: "flt \<Rightarrow> flt \<Rightarrow> nat \<Rightarrow> int \<Rightarrow> window_size \<Rightarrow> moving_clusterer" where
  "MovingDBSCANClusterer now eps min_pts buffer_size w =
     \<lparr>mv_window = w, mv_buffer_size = buffer_size, mv_frontier = 0, mv_clusterers = [DBSCANClusterer now eps min_pts]\<rparr>"

definition window_cb :: "flt \<Rightarrow> moving_clusterer \<Rightarrow> db_clusterer \<Rightarrow> py_error + bool" where
  "window_cb now mc c =
     (if mv_buffer_size mc = 0 then Inl ZeroDivisionError
      else Inr (case mv_window mc of
        PointsWindow w \<Rightarrow> Fin (real (db_length c)) \<ge> Fin (of_int w) / Fin (of_int (mv_buffer_size mc))
      | TimeWindow w \<Rightarrow> now - db_created c \<ge> w / Fin (of_int (mv_buffer_size mc))))"

definition current_index :: "moving_clusterer \<Rightarrow> nat" where
  "current_index mc = (mv_frontier mc + 1) mod length (mv_clusterers mc)"

definition current_clusterer :: "moving_clusterer \<Rightarrow> db_clusterer" where
  "current_clusterer mc = mv_clusterers mc ! current_index mc"

text \<open>\<open>validate\<close>: whether the oldest clusterer was dropped and the data has to follow.\<close>

definition validate :: "flt \<Rightarrow> moving_clusterer \<Rightarrow> (moving_clusterer, bool) outcome" where
  "validate now mc =
     (let cs = mv_clusterers mc; current = current_index mc in
      case window_cb now mc (cs ! mv_frontier mc) of
        Inl e \<Rightarrow> (mc, Inl e)
      | Inr False \<Rightarrow> (mc, Inr False)
      | Inr True \<Rightarrow>
          if int (length cs) < mv_buffer_size mc
          then (mc\<lparr>mv_clusterers := cs @ [clone now (cs ! current)], mv_frontier := length cs\<rparr>, Inr False)
          else (mc\<lparr>mv_clusterers := cs[current := reset_clusterer now (cs ! current)], mv_frontier := current\<rparr>, Inr True))"

fun insert_all :: "datapoint list \<Rightarrow> db_clusterer list \<Rightarrow> (db_clusterer list, unit) outcome" where
  "insert_all ps [] = ([], Inr ())"
| "insert_all ps (c # cs) =
     (case insert_points ps c of
        (c', Inl e) \<Rightarrow> (c' # cs, Inl e)
      | (c', Inr _) \<Rightarrow> (case insert_all ps cs of (cs', r) \<Rightarrow> (c' # cs', r)))"

definition insert_moving :: "datapoint list \<Rightarrow> moving_clusterer \<Rightarrow> (moving_clusterer, unit) outcome" where
  "insert_moving ps mc = (case insert_all ps (mv_clusterers mc) of (cs, r) \<Rightarrow> (mc\<lparr>mv_clusterers := cs\<rparr>, r))"

definition reset_moving :: "flt \<Rightarrow> moving_clusterer \<Rightarrow> moving_clusterer" where
  "reset_moving now mc = mc\<lparr>mv_clusterers := [clone now (hd (mv_clusterers mc))], mv_frontier := 0\<rparr>"

definition moving_length :: "moving_clusterer \<Rightarrow> nat" where
  "moving_length mc = db_length (current_clusterer mc)"

definition moving_window :: "moving_clusterer \<Rightarrow> flt" where
  "moving_window mc = db_window (current_clusterer mc)"

subsection \<open>The signature names the nearest ticks\<close>

declare index_search.simps [simp del]

definition nearest :: "real list \<Rightarrow> real \<Rightarrow> nat \<Rightarrow> bool" where
  "nearest rs v k \<longleftrightarrow> k < length rs \<and> (\<forall>j < length rs. \<bar>v - rs ! k\<bar> \<le> \<bar>v - rs ! j\<bar>)"

lemma index_search_spec:
  assumes "l < r" "r < length rs" "rs ! l \<le> v" "v \<le> rs ! r"
  shows "case index_search (map Fin rs) (Fin v) l r of
      Inl m \<Rightarrow> m < length rs \<and> rs ! m = v
    | Inr (a, b) \<Rightarrow> b = a + 1 \<and> b < length rs \<and> rs ! a \<le> v \<and> v \<le> rs ! b"
  using assms
proof (induction "r - l" arbitrary: l r rule: less_induct)
  case less
  let ?m = "(l + r) div 2"
  show ?case
  proof (cases "l + 1 < r")
    case True
    then have m: "l < ?m" "?m < r"
      by auto
    have at: "map Fin rs ! ?m = Fin (rs ! ?m)"
      using m less.prems(2) by simp
    have step: "index_search (map Fin rs) (Fin v) l r =
        (if v < rs ! ?m then index_search (map Fin rs) (Fin v) l ?m
         else if v > rs ! ?m then index_search (map Fin rs) (Fin v) ?m r else Inl ?m)"
      using True at by (subst index_search.simps) (simp add: Let_def)
    consider "v < rs ! ?m" | "v > rs ! ?m" | "v = rs ! ?m"
      by linarith
    then show ?thesis
    proof cases
      case 1
      then show ?thesis
        using less.hyps [of ?m l] less.prems m step by simp
    next
      case 2
      then show ?thesis
        using less.hyps [of r ?m] less.prems m step by simp
    next
      case 3
      then show ?thesis
        using less.prems(2) m(2) step by simp
    qed
  next
    case False
    then have "index_search (map Fin rs) (Fin v) l r = Inr (l, r)"
      by (subst index_search.simps) simp
    then show ?thesis
      using False less.prems by simp
  qed
qed

lemma nearest_between:
  assumes "sorted rs" "a + 1 < length rs" "rs ! a \<le> v" "v \<le> rs ! (a + 1)"
  shows "nearest rs v (if v < rs ! a + (rs ! (a + 1) - rs ! a) * (1 / 2) then a else a + 1)"
proof -
  have outside: "rs ! j \<le> rs ! a \<or> rs ! (a + 1) \<le> rs ! j" if "j < length rs" for j
    using that assms(1,2) sorted_nth_mono [of rs] by (cases "j \<le> a") auto
  show ?thesis
  proof (cases "v < rs ! a + (rs ! (a + 1) - rs ! a) * (1 / 2)")
    case True
    then have "\<bar>v - rs ! a\<bar> \<le> \<bar>v - rs ! j\<bar>" if "j < length rs" for j
      using outside [OF that] assms(3,4) by (auto simp: abs_le_iff abs_if field_simps)
    then show ?thesis
      using True assms(2) by (simp add: nearest_def)
  next
    case False
    then have "\<bar>v - rs ! (a + 1)\<bar> \<le> \<bar>v - rs ! j\<bar>" if "j < length rs" for j
      using outside [OF that] assms(3,4) by (auto simp: abs_le_iff abs_if field_simps)
    then show ?thesis
      using False assms(2) by (simp add: nearest_def)
  qed
qed

lemma nearest_ends:
  assumes "sorted rs" "rs \<noteq> []"
  shows "v \<le> hd rs \<Longrightarrow> nearest rs v 0" and "last rs \<le> v \<Longrightarrow> nearest rs v (length rs - 1)"
proof -
  have ends: "hd rs \<le> rs ! j" "rs ! j \<le> last rs" if "j < length rs" for j
    using that assms sorted_nth_mono [of rs 0 j] sorted_nth_mono [of rs j "length rs - 1"]
    by (auto simp: hd_conv_nth last_conv_nth)
  show "nearest rs v 0" if "v \<le> hd rs"
    unfolding nearest_def
  proof (intro conjI allI impI)
    show "\<bar>v - rs ! 0\<bar> \<le> \<bar>v - rs ! j\<bar>" if "j < length rs" for j
      using ends(1) [OF that] \<open>v \<le> hd rs\<close> assms(2) by (simp add: hd_conv_nth)
  qed (use assms in simp)
  show "nearest rs v (length rs - 1)" if "last rs \<le> v"
    unfolding nearest_def
  proof (intro conjI allI impI)
    show "\<bar>v - rs ! (length rs - 1)\<bar> \<le> \<bar>v - rs ! j\<bar>" if "j < length rs" for j
      using ends(2) [OF that] \<open>last rs \<le> v\<close> assms(2) by (simp add: last_conv_nth)
  qed (use assms in simp)
qed

text \<open>A suppressor that accepts every value makes the index total, and it is the nearest tick.\<close>

lemma dimension_index_nearest:
  assumes "sorted rs" "rs \<noteq> []" "\<And>i v k w off. f i v k w off"
  obtains k where "dimension_index (Some f) i (Fin v) (map Fin rs) = Inr (Some k)" "nearest rs v k"
proof -
  let ?n = "length rs"
  have n: "?n - 1 < ?n"
    using assms(2) by simp
  have ends: "hd (map Fin rs) = Fin (hd rs)" "last (map Fin rs) = Fin (last rs)"
    using assms(2) by (simp_all add: hd_map last_map)
  have "?n = 1 \<or> ?n > 1"
    using assms(2) by (cases rs) auto
  then consider "?n = 1" | "?n > 1" "v < hd rs" | "?n > 1" "v > last rs" "\<not> v < hd rs"
    | "?n > 1" "\<not> v < hd rs" "\<not> v > last rs"
    by blast
  then show ?thesis
  proof cases
    case 1
    then have "nearest rs v 0"
      by (simp add: nearest_def)
    then show ?thesis
      using that 1 by (simp add: dimension_index_def Let_def)
  next
    case 2
    then have "dimension_index (Some f) i (Fin v) (map Fin rs) = Inr (Some 0)"
      using assms(2,3) ends by (simp add: dimension_index_def Let_def)
    then show ?thesis
      using that nearest_ends(1) [OF assms(1,2), of v] 2 by simp
  next
    case 3
    then have "dimension_index (Some f) i (Fin v) (map Fin rs) = Inr (Some (?n - 1))"
      using assms(2,3) ends by (simp add: dimension_index_def Let_def)
    then show ?thesis
      using that nearest_ends(2) [OF assms(1,2), of v] 3 by simp
  next
    case 4
    have spec: "case index_search (map Fin rs) (Fin v) 0 (?n - 1) of
        Inl m \<Rightarrow> m < ?n \<and> rs ! m = v
      | Inr (a, b) \<Rightarrow> b = a + 1 \<and> b < ?n \<and> rs ! a \<le> v \<and> v \<le> rs ! b"
      using 4 assms(2) by (intro index_search_spec) (auto simp: hd_conv_nth last_conv_nth)
    have inside: "dimension_index (Some f) i (Fin v) (map Fin rs) =
        (case index_search (map Fin rs) (Fin v) 0 (?n - 1) of
           Inl mid \<Rightarrow> Inr (Some mid)
         | Inr (l, r) \<Rightarrow> Inr (Some (if Fin v < map Fin rs ! l + (map Fin rs ! r - map Fin rs ! l) * Fin (1 / 2) then l else r)))"
      using 4 assms(2) ends by (simp add: dimension_index_def Let_def)
    show ?thesis
    proof (cases "index_search (map Fin rs) (Fin v) 0 (?n - 1)")
      case (Inl m)
      then have "nearest rs v m"
        using spec by (simp add: nearest_def)
      then show ?thesis
        using that inside Inl by simp
    next
      case (Inr ab)
      then obtain a where ab: "ab = (a, a + 1)" "a + 1 < ?n" "rs ! a \<le> v" "v \<le> rs ! (a + 1)"
        using spec by (auto split: prod.splits)
      then show ?thesis
        using that inside Inr nearest_between [OF assms(1) ab(2-4)] by (simp split: if_splits)
    qed
  qed
qed

text \<open>
  Without a suppressor a value above the last tick is refused even within the tolerance, because the
  code adds the tolerance to the first tick.
\<close>

lemma above_last_tick_refused:
  assumes "sorted rs" "length rs > 2" "hd rs < last rs" "last rs < v"
  shows "dimension_index None i (Fin v) (map Fin rs) = Inl Exception"
proof -
  have "rs \<noteq> []"
    using assms(2) by auto
  then have ends: "hd (map Fin rs) = Fin (hd rs)" "last (map Fin rs) = Fin (last rs)"
    by (simp_all add: hd_map last_map)
  have "(last rs - hd rs) / real (length rs - 1) \<le> last rs - hd rs"
    using assms(2,3) by (simp add: divide_le_eq)
  moreover have "h + d * (1 / 2) < v" if "d \<le> l - h" "h < l" "l < v" for h d l :: real
    using that by linarith
  ultimately have "hd rs + (last rs - hd rs) / real (length rs - 1) * (1 / 2) < v"
    using assms(3,4) by blast
  then show ?thesis
    using assms ends by (auto simp: dimension_index_def Let_def)
qed

subsection \<open>The clusterers form a ring of nested windows\<close>

text \<open>Oldest first: the clusterer after the frontier is the current one, the frontier is the newest.\<close>

definition ring :: "moving_clusterer \<Rightarrow> db_clusterer list" where
  "ring mc = rotate (mv_frontier mc + 1) (mv_clusterers mc)"

definition moving_ok :: "moving_clusterer \<Rightarrow> bool" where
  "moving_ok mc \<longleftrightarrow> mv_clusterers mc \<noteq> [] \<and> mv_frontier mc < length (mv_clusterers mc) \<and> mv_buffer_size mc \<noteq> 0 \<and>
     (int (length (mv_clusterers mc)) < mv_buffer_size mc \<longrightarrow> mv_frontier mc + 1 = length (mv_clusterers mc))"

definition nested :: "db_clusterer list \<Rightarrow> bool" where
  "nested cs \<longleftrightarrow> sorted_wrt (\<lambda>a b. suffix (db_points b) (db_points a)) cs \<and> (\<forall>c \<in> set cs. db_length c = length (db_points c))"

text \<open>The current clusterer holds exactly the points \<open>ps\<close>, every newer one a suffix of them.\<close>

definition holds :: "datapoint list \<Rightarrow> moving_clusterer \<Rightarrow> bool" where
  "holds ps mc \<longleftrightarrow> moving_ok mc \<and> nested (ring mc) \<and> db_points (current_clusterer mc) = ps"

lemma current_is_oldest: "moving_ok mc \<Longrightarrow> current_clusterer mc = hd (ring mc) \<and> ring mc \<noteq> []"
  using hd_rotate_conv_nth [of "mv_clusterers mc" "mv_frontier mc + 1"]
  by (simp add: current_clusterer_def current_index_def ring_def moving_ok_def)

lemma holds_length: "holds ps mc \<Longrightarrow> moving_length mc = length ps"
  unfolding holds_def moving_length_def nested_def
  using current_is_oldest [of mc] hd_in_set [of "ring mc"] by metis

lemma new_moving_holds: "buffer_size \<noteq> 0 \<Longrightarrow> holds [] (MovingDBSCANClusterer now eps k buffer_size w)"
  by (simp add: holds_def moving_ok_def nested_def ring_def current_clusterer_def current_index_def
      MovingDBSCANClusterer_def DBSCANClusterer_def reset_clusterer_def rotate1_def)

lemma fresh_clusterer [simp]:
  "db_points (clone now c) = []" "db_length (clone now c) = 0"
  "db_points (reset_clusterer now c) = []" "db_length (reset_clusterer now c) = 0"
  by (simp_all add: clone_def DBSCANClusterer_def reset_clusterer_def)

lemma nested_snoc: "nested cs \<Longrightarrow> db_points c = [] \<Longrightarrow> db_length c = 0 \<Longrightarrow> nested (cs @ [c])"
  by (auto simp: nested_def sorted_wrt_append)

lemma ring_grow:
  assumes "mv_frontier mc + 1 = length (mv_clusterers mc)"
  shows "ring (mc\<lparr>mv_clusterers := mv_clusterers mc @ [c], mv_frontier := length (mv_clusterers mc)\<rparr>) = ring mc @ [c]"
proof -
  have "rotate (length xs) xs = xs" for xs :: "db_clusterer list"
    by simp
  from this [of "mv_clusterers mc @ [c]"] show ?thesis
    using assms by (simp add: ring_def)
qed

lemma ring_turn:
  assumes "moving_ok mc"
  shows "ring (mc\<lparr>mv_clusterers := (mv_clusterers mc)[current_index mc := c], mv_frontier := current_index mc\<rparr>)
    = tl (ring mc) @ [c]"
proof -
  let ?cs = "mv_clusterers mc" and ?k = "current_index mc"
  have k: "?k < length ?cs"
    using assms by (simp add: current_index_def moving_ok_def)
  have "ring mc = rotate ?k ?cs"
    using rotate_conv_mod [of "mv_frontier mc + 1" ?cs] by (simp add: ring_def current_index_def)
  also have "\<dots> = drop ?k ?cs @ take ?k ?cs"
    using k by (simp add: rotate_drop_take)
  finally have "tl (ring mc) = drop (Suc ?k) ?cs @ take ?k ?cs"
    using k by (simp add: drop_Suc tl_drop)
  moreover have "rotate ?k (?cs[?k := c]) = c # drop (Suc ?k) ?cs @ take ?k ?cs"
    using k by (simp add: rotate_drop_take Cons_nth_drop_Suc [symmetric])
  ultimately show ?thesis
    by (simp add: ring_def)
qed

lemma validate_holds:
  assumes "holds ps mc"
  obtains mc' r qs where "validate now mc = (mc', Inr r)" "holds qs mc'" "suffix qs ps" "r \<or> qs = ps"
proof -
  let ?cs = "mv_clusterers mc" and ?k = "current_index mc"
  have ok: "moving_ok mc" and nest: "nested (ring mc)" and cur: "db_points (hd (ring mc)) = ps" "ring mc \<noteq> []"
    using assms current_is_oldest [of mc] by (auto simp: holds_def)
  obtain r where r: "window_cb now mc (?cs ! mv_frontier mc) = Inr r"
    using ok by (simp add: window_cb_def moving_ok_def)
  consider "\<not> r" | "r" "int (length ?cs) < mv_buffer_size mc" | "r" "\<not> int (length ?cs) < mv_buffer_size mc"
    by blast
  then show ?thesis
  proof cases
    case 1
    then show ?thesis
      using that [of mc False ps] assms r by (simp add: validate_def Let_def)
  next
    case 2
    let ?mc = "mc\<lparr>mv_clusterers := ?cs @ [clone now (?cs ! ?k)], mv_frontier := length ?cs\<rparr>"
    have "validate now mc = (?mc, Inr False)"
      using 2 r by (simp add: validate_def Let_def)
    moreover have ring: "ring ?mc = ring mc @ [clone now (?cs ! ?k)]"
      using ring_grow 2 ok by (simp add: moving_ok_def)
    moreover have "moving_ok ?mc"
      using 2 ok by (auto simp: moving_ok_def)
    ultimately show ?thesis
      using that [of ?mc False ps] current_is_oldest [of ?mc] nested_snoc [OF nest] cur by (simp add: holds_def)
  next
    case 3
    let ?c = "reset_clusterer now (?cs ! ?k)"
    let ?mc = "mc\<lparr>mv_clusterers := ?cs[?k := ?c], mv_frontier := ?k\<rparr>"
    have v: "validate now mc = (?mc, Inr True)"
      using 3 r by (simp add: validate_def Let_def)
    have ring: "ring ?mc = tl (ring mc) @ [?c]"
      using ring_turn [OF ok] .
    have mok: "moving_ok ?mc"
      using 3 ok by (auto simp: moving_ok_def current_index_def)
    have "nested (tl (ring mc))"
      using nest cur(2) by (cases "ring mc") (auto simp: nested_def)
    then have n: "nested (ring ?mc)"
      using ring nested_snoc by simp
    have "suffix (db_points (hd (ring ?mc))) ps"
      using ring cur nest by (cases "ring mc"; cases "tl (ring mc)") (auto simp: nested_def)
    then show ?thesis
      using that [OF v, of "db_points (hd (ring ?mc))"] n mok current_is_oldest [OF mok] by (simp add: holds_def)
  qed
qed

lemma insert_all_spec:
  assumes "ps \<noteq> []"
  obtains f where "\<And>cs. insert_all ps cs = (map f cs, Inr ())" "\<And>c. db_points (f c) = db_points c @ ps"
    "\<And>c. db_length (f c) = db_length c + length ps"
proof -
  define f where "f c = fst (insert_points ps c)" for c
  have one: "insert_points ps c = (f c, Inr ())" for c
    using assms by (simp add: f_def insert_points_def Let_def)
  have "insert_all ps cs = (map f cs, Inr ())" for cs
    by (induction cs) (simp_all add: one)
  moreover have "db_points (f c) = db_points c @ ps" "db_length (f c) = db_length c + length ps" for c
    by (simp_all add: f_def insert_points_def Let_def)
  ultimately show ?thesis
    using that by blast
qed

lemma insert_holds:
  assumes "holds ps mc" "qs \<noteq> []"
  obtains mc' where "insert_moving qs mc = (mc', Inr ())" "holds (ps @ qs) mc'"
proof -
  obtain f where f: "\<And>cs. insert_all qs cs = (map f cs, Inr ())" "\<And>c. db_points (f c) = db_points c @ qs"
    "\<And>c. db_length (f c) = db_length c + length qs"
    using insert_all_spec [OF assms(2)] by metis
  let ?mc = "mc\<lparr>mv_clusterers := map f (mv_clusterers mc)\<rparr>"
  have ok: "moving_ok mc" "nested (ring mc)" "db_points (hd (ring mc)) = ps" "ring mc \<noteq> []"
    using assms current_is_oldest [of mc] by (auto simp: holds_def)
  have mok: "moving_ok ?mc"
    using ok(1) by (simp add: moving_ok_def)
  have ring: "ring ?mc = map f (ring mc)"
    by (simp add: ring_def rotate_map rotate1_map)
  have "suffix (b @ qs) (a @ qs)" if "suffix b a" for a b
    using that by (auto simp: suffix_def)
  then have "nested (ring ?mc)"
    using ok(2) f by (auto simp: nested_def ring sorted_wrt_map elim!: sorted_wrt_mono_rel [rotated])
  then have "holds (ps @ qs) ?mc"
    using mok current_is_oldest [OF mok] ok(3,4) ring f by (simp add: holds_def hd_map)
  then show ?thesis
    using that f(1) by (simp add: insert_moving_def)
qed

end
