(* ===== verification/GPU_Optimizer.thy ===== *)
theory GPU_Optimizer
  imports Load_Clusterer
begin

text \<open>
  The GPU optimizer (\<open>gpu_optimizer/optimizer/optimizer.py\<close>, \<open>types.py\<close>) and its Melange solver
  (\<open>solver/melange\<close>): throughput profiles, the distribution of the workload over the cells of the
  throughput table, and the integer program handed to PuLP. The program's solution is a parameter
  \<open>lp\<close>; the workload profiles are the centroids of the load monitor.
\<close>

subsection \<open>Profiles\<close>

text \<open>
  \<open>gp_integral\<close>: the throughputs are all integers, so an array made from them has an integer type.
\<close>

record gpu_profile =
  gp_gpu :: string
  gp_cost :: flt
  gp_tputs :: "flt list list"
  gp_integral :: bool
  gp_indexes :: "flt list list option"
  gp_created :: flt

definition np_shape :: "'a list list \<Rightarrow> py_error + nat list" where
  "np_shape rows =
     (case rows of
        [] \<Rightarrow> Inr [0]
      | r # _ \<Rightarrow> if \<forall>x \<in> set rows. length x = length r then Inr [length rows, length r] else Inl ValueError)"

record template =
  tm_integral :: bool
  tm_rows :: "flt list list"

record optimizer =
  op_gpu_info :: "(string \<times> gpu_profile) list"
  op_distribution :: "flt list list"
  op_total_rate :: flt
  op_slice_factor :: nat
  op_template :: "template option"
  op_indexes :: "flt list list option"
  op_log_indexes :: "flt list list option"
  op_gpu_fraction :: flt

definition Optimizer :: "flt \<Rightarrow> optimizer" where
  "Optimizer gpu_fraction = \<lparr>op_gpu_info = [], op_distribution = [], op_total_rate = Fin 0, op_slice_factor = 4,
     op_template = None, op_indexes = None, op_log_indexes = None, op_gpu_fraction = gpu_fraction\<rparr>"

definition flog2 :: "flt \<Rightarrow> flt" where
  "flog2 x = flog x / Fin (ln 2)"

definition zeros :: "flt list list \<Rightarrow> flt list list" where
  "zeros rows = map (map (\<lambda>_. Fin 0)) rows"

definition set_profile :: "gpu_profile \<Rightarrow> optimizer \<Rightarrow> (optimizer, unit) outcome" where
  "set_profile p opt =
     (case np_shape (gp_tputs p) of
        Inl e \<Rightarrow> (opt, Inl e)
      | Inr shape \<Rightarrow>
          let applied = (\<lambda>q. q\<lparr>op_gpu_info := AList.update (gp_gpu p) p (op_gpu_info q)\<rparr>) in
          (case op_template opt of
             None \<Rightarrow>
               (applied (opt\<lparr>op_template := Some \<lparr>tm_integral = gp_integral p, tm_rows = zeros (gp_tputs p)\<rparr>,
                  op_indexes := gp_indexes p,
                  op_log_indexes := (case gp_indexes p of None \<Rightarrow> op_log_indexes opt | Some ix \<Rightarrow> Some (map (map flog2) ix))\<rparr>),
                Inr ())
           | Some t \<Rightarrow>
               if np_shape (tm_rows t) \<noteq> Inr shape \<or> op_indexes opt \<noteq> gp_indexes p then (opt, Inl Exception)
               else (applied opt, Inr ())))"

definition delete_profile :: "string \<Rightarrow> optimizer \<Rightarrow> optimizer" where
  "delete_profile gpu opt = opt\<lparr>op_gpu_info := AList.delete gpu (op_gpu_info opt)\<rparr>"

subsection \<open>The workload distribution\<close>

definition log_signature_error :: suppressor where
  "log_signature_error dimension v idx idx_value offset = True"

definition template_ndim :: "template \<Rightarrow> nat" where
  "template_ndim t = (if tm_rows t = [] then 1 else 2)"

definition validate_workload_signature :: "optimizer \<Rightarrow> centeroid \<Rightarrow> (centeroid, nat list) outcome" where
  "validate_workload_signature opt c =
     (case (op_template opt, op_indexes opt, op_log_indexes opt) of
        (Some t, Some _, Some log_indexes) \<Rightarrow>
          obind (get_signature log_indexes (Some log_signature_error) c) (\<lambda>c' sg.
            if length sg \<noteq> template_ndim t then (c', Inl Exception) else (c', Inr sg))
      | _ \<Rightarrow> (c, Inl Exception))"

text \<open>\<open>int(x)\<close> of a finite number, toward zero; an integer array stores this.\<close>

fun ftrunc :: "flt \<Rightarrow> flt" where
  "ftrunc (Fin x) = Fin (if x < 0 then of_int \<lceil>x\<rceil> else of_int \<lfloor>x\<rfloor>)"
| "ftrunc x = x"

text \<open>\<open>template[signature] += x\<close>, which raises outside the table.\<close>

definition add_at :: "nat list \<Rightarrow> flt \<Rightarrow> template \<Rightarrow> py_error + template" where
  "add_at sg x t =
     (case sg of
        [i, j] \<Rightarrow>
          if i < length (tm_rows t) \<and> j < length (tm_rows t ! i) then
            let y = tm_rows t ! i ! j + x in
            Inr (t\<lparr>tm_rows := (tm_rows t)[i := (tm_rows t ! i)[j := if tm_integral t then ftrunc y else y]]\<rparr>)
          else Inl IndexError
      | _ \<Rightarrow> Inl IndexError)"

fun distribute :: "optimizer \<Rightarrow> flt \<Rightarrow> centeroid list \<Rightarrow> template \<Rightarrow> template \<times> centeroid list \<times> bool" where
  "distribute opt covered [] t = (t, [], True)"
| "distribute opt covered (c # cs) t =
     (case validate_workload_signature opt c of
        (c', Inl e) \<Rightarrow> (case distribute opt covered cs t of (t', cs', ok) \<Rightarrow> (t', c' # cs', False))
      | (c', Inr sg) \<Rightarrow>
          (case add_at sg (rate c' / covered) t of
             Inl e \<Rightarrow> (case distribute opt covered cs t of (t', cs', ok) \<Rightarrow> (t', c' # cs', False))
           | Inr t1 \<Rightarrow> (case distribute opt covered cs t1 of (t', cs', ok) \<Rightarrow> (t', c' # cs', ok))))"

definition set_workload_distribution ::
  "centeroid list \<Rightarrow> flt \<Rightarrow> optimizer \<Rightarrow> optimizer \<times> centeroid list \<times> bool" where
  "set_workload_distribution cs tot opt =
     (case op_template opt of
        None \<Rightarrow> (opt, cs, False)
      | Some t \<Rightarrow>
          let covered = foldl (\<lambda>cnt c. cnt + rate c) (Fin 0) cs;
              (t', cs', ok) = distribute opt covered cs (t\<lparr>tm_rows := zeros (tm_rows t)\<rparr>)
          in (opt\<lparr>op_template := Some t', op_total_rate := tot * op_gpu_fraction opt, op_distribution := tm_rows t'\<rparr>,
              cs', ok))"

subsection \<open>The solver\<close>

definition tputs_to_loads_2d :: "flt list list \<Rightarrow> flt list list" where
  "tputs_to_loads_2d max_tputs =
     map (\<lambda>row. map (\<lambda>j. if row ! j > Fin 0 then Fin 1 / row ! j else Fin 1000000) [0..<length (hd max_tputs)]) max_tputs"

text \<open>Every cell of a table, repeated once per slice.\<close>

definition sliced :: "nat \<Rightarrow> flt list list \<Rightarrow> flt list" where
  "sliced k rows = concat (map (\<lambda>x. replicate k x) (concat rows))"

type_synonym program_solver = "flt list \<Rightarrow> flt list list \<Rightarrow> (flt list list \<times> flt list) option"

fun py_int_of :: "flt \<Rightarrow> py_error + int" where
  "py_int_of (Fin x) = Inr (if x < 0 then \<lceil>x\<rceil> else \<lfloor>x\<rfloor>)"
| "py_int_of NaN = Inl ValueError"
| "py_int_of _ = Inl Exception"

fun int_values :: "flt list \<Rightarrow> py_error + int list" where
  "int_values [] = Inr []"
| "int_values (x # xs) =
     (case py_int_of x of
        Inl e \<Rightarrow> Inl e
      | Inr k \<Rightarrow> (case int_values xs of Inl e \<Rightarrow> Inl e | Inr ks \<Rightarrow> Inr (k # ks)))"

text \<open>
  The result is \<open>None\<close> when the program has no optimal solution, otherwise the replicas per GPU and
  the total cost. The program: one 0/1 variable per slice and GPU, one count per GPU; every slice
  goes to one GPU, and the load on a GPU (\<open>lp\<close>'s second argument times the variables) fits its count.
\<close>

definition melange_run ::
  "program_solver \<Rightarrow> flt list list \<Rightarrow> flt \<Rightarrow> (string \<times> gpu_profile) list \<Rightarrow> nat \<Rightarrow>
   py_error + ((string \<times> int) list \<times> flt) option" where
  "melange_run lp distribution overall_rate gpu_info slice_factor =
     (let histogram = map (map (\<lambda>x. x * overall_rate)) distribution;
          slices = map (\<lambda>x. x / Fin (real slice_factor)) (sliced slice_factor histogram);
          slice_loads = map (\<lambda>(g, p). sliced slice_factor (tputs_to_loads_2d (gp_tputs p))) gpu_info;
          costs = map (\<lambda>(g, p). gp_cost p) gpu_info
      in if \<exists>ls \<in> set slice_loads. length ls \<noteq> length slices then Inl AssertionError
         else if slices = [] then Inl IndexError
         else case lp costs (map (\<lambda>ls. map2 (*) ls slices) slice_loads) of
           None \<Rightarrow> Inr None
         | Some (matrix, counts) \<Rightarrow>
             (case int_values counts of
                Inl e \<Rightarrow> Inl e
              | Inr ks \<Rightarrow> Inr (Some (zip (map fst gpu_info) ks, fsum (map2 (\<lambda>k c. Fin (of_int k) * c) ks costs)))))"

definition run_optimizer :: "program_solver \<Rightarrow> optimizer \<Rightarrow> py_error + ((string \<times> int) list \<times> flt) option" where
  "run_optimizer lp opt =
     (if op_gpu_info opt = [] then Inr None
      else melange_run lp (op_distribution opt) (op_total_rate opt) (op_gpu_info opt) (op_slice_factor opt))"

subsection \<open>Centroids of finite points\<close>

text \<open>A cluster with a positive window and finite points, and its centroid.\<close>

type_synonym cluster = "real \<times> (real \<times> real \<times> real) list"

definition finite_point :: "real \<times> real \<times> real \<Rightarrow> datapoint" where
  "finite_point p = (Fin (fst p), Fin (fst (snd p)), Fin (snd (snd p)))"

definition centroid_of :: "cluster \<Rightarrow> centeroid" where
  "centroid_of g = fold add_point (map finite_point (snd g)) (Centeroid (Fin (fst g)))"

definition cluster_rate :: "cluster \<Rightarrow> real" where
  "cluster_rate g = real (length (snd g)) / fst g"

definition mean_of :: "('a \<Rightarrow> real) \<Rightarrow> 'a list \<Rightarrow> real" where
  "mean_of f ps = (\<Sum>p\<leftarrow>ps. f p) / real (length ps)"

definition summed :: "centeroid \<Rightarrow> real \<Rightarrow> (real \<times> real \<times> real) list \<Rightarrow> bool" where
  "summed c w ps \<longleftrightarrow>
     cen_sum c = Some [Fin (\<Sum>p\<leftarrow>ps. fst p), Fin (\<Sum>p\<leftarrow>ps. fst (snd p))] \<and> cen_size c = length ps \<and>
     cen_signature c = Some [0, 0] \<and> \<not> cen_up_to_date c \<and> cen_span c = Fin w"

lemma summed_add: "summed c w ps \<Longrightarrow> summed (add_point (finite_point p) c) w (ps @ [p])"
  by (auto simp: summed_def add_point_def finite_point_def point_signature_def Let_def)

lemma summed_first: "summed (add_point (finite_point p) (Centeroid (Fin w))) w [p]"
  by (simp add: summed_def add_point_def finite_point_def point_signature_def Centeroid_def Let_def numeral_2_eq_2)

lemma centroid_summed:
  assumes "snd g \<noteq> []"
  shows "summed (centroid_of g) (fst g) (snd g)"
proof -
  have "summed (fold add_point (map finite_point qs) c) w (ps @ qs)" if "summed c w ps" for c w ps qs
    using that
  proof (induction qs arbitrary: c ps)
    case (Cons q qs)
    then show ?case
      using Cons.IH [OF summed_add [OF Cons.prems, of q]] by simp
  qed simp
  from this [OF summed_first [of "hd (snd g)" "fst g"], of "tl (snd g)"] show ?thesis
    using assms by (cases "snd g") (auto simp: centroid_of_def)
qed

lemma centroid_center:
  "snd g \<noteq> [] \<Longrightarrow> center (centroid_of g) = Inr [Fin (mean_of fst (snd g)), Fin (mean_of (fst \<circ> snd) (snd g))]"
  using centroid_summed [of g] by (simp add: summed_def center_def mean_of_def)

lemma centroid_rate: "snd g \<noteq> [] \<Longrightarrow> fst g > 0 \<Longrightarrow> rate (centroid_of g) = Fin (cluster_rate g)"
  using centroid_summed [of g] by (simp add: summed_def rate_def span_of_def cluster_rate_def)

lemma rate_cong:
  "cen_span a = cen_span b \<Longrightarrow> cen_span_min a = cen_span_min b \<Longrightarrow> cen_span_max a = cen_span_max b \<Longrightarrow>
   cen_size a = cen_size b \<Longrightarrow> rate a = rate b"
  unfolding rate_def span_of_def by (simp only:)

subsection \<open>Distributing over the table\<close>

definition table_of :: "nat \<Rightarrow> nat \<Rightarrow> (nat \<Rightarrow> nat \<Rightarrow> real) \<Rightarrow> flt list list" where
  "table_of n m F = map (\<lambda>i. map (\<lambda>j. Fin (F i j)) [0..<m]) [0..<n]"

lemma table_of_zero: "length rows = n \<Longrightarrow> \<forall>r \<in> set rows. length r = m \<Longrightarrow> zeros rows = table_of n m (\<lambda>i j. 0)"
  by (auto simp: zeros_def table_of_def list_eq_iff_nth_eq)

lemma add_at_table:
  assumes "i < n" "j < m" "tm_rows t = table_of n m F" "\<not> tm_integral t"
  shows "add_at [i, j] (Fin x) t = Inr (t\<lparr>tm_rows := table_of n m (\<lambda>a b. F a b + (if (i, j) = (a, b) then x else 0))\<rparr>)"
proof -
  have "(table_of n m F)[i := (table_of n m F ! i)[j := Fin (F i j + x)]]
      = table_of n m (\<lambda>a b. F a b + (if (i, j) = (a, b) then x else 0))"
    using assms(1,2) by (auto simp: table_of_def list_eq_iff_nth_eq nth_list_update)
  then show ?thesis
    using assms by (simp add: add_at_def Let_def table_of_def)
qed

text \<open>What the optimizer needs to place finite centroids: ascending ticks that fit the table.\<close>

definition ticks :: "real list \<Rightarrow> real list \<Rightarrow> optimizer \<Rightarrow> bool" where
  "ticks xs ys opt \<longleftrightarrow> xs \<noteq> [] \<and> ys \<noteq> [] \<and> sorted xs \<and> sorted ys \<and> op_indexes opt \<noteq> None \<and>
     op_log_indexes opt = Some [map Fin xs, map Fin ys]"

lemma signature_nearest:
  assumes "ticks xs ys opt" "op_template opt = Some t" "tm_rows t \<noteq> []" "snd g \<noteq> []"
  obtains c' i j where "validate_workload_signature opt (centroid_of g) = (c', Inr [i, j])"
    "rate c' = rate (centroid_of g)" "nearest xs (mean_of fst (snd g)) i" "nearest ys (mean_of (fst \<circ> snd) (snd g)) j"
proof -
  let ?c = "centroid_of g" and ?ix = "[map Fin xs, map Fin ys]" and ?f = log_signature_error
  have acc: "\<And>i v k w off. ?f i v k w off"
    by (simp add: log_signature_error_def)
  obtain i where i: "dimension_index (Some ?f) 0 (Fin (mean_of fst (snd g))) (map Fin xs) = Inr (Some i)"
    "nearest xs (mean_of fst (snd g)) i"
    using dimension_index_nearest [of xs ?f] acc assms(1) by (auto simp: ticks_def)
  obtain j where j: "dimension_index (Some ?f) 1 (Fin (mean_of (fst \<circ> snd) (snd g))) (map Fin ys) = Inr (Some j)"
    "nearest ys (mean_of (fst \<circ> snd) (snd g)) j"
    using dimension_index_nearest [of ys ?f] acc assms(1) by (auto simp: ticks_def)
  have c: "cen_signature ?c = Some [0, 0]" "\<not> cen_up_to_date ?c"
    using centroid_summed [OF assms(4)] by (auto simp: summed_def)
  let ?c' = "?c\<lparr>cen_signature := Some [i, j], cen_up_to_date := True\<rparr>"
  have "get_signature ?ix (Some ?f) ?c = (?c', Inr [i, j])"
    using c i(1) j(1) by (simp add: get_signature_def centroid_center [OF assms(4)])
  moreover have "rate ?c' = rate ?c"
    by (rule rate_cong) simp_all
  ultimately show ?thesis
    using that [of ?c' i j] assms i(2) j(2) by (auto simp: validate_workload_signature_def ticks_def template_ndim_def)
qed

definition placed :: "(nat \<times> nat) list \<Rightarrow> real list \<Rightarrow> real \<Rightarrow> nat \<Rightarrow> nat \<Rightarrow> real" where
  "placed cells qs tot i j = (\<Sum>(cell, q)\<leftarrow>zip cells qs. if cell = (i, j) then q / tot else 0)"

lemma distribute_spec:
  assumes "ticks xs ys opt" "op_template opt = Some t0" "tm_rows t0 \<noteq> []" "tot \<noteq> 0"
    and "\<forall>g \<in> set gs. snd g \<noteq> [] \<and> fst g > 0" "\<not> tm_integral t" "tm_rows t = table_of (length xs) (length ys) F"
  obtains cells t' cs' where
    "distribute opt (Fin tot) (map centroid_of gs) t = (t', cs', True)" "length cells = length gs"
    "\<forall>k < length gs. nearest xs (mean_of fst (snd (gs ! k))) (fst (cells ! k)) \<and>
       nearest ys (mean_of (fst \<circ> snd) (snd (gs ! k))) (snd (cells ! k))"
    "tm_rows t' = table_of (length xs) (length ys) (\<lambda>i j. F i j + placed cells (map cluster_rate gs) tot i j)"
  using assms(5-)
proof (induction gs arbitrary: t F thesis)
  case Nil
  show ?case
    by (rule Nil(1) [of t "[]" "[]"]) (simp_all add: Nil placed_def)
next
  case (Cons g gs)
  have g: "snd g \<noteq> []" "fst g > 0"
    using Cons.prems(2) by auto
  obtain c' i j where c': "validate_workload_signature opt (centroid_of g) = (c', Inr [i, j])"
    "rate c' = rate (centroid_of g)" "nearest xs (mean_of fst (snd g)) i" "nearest ys (mean_of (fst \<circ> snd) (snd g)) j"
    using signature_nearest [OF assms(1-3) g(1)] .
  let ?x = "cluster_rate g / tot"
  let ?F = "\<lambda>a b. F a b + (if (i, j) = (a, b) then ?x else 0)"
  have r: "rate c' / Fin tot = Fin ?x"
    using c'(2) centroid_rate [OF g] assms(4) by simp
  have ij: "i < length xs" "j < length ys"
    using c'(3,4) by (auto simp: nearest_def)
  let ?t = "t\<lparr>tm_rows := table_of (length xs) (length ys) ?F\<rparr>"
  have step: "add_at [i, j] (rate c' / Fin tot) t = Inr ?t"
    unfolding r using add_at_table [OF ij Cons.prems(4,3)] .
  have pre: "\<forall>g \<in> set gs. snd g \<noteq> [] \<and> fst g > 0" "\<not> tm_integral ?t" "tm_rows ?t = table_of (length xs) (length ys) ?F"
    using Cons.prems(2,3) by simp_all
  obtain cells t' cs' where rest: "distribute opt (Fin tot) (map centroid_of gs) ?t = (t', cs', True)" "length cells = length gs"
    "\<forall>k < length gs. nearest xs (mean_of fst (snd (gs ! k))) (fst (cells ! k)) \<and>
       nearest ys (mean_of (fst \<circ> snd) (snd (gs ! k))) (snd (cells ! k))"
    "tm_rows t' = table_of (length xs) (length ys) (\<lambda>a b. ?F a b + placed cells (map cluster_rate gs) tot a b)"
    using Cons.IH [OF _ pre] .
  show ?case
  proof (rule Cons.prems(1))
    show "distribute opt (Fin tot) (map centroid_of (g # gs)) t = (t', c' # cs', True)"
      using c'(1) step rest(1) by simp
    show "length ((i, j) # cells) = length (g # gs)"
      using rest(2) by simp
    show "\<forall>k < length (g # gs). nearest xs (mean_of fst (snd ((g # gs) ! k))) (fst (((i, j) # cells) ! k)) \<and>
       nearest ys (mean_of (fst \<circ> snd) (snd ((g # gs) ! k))) (snd (((i, j) # cells) ! k))"
      using rest(3) c'(3,4) by (auto simp: nth_Cons split: nat.split)
    show "tm_rows t' = table_of (length xs) (length ys)
        (\<lambda>a b. F a b + placed ((i, j) # cells) (map cluster_rate (g # gs)) tot a b)"
      using rest(4) by (simp add: placed_def add.assoc)
  qed
qed

lemma covered_rate:
  assumes "\<forall>g \<in> set gs. snd g \<noteq> [] \<and> fst g > 0"
  shows "foldl (\<lambda>cnt c. cnt + rate c) (Fin a) (map centroid_of gs) = Fin (a + (\<Sum>g\<leftarrow>gs. cluster_rate g))"
  using assms by (induction gs arbitrary: a) (simp_all add: centroid_rate add.assoc)

lemma cluster_rates_positive:
  assumes "gs \<noteq> []" "\<forall>g \<in> set gs. snd g \<noteq> [] \<and> fst g > 0"
  shows "0 < (\<Sum>g\<leftarrow>gs. cluster_rate g)"
  using assms
proof (induction gs rule: list_nonempty_induct)
  case (cons g gs)
  then show ?case
    using add_pos_pos [of "cluster_rate g"] by (simp add: cluster_rate_def)
qed (simp add: cluster_rate_def)

lemma placed_total:
  assumes "length cells = length qs" "\<forall>c \<in> set cells. fst c < n \<and> snd c < m"
  shows "(\<Sum>i<n. \<Sum>j<m. placed cells qs tot i j) = sum_list qs / tot"
  using assms
proof (induction cells qs rule: list_induct2)
  case (Cons c cs q qs)
  obtain a b where c: "c = (a, b)"
    by fastforce
  have "(\<Sum>i<n. \<Sum>j<m. if c = (i, j) then q / tot else 0) = (\<Sum>i<n. if i = a then q / tot else 0)"
    using Cons.prems c by (intro sum.cong) auto
  also have "\<dots> = q / tot"
    using Cons.prems c by simp
  finally have "(\<Sum>i<n. \<Sum>j<m. if c = (i, j) then q / tot else 0) = q / tot" .
  then show ?case
    using Cons by (simp add: placed_def sum.distrib add_divide_distrib)
qed (simp add: placed_def)

lemma first_profile:
  assumes "np_shape (gp_tputs p) = Inr [length as, length bs]" "gp_indexes p = Some [map Fin as, map Fin bs]"
    and "as \<noteq> []" "bs \<noteq> []" "sorted as" "sorted bs" "\<forall>x \<in> set as \<union> set bs. 0 < x"
    and "opt = fst (set_profile p (Optimizer f))"
  shows "ticks (map (log 2) as) (map (log 2) bs) opt"
    "op_template opt = Some \<lparr>tm_integral = gp_integral p, tm_rows = table_of (length as) (length bs) (\<lambda>i j. 0)\<rparr>"
proof -
  have rows: "length (gp_tputs p) = length as" "\<forall>r \<in> set (gp_tputs p). length r = length bs"
    using assms(1) by (auto simp: np_shape_def split: list.splits if_splits)
  have logs: "map flog2 (map Fin cs) = map Fin (map (log 2) cs)" if "\<forall>x \<in> set cs. 0 < x" for cs
    using that by (auto simp: flog2_def log_def)
  have mono: "sorted (map (log 2) cs)" if "sorted cs" "\<forall>x \<in> set cs. 0 < x" for cs
    using that by (induction cs) auto
  show "ticks (map (log 2) as) (map (log 2) bs) opt"
    using assms logs [of as] logs [of bs] mono by (simp add: ticks_def set_profile_def Optimizer_def Let_def)
  show "op_template opt = Some \<lparr>tm_integral = gp_integral p, tm_rows = table_of (length as) (length bs) (\<lambda>i j. 0)\<rparr>"
    using assms(1,8) table_of_zero [OF rows] by (simp add: set_profile_def Optimizer_def Let_def)
qed

text \<open>
  An integer table stores whole numbers, so the share of a cluster that is not alone is lost.
\<close>

lemma integral_table_drops_share:
  assumes "i < n" "j < m" "tm_rows t = table_of n m (\<lambda>i j. 0)" "tm_integral t" "0 \<le> x" "x < 1"
  shows "add_at [i, j] (Fin x) t = Inr t"
proof -
  have "(table_of n m (\<lambda>i j. 0))[i := (table_of n m (\<lambda>i j. 0) ! i)[j := Fin 0]] = table_of n m (\<lambda>i j. 0)"
    using assms(1,2) by (auto simp: table_of_def list_eq_iff_nth_eq nth_list_update)
  moreover have "\<lfloor>x\<rfloor> = 0"
    using assms(5,6) by linarith
  ultimately show ?thesis
    using assms(1-5) by (simp add: add_at_def Let_def table_of_def)
qed

subsection \<open>The allocation serves the workload\<close>

text \<open>
  What the solver of the integer program documents of a solution it reports as optimal: 0/1
  assignments, whole non-negative counts, and the two constraints of the program.
\<close>

definition lp_sound :: "program_solver \<Rightarrow> bool" where
  "lp_sound lp \<longleftrightarrow> (\<forall>costs loads n matrix counts.
     (\<forall>l \<in> set loads. length l = n) \<longrightarrow> lp costs (map (map Fin) loads) = Some (matrix, counts) \<longrightarrow>
     (\<exists>(B :: nat \<Rightarrow> nat \<Rightarrow> real) (ys :: nat list). (\<forall>i < n. \<forall>j < length loads. B i j \<in> {0, 1}) \<and>
        (\<forall>i < n. (\<Sum>j<length loads. B i j) = 1) \<and>
        counts = map (\<lambda>y. Fin (real y)) ys \<and> length ys = length loads \<and>
        (\<forall>j < length loads. (\<Sum>i<n. B i j * loads ! j ! i) \<le> real (ys ! j))))"

definition request_load :: "real \<Rightarrow> real" where
  "request_load tput = (if tput > 0 then 1 / tput else 1000000)"

text \<open>A profile with a rectangular finite table.\<close>

definition finite_tputs :: "gpu_profile \<Rightarrow> real list list \<Rightarrow> bool" where
  "finite_tputs p T \<longleftrightarrow> gp_tputs p = map (map Fin) T \<and> (\<forall>row \<in> set T. length row = length (hd T))"

lemma loads_finite:
  assumes "finite_tputs p T"
  shows "tputs_to_loads_2d (gp_tputs p) = map (map Fin) (map (map request_load) T)"
proof -
  have "map (\<lambda>j. if map Fin row ! j > Fin 0 then Fin 1 / map Fin row ! j else Fin 1000000) [0..<length (hd (map (map Fin) T))]
      = map Fin (map request_load row)" if "row \<in> set T" for row
  proof (rule nth_equalityI)
    have len: "length (hd (map (map Fin) T)) = length row"
      using that assms by (cases T) (auto simp: finite_tputs_def)
    then show "length (map (\<lambda>j. if map Fin row ! j > Fin 0 then Fin 1 / map Fin row ! j else Fin 1000000)
        [0..<length (hd (map (map Fin) T))]) = length (map Fin (map request_load row))"
      by simp
    show "map (\<lambda>j. if map Fin row ! j > Fin 0 then Fin 1 / map Fin row ! j else Fin 1000000)
        [0..<length (hd (map (map Fin) T))] ! i = map Fin (map request_load row) ! i"
      if "i < length (map (\<lambda>j. if map Fin row ! j > Fin 0 then Fin 1 / map Fin row ! j else Fin 1000000)
        [0..<length (hd (map (map Fin) T))])" for i
      using that len by (simp add: request_load_def)
  qed
  then show ?thesis
    using assms by (simp add: tputs_to_loads_2d_def finite_tputs_def)
qed

lemma sliced_finite: "sliced k (map (map Fin) rows) = map Fin (concat (map (replicate k) (concat rows)))"
  by (induction rows) (simp_all add: sliced_def map_concat comp_def)

lemma slice_nth:
  assumes "0 < k" "i < length xs * k"
  shows "concat (map (replicate k) xs) ! i = xs ! (i div k)"
  using assms(2)
proof (induction xs arbitrary: i)
  case (Cons x xs)
  then show ?case
    using assms(1) Cons.IH [of "i - k"] by (auto simp: nth_append le_div_geq)
qed simp

lemma length_slices: "length (concat (map (replicate k) xs)) = length xs * k"
  by (induction xs) simp_all

lemma int_values_whole: "int_values (map (\<lambda>y. Fin (real y)) ys) = Inr (map int ys)"
  by (induction ys) simp_all

text \<open>The share of a cell that goes to a GPU: the mean over the slices of the cell.\<close>

lemma slices_to_cells:
  fixes B :: "nat \<Rightarrow> nat \<Rightarrow> real"
  assumes "0 < k" "\<forall>i < n * k. \<forall>j < m. B i j \<in> {0, 1}" "\<forall>i < n * k. (\<Sum>j<m. B i j) = 1"
    and "\<forall>j < m. (\<Sum>i<n * k. B i j * (w j (i div k) / real k)) \<le> y j"
  shows "\<exists>share. (\<forall>c < n. \<forall>j < m. 0 \<le> share c j) \<and> (\<forall>c < n. (\<Sum>j<m. share c j) = 1) \<and>
    (\<forall>j < m. (\<Sum>c<n. share c j * w j c) \<le> y j)"
proof (intro exI conjI allI impI)
  let ?share = "\<lambda>c j. (\<Sum>i=c * k..<c * k + k. B i j) / real k"
  have slice: "i < n * k" "i div k = c" if "c < n" "i \<in> {c * k..<c * k + k}" for c i
  proof -
    have "c * k + k \<le> n * k"
      using that(1) by (metis Suc_leI add.commute mult_Suc mult_le_mono1)
    then show "i < n * k"
      using that(2) by simp
    show "i div k = c"
      using that(2) by (intro div_nat_eqI) (auto simp: mult.commute)
  qed
  show "0 \<le> ?share c j" if "c < n" "j < m" for c j
  proof -
    have "0 \<le> B i j" if "i \<in> {c * k..<c * k + k}" for i
      using assms(2) slice(1) [OF \<open>c < n\<close> that] \<open>j < m\<close> by force
    then show ?thesis
      by (intro divide_nonneg_nonneg sum_nonneg) auto
  qed
  show "(\<Sum>j<m. ?share c j) = 1" if "c < n" for c
  proof -
    have "(\<Sum>j<m. \<Sum>i=c * k..<c * k + k. B i j) = (\<Sum>i=c * k..<c * k + k. \<Sum>j<m. B i j)"
      by (rule sum.swap)
    also have "\<dots> = (\<Sum>i=c * k..<c * k + k. 1)"
      using assms(3) slice(1) [OF that] by (intro sum.cong) auto
    finally show ?thesis
      using assms(1) by (simp add: sum_divide_distrib [symmetric])
  qed
  show "(\<Sum>c<n. ?share c j * w j c) \<le> y j" if "j < m" for j
  proof -
    have "?share c j * w j c = (\<Sum>i=c * k..<c * k + k. B i j * (w j (i div k) / real k))" if "c < n" for c
      using slice(2) [OF that] by (simp add: sum_divide_distrib sum_distrib_right)
    then have "(\<Sum>c<n. ?share c j * w j c) = (\<Sum>c<n. \<Sum>i=c * k..<c * k + k. B i j * (w j (i div k) / real k))"
      by simp
    also have "\<dots> = (\<Sum>i<n * k. B i j * (w j (i div k) / real k))"
      by (rule sum.nat_group)
    finally show ?thesis
      using assms(4) that by simp
  qed
qed

lemma melange_run_finite:
  assumes "list_all2 (\<lambda>gp T. finite_tputs (snd gp) T) info Ts" "0 < k"
    and "melange_run lp (map (map Fin) D) (Fin R) info k = Inr (Some (alloc, cost))"
  obtains matrix counts ks where
    "lp (map (\<lambda>gp. gp_cost (snd gp)) info)
       (map (map Fin) (map (\<lambda>T. map2 (*) (concat (map (replicate k) (map request_load (concat T))))
          (map (\<lambda>x. x * R / real k) (concat (map (replicate k) (concat D))))) Ts)) = Some (matrix, counts)"
    "int_values counts = Inr ks" "alloc = zip (map fst info) ks" "\<forall>T \<in> set Ts. length (concat T) = length (concat D)"
proof -
  let ?rows = "map (map Fin) (map (map (\<lambda>x. x * R)) D)"
  let ?sl = "map (\<lambda>x. x * R / real k) (concat (map (replicate k) (concat D)))"
  let ?ld = "\<lambda>T. concat (map (replicate k) (map request_load (concat T)))"
  have slices: "map (\<lambda>x. x / Fin (real k)) (sliced k ?rows) = map Fin ?sl"
    unfolding sliced_finite using assms(2) by (simp add: map_concat comp_def)
  have hist: "map (map (\<lambda>x. x * Fin R)) (map (map Fin) D) = ?rows"
    by simp
  have one: "sliced k (tputs_to_loads_2d (gp_tputs p)) = map Fin (?ld T)" if "finite_tputs p T" for p T
    unfolding loads_finite [OF that] sliced_finite by (simp add: map_concat)
  have loads: "map (\<lambda>(g, p). sliced k (tputs_to_loads_2d (gp_tputs p))) info = map (\<lambda>T. map Fin (?ld T)) Ts"
    using assms(1)
  proof (induction rule: list_all2_induct)
    case (Cons gp gps T Ts)
    then show ?case
      using one [of "snd gp" T] by (cases gp) simp
  qed simp
  have costs: "map (\<lambda>(g, p). gp_cost p) info = map (\<lambda>gp. gp_cost (snd gp)) info"
    by auto
  have prod: "map (\<lambda>ls. map2 (*) ls (map Fin ?sl)) (map (\<lambda>T. map Fin (?ld T)) Ts) = map (map Fin) (map (\<lambda>T. map2 (*) (?ld T) ?sl) Ts)"
    by (simp add: zip_map_map comp_def split_def zip_map1 zip_map2)
  let ?res = "lp (map (\<lambda>gp. gp_cost (snd gp)) info) (map (map Fin) (map (\<lambda>T. map2 (*) (?ld T) ?sl) Ts))"
  note run = assms(3) [unfolded melange_run_def Let_def hist slices loads costs prod]
  have len: "\<forall>ls \<in> set (map (\<lambda>T. map Fin (?ld T)) Ts). length ls = length (map Fin ?sl)"
    using run by (auto split: if_splits)
  then have cells: "\<forall>T \<in> set Ts. length (concat T) = length (concat D)"
    using assms(2) by (auto simp: length_slices simp del: map_map)
  obtain matrix counts where sol: "?res = Some (matrix, counts)"
    using run by (cases ?res) (auto split: if_splits)
  obtain ks where "int_values counts = Inr ks" "alloc = zip (map fst info) ks"
    using run sol by (cases "int_values counts") (auto split: if_splits)
  then show ?thesis
    using that sol cells by blast
qed

subsection \<open>Properties\<close>


definition sample_profile :: gpu_profile where
  "sample_profile = \<lparr>gp_gpu = ''A10'', gp_cost = Fin 1, gp_tputs = [[Fin 3, Fin 2], [Fin 5, Fin 1]], gp_integral = False,
     gp_indexes = Some [map Fin [2, 4], map Fin [8, 16]], gp_created = Fin 0\<rparr>"



text \<open>A solver that puts every slice on the first GPU type.\<close>

definition first_gpu_lp :: program_solver where
  "first_gpu_lp costs loads =
     (case loads of
        [] \<Rightarrow> None
      | l # ls \<Rightarrow>
          (case fsum l of
             Fin x \<Rightarrow> Some ([], Fin (real (nat \<lceil>x\<rceil>)) # map (\<lambda>_. Fin 0) ls)
           | _ \<Rightarrow> None))"

lemma first_gpu_lp_sound: "lp_sound first_gpu_lp"
  unfolding lp_sound_def
proof (intro allI impI)
  fix costs loads n matrix counts
  assume len: "\<forall>l \<in> set loads. length l = n" and sol: "first_gpu_lp costs (map (map Fin) loads) = Some (matrix, counts)"
  obtain l ls where loads: "loads = l # ls"
    using sol by (cases loads) (auto simp: first_gpu_lp_def)
  let ?B = "\<lambda>i j. if j = 0 then 1 else 0 :: real" and ?ys = "nat \<lceil>sum_list l\<rceil> # map (\<lambda>_. 0) ls"
  have one: "(\<Sum>j<length loads. ?B i j) = 1" for i :: nat
    using loads by simp
  have "counts = map (\<lambda>y. Fin (real y)) ?ys"
    using sol loads by (auto simp: first_gpu_lp_def fsum_Fin comp_def)
  moreover have "(\<Sum>i<n. ?B i j * loads ! j ! i) \<le> real (?ys ! j)" if "j < length loads" for j
  proof (cases j)
    case 0
    have "sum_list l = (\<Sum>i<n. l ! i)"
      using len loads by (simp add: sum_list_sum_nth atLeast0LessThan)
    then show ?thesis
      using 0 loads real_nat_ceiling_ge [of "sum_list l"] by simp
  next
    case (Suc i)
    then show ?thesis
      using that loads by simp
  qed
  ultimately show "\<exists>(B :: nat \<Rightarrow> nat \<Rightarrow> real) (ys :: nat list). (\<forall>i < n. \<forall>j < length loads. B i j \<in> {0, 1}) \<and>
      (\<forall>i < n. (\<Sum>j<length loads. B i j) = 1) \<and> counts = map (\<lambda>y. Fin (real y)) ys \<and> length ys = length loads \<and>
      (\<forall>j < length loads. (\<Sum>i<n. B i j * loads ! j ! i) \<le> real (ys ! j))"
    using one loads by (intro exI [of _ ?B] exI [of _ ?ys]) simp
qed

definition one_gpu :: "(string \<times> gpu_profile) list" where
  "one_gpu = [(''A10'', sample_profile\<lparr>gp_tputs := [[Fin 5]]\<rparr>)]"


end
