(* ===== verification/Load_Monitor.thy ===== *)
theory Load_Monitor
  imports GPU_Optimizer
begin

text \<open>
  The model monitor (\<open>gpu_optimizer/load_monitor/monitor.py\<close>): the registry of deployments and their
  profiles, the optimisation of the replicas, and the loop that keeps a window of requests. The lock
  of the monitor is a flag; an operation that would wait for a lock nobody will release does not
  return (\<open>None\<close>). Clock readings, the records of the load reader, the profiles of the profile
  reader, the DBSCAN library and the integer program solver are arguments.
\<close>

subsection \<open>Deployments\<close>

record deployment =
  dep_name :: string
  dep_optimized :: int
  dep_overriden :: int
  dep_min_replicas :: int
  dep_profile :: "gpu_profile option"
  dep_watch_ver :: "string option"

definition DeploymentStates :: "string \<Rightarrow> int \<Rightarrow> int \<Rightarrow> deployment" where
  "DeploymentStates name replicas min_replicas = \<lparr>dep_name = name, dep_optimized = replicas, dep_overriden = - 1,
     dep_min_replicas = min_replicas, dep_profile = None, dep_watch_ver = None\<rparr>"

definition replicas_of :: "deployment \<Rightarrow> int" where
  "replicas_of d = (if dep_overriden d \<noteq> - 1 then dep_overriden d else dep_optimized d)"

definition cost_of :: "deployment \<Rightarrow> flt" where
  "cost_of d = (case dep_profile d of None \<Rightarrow> PInf | Some p \<Rightarrow> gp_cost p * Fin (of_int (replicas_of d)))"

definition minimized :: "deployment \<Rightarrow> deployment" where
  "minimized d = d\<lparr>dep_optimized := max 0 (dep_min_replicas d)\<rparr>"

definition is_modified :: "deployment \<Rightarrow> deployment \<Rightarrow> bool" where
  "is_modified d newer \<longleftrightarrow> dep_min_replicas d \<noteq> dep_min_replicas newer"

subsection \<open>The registry\<close>

record monitor =
  mon_deployments :: "(string \<times> deployment) list"
  mon_profiles :: "(string \<times> gpu_profile) list"
  mon_optimizer :: optimizer
  mon_gpu_fraction :: flt
  mon_cost :: flt
  mon_locked :: bool
  mon_outdated :: "string option"
  mon_last_watch :: "string option"
  mon_last_resource :: "string option"
  mon_centers :: "centeroid list"
  mon_labels :: "flt list"

type_synonym 'a monitor_call = "(monitor, 'a) outcome option"

definition new_monitor :: "flt \<Rightarrow> monitor" where
  "new_monitor gpu_fraction = \<lparr>mon_deployments = [], mon_profiles = [], mon_optimizer = Optimizer gpu_fraction,
     mon_gpu_fraction = gpu_fraction, mon_cost = Fin 0, mon_locked = False, mon_outdated = None, mon_last_watch = None,
     mon_last_resource = None, mon_centers = [], mon_labels = []\<rparr>"

definition deployment_entry_point :: "string \<Rightarrow> string option \<Rightarrow> string" where
  "deployment_entry_point name namespace = (case namespace of None \<Rightarrow> name | Some ns \<Rightarrow> ns @ ''/'' @ name)"

definition match_profile :: "string \<Rightarrow> string \<Rightarrow> monitor \<Rightarrow> monitor \<times> gpu_profile option" where
  "match_profile key name m =
     (case map_of (mon_profiles m) key of
        Some p \<Rightarrow> (m, Some p)
      | None \<Rightarrow>
          (case map_of (mon_profiles m) name of
             None \<Rightarrow> (m, None)
           | Some p \<Rightarrow>
               let q = p\<lparr>gp_gpu := key\<rparr> in
               (m\<lparr>mon_profiles := AList.update name q (mon_profiles m)\<rparr>, Some q)))"

text \<open>The new deployment is built by a callback that may raise.\<close>

definition add_deployment ::
  "string option \<Rightarrow> string \<Rightarrow> string option \<Rightarrow> py_error + deployment \<Rightarrow> monitor \<Rightarrow> bool monitor_call" where
  "add_deployment watch_ver name namespace new m =
     (let key = deployment_entry_point name namespace;
          (m1, profile) = match_profile key name m;
          m2 = (case profile of None \<Rightarrow> m1 | Some p \<Rightarrow> m1\<lparr>mon_optimizer := fst (set_profile p (mon_optimizer m1))\<rparr>)
      in case new of
        Inl e \<Rightarrow> Some (m2, Inl e)
      | Inr dp \<Rightarrow>
          if mon_locked m2 then None
          else
            let store = (\<lambda>d old_cost.
              let d' = d\<lparr>dep_profile := profile, dep_watch_ver := watch_ver\<rparr> in
              m2\<lparr>mon_deployments := AList.update key d' (mon_deployments m2),
                 mon_cost := mon_cost m2 + (cost_of d' - old_cost), mon_last_resource := watch_ver\<rparr>)
            in (case map_of (mon_deployments m2) key of
                  None \<Rightarrow> Some (store dp (Fin 0), Inr True)
                | Some d \<Rightarrow>
                    if is_modified d dp
                    then Some (store (d\<lparr>dep_min_replicas := dep_min_replicas dp\<rparr>) (cost_of d), Inr True)
                    else Some (m2, Inr False)))"

text \<open>A key that is not registered raises while the lock is held.\<close>

definition remove_deployment :: "string \<Rightarrow> string option \<Rightarrow> monitor \<Rightarrow> nat monitor_call" where
  "remove_deployment name namespace m =
     (let key = deployment_entry_point name namespace in
      if mon_locked m then None
      else
        let m1 = m\<lparr>mon_optimizer := delete_profile key (mon_optimizer m)\<rparr> in
        case map_of (mon_deployments m1) key of
          None \<Rightarrow> Some (m1\<lparr>mon_locked := True\<rparr>, Inl KeyError)
        | Some _ \<Rightarrow>
            let m2 = m1\<lparr>mon_deployments := AList.delete key (mon_deployments m1)\<rparr> in
            Some (m2, Inr (length (mon_deployments m2))))"

definition read_deployment_num_replicas :: "string \<Rightarrow> string option \<Rightarrow> monitor \<Rightarrow> py_error + int" where
  "read_deployment_num_replicas name namespace m =
     (case map_of (mon_deployments m) (deployment_entry_point name namespace) of
        None \<Rightarrow> Inl Exception
      | Some d \<Rightarrow> Inr (replicas_of d))"

definition update_deployment_num_replicas ::
  "string \<Rightarrow> string option \<Rightarrow> int \<Rightarrow> bool \<Rightarrow> monitor \<Rightarrow> (monitor, unit) outcome" where
  "update_deployment_num_replicas name namespace replicas overriding m =
     (let key = deployment_entry_point name namespace in
      case map_of (mon_deployments m) key of
        None \<Rightarrow> (m, Inl Exception)
      | Some d \<Rightarrow>
          if overriding \<and> replicas = - 1
          then (m\<lparr>mon_deployments := map (\<lambda>(k, s). (k, s\<lparr>dep_overriden := replicas\<rparr>)) (mon_deployments m)\<rparr>, Inr ())
          else
            let d' = (if overriding then d\<lparr>dep_overriden := replicas\<rparr> else d\<lparr>dep_optimized := replicas\<rparr>) in
            (m\<lparr>mon_deployments := AList.update key d' (mon_deployments m)\<rparr>, Inr ()))"

definition mark_deployments_outdated :: "monitor \<Rightarrow> monitor" where
  "mark_deployments_outdated m = m\<lparr>mon_outdated := mon_last_watch m\<rparr>"

text \<open>Deleting an entry of the dictionary the loop iterates over makes the next step raise.\<close>

definition clear_outdated_deployments :: "monitor \<Rightarrow> (monitor, nat) outcome" where
  "clear_outdated_deployments m =
     (case find (\<lambda>(k, d). dep_watch_ver d = mon_outdated m) (mon_deployments m) of
        None \<Rightarrow> (m, Inr (length (mon_deployments m)))
      | Some (k, d) \<Rightarrow> (m\<lparr>mon_deployments := AList.delete k (mon_deployments m)\<rparr>, Inl RuntimeError))"

subsection \<open>Profiles\<close>

text \<open>
  A newer profile replaces the stored one; it takes over the formal name the stored one got from a
  deployment. Without a deployment of that name the first deployment with the profile's name gives
  it. The deployment is then looked up under \<open>key\<close>: the profile's own name on the first path, the
  deployment's key on the second.
\<close>

definition update_profile :: "gpu_profile \<Rightarrow> monitor \<Rightarrow> bool monitor_call" where
  "update_profile p m =
     (let key = gp_gpu p; old = map_of (mon_profiles m) key in
      if (case old of None \<Rightarrow> False | Some q \<Rightarrow> gp_created p \<le> gp_created q) then Some (m, Inr False)
      else
        let cost_diff = (case old of None \<Rightarrow> gp_cost p | Some q \<Rightarrow> gp_cost p - gp_cost q);
            p1 = (case old of None \<Rightarrow> p | Some q \<Rightarrow> p\<lparr>gp_gpu := gp_gpu q\<rparr>);
            store = (\<lambda>q ps. AList.update key q
              (if gp_gpu p1 \<noteq> key \<and> map_of ps (gp_gpu p1) \<noteq> None then AList.update (gp_gpu p1) q ps else ps));
            (p2, target) =
              (if map_of (mon_deployments m) (gp_gpu p1) \<noteq> None then (p1, Some key)
               else case find (\<lambda>(k, d). dep_name d = gp_gpu p1) (mon_deployments m) of
                      None \<Rightarrow> (p1, None)
                    | Some (k, d) \<Rightarrow> (p1\<lparr>gp_gpu := k\<rparr>, Some k));
            m1 = m\<lparr>mon_profiles := store p2 (mon_profiles m)\<rparr>
        in case target of
             None \<Rightarrow> Some (m1, Inr True)
           | Some k \<Rightarrow>
               if mon_locked m1 then None
               else case map_of (mon_deployments m1) k of
                 None \<Rightarrow> Some (m1, Inl KeyError)
               | Some d \<Rightarrow>
                   let m2 = m1\<lparr>mon_deployments := AList.update k (d\<lparr>dep_profile := Some p2\<rparr>) (mon_deployments m1)\<rparr> in
                   (case set_profile p2 (mon_optimizer m2) of
                      (opt, Inl e) \<Rightarrow> Some (m2, Inl e)
                    | (opt, Inr _) \<Rightarrow>
                        Some (m2\<lparr>mon_optimizer := opt,
                                 mon_cost := mon_cost m2 + cost_diff * Fin (of_int (replicas_of d))\<rparr>, Inr True)))"

fun update_profiles :: "gpu_profile list \<Rightarrow> monitor \<Rightarrow> bool monitor_call" where
  "update_profiles [] m = Some (m, Inr True)"
| "update_profiles (p # ps) m =
     (case update_profile (p\<lparr>gp_cost := gp_cost p / mon_gpu_fraction m\<rparr>) m of
        None \<Rightarrow> None
      | Some (m1, Inl e) \<Rightarrow> Some (m1, Inl e)
      | Some (m1, Inr _) \<Rightarrow> update_profiles ps m1)"

text \<open>\<open>read\<close> is what the profile reader returns, \<open>None\<close> without a reader; failures return False.\<close>

definition load_profiles :: "(py_error + gpu_profile list) option \<Rightarrow> monitor \<Rightarrow> (monitor \<times> bool) option" where
  "load_profiles read m =
     (case read of
        None \<Rightarrow> Some (m, False)
      | Some (Inl e) \<Rightarrow> Some (m, False)
      | Some (Inr ps) \<Rightarrow>
          (case update_profiles ps m of
             None \<Rightarrow> None
           | Some (m1, Inl e) \<Rightarrow> Some (m1, False)
           | Some (m1, Inr b) \<Rightarrow> Some (m1, b)))"

definition debug_gpu_profile :: gpu_profile where
  "debug_gpu_profile = \<lparr>gp_gpu = ''default'', gp_cost = Fin 1, gp_tputs = [[Fin 100]], gp_integral = True,
     gp_indexes = Some [[Fin 10], [Fin 10]], gp_created = Fin 0\<rparr>"

definition ModelMonitor ::
  "string option \<Rightarrow> flt \<Rightarrow> (py_error + gpu_profile list) option \<Rightarrow> bool \<Rightarrow> string option \<Rightarrow> deployment option \<Rightarrow> bool monitor_call"
  where
  "ModelMonitor watch_ver gpu_fraction read debug namespace deployment =
     (let m = new_monitor gpu_fraction;
          loaded = (case read of
              None \<Rightarrow>
                Some (if debug then m\<lparr>mon_optimizer := fst (set_profile debug_gpu_profile (mon_optimizer m))\<rparr> else m)
            | Some r \<Rightarrow> map_option fst (load_profiles (Some r) m))
      in case (loaded, deployment) of
           (None, _) \<Rightarrow> None
         | (Some m1, None) \<Rightarrow> Some (m1, Inr True)
         | (Some m1, Some d) \<Rightarrow> add_deployment watch_ver (dep_name d) namespace (Inr d) m1)"

subsection \<open>Optimising and minimising\<close>

text \<open>
  An optimisation loads the profiles, distributes the workload and runs the solver; a result that
  needs a deployment that is gone is discarded. An exception of the solver leaves the monitor loop.
\<close>

definition optimize_replicas ::
  "program_solver \<Rightarrow> (py_error + gpu_profile list) option \<Rightarrow> flt \<Rightarrow> monitor \<Rightarrow> unit monitor_call" where
  "optimize_replicas lp read request_rate m =
     (case load_profiles read m of
        None \<Rightarrow> None
      | Some (m1, _) \<Rightarrow>
          let (opt, centers, ok) = set_workload_distribution (mon_centers m1) request_rate (mon_optimizer m1);
              m2 = m1\<lparr>mon_optimizer := opt, mon_centers := centers\<rparr>
          in if \<not> ok then Some (m2, Inr ())
             else case run_optimizer lp opt of
               Inl e \<Rightarrow> Some (m2, Inl e)
             | Inr None \<Rightarrow> Some (m2, Inr ())
             | Inr (Some (result, cost)) \<Rightarrow>
                 if mon_locked m2 then None
                 else if \<exists>(k, n) \<in> set result. map_of (mon_deployments m2) k = None \<and> n > 0 then Some (m2, Inr ())
                 else Some (m2\<lparr>mon_deployments := map (\<lambda>(k, d). (k, d\<lparr>dep_optimized :=
                                   (case map_of result k of None \<Rightarrow> 0 | Some n \<Rightarrow> n)\<rparr>)) (mon_deployments m2),
                               mon_cost := cost\<rparr>, Inr ()))"

definition minimize_replicas :: "monitor \<Rightarrow> unit monitor_call" where
  "minimize_replicas m =
     (if mon_locked m then None
      else
        let ds = map (\<lambda>(k, d). (k, minimized d)) (mon_deployments m) in
        Some (m\<lparr>mon_deployments := ds, mon_cost := foldl (\<lambda>c (k, d). c + cost_of d) (Fin 0) ds\<rparr>, Inr ()))"

subsection \<open>The monitor loop\<close>

text \<open>Time, input tokens, output tokens and frequency of a record.\<close>

type_synonym load_record = "flt \<times> flt \<times> flt \<times> nat"

definition expand_records :: "load_record list \<Rightarrow> datapoint list" where
  "expand_records records = concat (map (\<lambda>(ts, inp, out, freq). replicate freq (DataPoint out inp ts)) records)"

text \<open>Rotating the window and taking in the new points.\<close>

definition refresh_window ::
  "flt \<Rightarrow> datapoint list \<Rightarrow> datapoint data_buffer \<times> moving_clusterer \<Rightarrow>
   (datapoint data_buffer \<times> moving_clusterer, unit) outcome option" where
  "refresh_window now tokens w =
     (case validate now (snd w) of
        (mc, Inl e) \<Rightarrow> Some ((fst w, mc), Inl e)
      | (mc, Inr rotated) \<Rightarrow>
          (case (if rotated then trim_head (- int (moving_length mc)) (fst w) else (fst w, Inr ())) of
             (d, Inl e) \<Rightarrow> Some ((d, mc), Inl e)
           | (d, Inr _) \<Rightarrow>
               if tokens = [] then Some ((d, mc), Inr ())
               else case reconcile (moving_length mc + length tokens) d of
                 None \<Rightarrow> None
               | Some d1 \<Rightarrow>
                   (case append_points tokens False d1 of
                      (d2, Inl e) \<Rightarrow> Some ((d2, mc), Inl e)
                    | (d2, Inr dps) \<Rightarrow>
                        (case insert_moving dps mc of
                           (mc1, Inl e) \<Rightarrow> Some ((d2, mc1), Inl e)
                         | (mc1, Inr _) \<Rightarrow> Some ((commit d2, mc1), Inr ())))))"

definition run_iteration ::
  "(flt \<Rightarrow> nat \<Rightarrow> flt list list \<Rightarrow> flt list list \<Rightarrow> flt list) \<Rightarrow> program_solver \<Rightarrow> (py_error + gpu_profile list) option \<Rightarrow>
   flt \<Rightarrow> load_record list \<Rightarrow> flt \<Rightarrow> (datapoint data_buffer \<times> moving_clusterer) \<times> monitor \<Rightarrow>
   ((datapoint data_buffer \<times> moving_clusterer) \<times> monitor, unit) outcome option" where
  "run_iteration dbscan lp read now records cur_rate s =
     (case refresh_window now (expand_records records) (fst s) of
        None \<Rightarrow> None
      | Some (w, Inl e) \<Rightarrow> Some ((w, snd s), Inl e)
      | Some (w, Inr _) \<Rightarrow>
          let (labels, centers) =
                (if buffer_len (fst w) > 0
                 then (case get_cluster_labels dbscan (datapoints (fst w)) (current_clusterer (snd w)) of (ls, cs, _) \<Rightarrow> (ls, cs))
                 else ([], []));
              m = (snd s)\<lparr>mon_labels := labels, mon_centers := centers\<rparr>
          in map_option (\<lambda>(m', r). ((w, m'), r))
               (if centers \<noteq> [] then
                  optimize_replicas lp read
                    (py_max (Fin (real (buffer_len (fst w))) / moving_window (snd w)) cur_rate) m
                else if buffer_len (fst w) = 0 then minimize_replicas m
                else Some (m, Inr ())))"

definition labeled :: "monitor \<Rightarrow> nat" where
  "labeled m = foldl (\<lambda>cnt c. cnt + cen_size c) 0 (mon_centers m)"

definition coverage :: "datapoint data_buffer option \<Rightarrow> monitor \<Rightarrow> py_error + flt" where
  "coverage data m =
     (case data of
        None \<Rightarrow> Inr (Fin 0)
      | Some d \<Rightarrow>
          if buffer_len d = 0 then Inl ZeroDivisionError
          else Inr (Fin (real (labeled m)) / Fin (real (buffer_len d)) * Fin 100))"

subsection \<open>The window holds what the current clusterer holds\<close>

definition window_inv :: "datapoint list \<Rightarrow> datapoint data_buffer \<times> moving_clusterer \<Rightarrow> bool" where
  "window_inv history w \<longleftrightarrow> buffer_ok (fst w) \<and> holds (datapoints (fst w)) (snd w) \<and> suffix (datapoints (fst w)) history"

lemma window_points [simp]: "win_points (window_of b) = datapoints b"
  by (simp add: window_of_def)

lemma rotate_window:
  assumes "window_inv history w"
  obtains mc rotated d where "validate now (snd w) = (mc, Inr rotated)"
    "(if rotated then trim_head (- int (moving_length mc)) (fst w) else (fst w, Inr ())) = (d, Inr ())"
    "window_inv history (d, mc)"
proof -
  let ?ps = "datapoints (fst w)"
  have inv: "buffer_ok (fst w)" "holds ?ps (snd w)" "suffix ?ps history"
    using assms by (auto simp: window_inv_def)
  obtain mc rotated qs where v: "validate now (snd w) = (mc, Inr rotated)" "holds qs mc" "suffix qs ?ps" "rotated \<or> qs = ?ps"
    using validate_holds [OF inv(2), where now = now] .
  have "last_n (moving_length mc) ?ps = qs"
    using v(2,3) holds_length [of qs mc] by (auto simp: suffix_def last_n_def)
  then obtain d where d: "trim_head (- int (moving_length mc)) (fst w) = (d, Inr ())" "buffer_ok d" "datapoints d = qs"
    using buffer.trim_to_newest [OF inv(1), of "moving_length mc"] by (metis window_points)
  have "suffix qs history"
    using v(3) inv(3) suffix_order.trans by blast
  then show ?thesis
    using that [OF v(1), of "if rotated then d else fst w"] d v(2,4) inv by (cases rotated) (auto simp: window_inv_def)
qed

lemma refresh_window_step:
  assumes "window_inv history w"
  obtains w' where "refresh_window now tokens w = Some (w', Inr ())" "window_inv (history @ tokens) w'"
proof -
  obtain mc rotated d where r: "validate now (snd w) = (mc, Inr rotated)"
    "(if rotated then trim_head (- int (moving_length mc)) (fst w) else (fst w, Inr ())) = (d, Inr ())" "window_inv history (d, mc)"
    using rotate_window [OF assms, where now = now] .
  have inv: "buffer_ok d" "holds (datapoints d) mc" "suffix (datapoints d) history"
    using r(3) by (auto simp: window_inv_def)
  show ?thesis
  proof (cases "tokens = []")
    case True
    then show ?thesis
      using that [of "(d, mc)"] r by (simp add: refresh_window_def)
  next
    case False
    obtain d1 d2 where d: "reconcile (moving_length mc + length tokens) d = Some d1"
      "append_points tokens True d1 = (d2, Inr tokens)" "buffer_ok d2" "datapoints d2 = datapoints d @ tokens"
      using buffer.grow_then_add [OF inv(1) False, of "moving_length mc + length tokens"] holds_length [OF inv(2)] by auto
    obtain d3 where d3: "append_points tokens False d1 = (d3, Inr tokens)" "d2 = commit d3"
      using d(2) by (auto simp: append_then_commit split: prod.splits sum.splits)
    obtain mc' where mc': "insert_moving tokens mc = (mc', Inr ())" "holds (datapoints d @ tokens) mc'"
      using insert_holds [OF inv(2) False] .
    have "refresh_window now tokens w = Some ((d2, mc'), Inr ())"
      using r False d(1) d3 mc'(1) by (simp add: refresh_window_def)
    moreover have "window_inv (history @ tokens) (d2, mc')"
      using d(3,4) mc'(2) inv(3) by (auto simp: window_inv_def suffix_def)
    ultimately show ?thesis
      using that by blast
  qed
qed

text \<open>A run of the loop's window part over the readings of the clock and the points read.\<close>

fun refresh_all ::
  "(flt \<times> datapoint list) list \<Rightarrow> datapoint data_buffer \<times> moving_clusterer \<Rightarrow>
   (datapoint data_buffer \<times> moving_clusterer, unit) outcome option" where
  "refresh_all [] w = Some (w, Inr ())"
| "refresh_all ((now, tokens) # rest) w =
     (case refresh_window now tokens w of
        None \<Rightarrow> None
      | Some (w', Inl e) \<Rightarrow> Some (w', Inl e)
      | Some (w', Inr _) \<Rightarrow> refresh_all rest w')"

lemma refresh_all_inv:
  "window_inv history w \<Longrightarrow>
   \<exists>w'. refresh_all reads w = Some (w', Inr ()) \<and> window_inv (history @ concat (map snd reads)) w'"
proof (induction reads arbitrary: history w)
  case (Cons r rest)
  obtain now tokens where r: "r = (now, tokens)"
    by fastforce
  obtain w1 where "refresh_window now tokens w = Some (w1, Inr ())" "window_inv (history @ tokens) w1"
    using refresh_window_step [OF Cons.prems, where now = now] .
  then show ?case
    using Cons.IH [of "history @ tokens" w1] r by simp
qed simp

text \<open>
  A removal of an unknown deployment leaves the lock held, and the next registration of a deployment
  never returns.
\<close>

lemma unknown_removal_blocks:
  assumes "\<not> mon_locked m" "map_of (mon_deployments m) (deployment_entry_point name ns) = None"
  obtains m' where "remove_deployment name ns m = Some (m', Inl KeyError)"
    "\<And>ver other ns' d. add_deployment ver other ns' (Inr d) m' = None"
proof -
  let ?m = "m\<lparr>mon_optimizer := delete_profile (deployment_entry_point name ns) (mon_optimizer m), mon_locked := True\<rparr>"
  have "remove_deployment name ns m = Some (?m, Inl KeyError)"
    using assms by (simp add: remove_deployment_def Let_def)
  moreover have "add_deployment ver other ns' (Inr d) ?m = None" for ver other ns' d
    by (auto simp: add_deployment_def match_profile_def Let_def split: option.split prod.split)
  ultimately show ?thesis
    using that by blast
qed

text \<open>
  A newer version of a profile that already took the formal name of its deployment is refused: the
  deployment is looked up under the short name.
\<close>

lemma newer_profile_refused:
  assumes "map_of (mon_profiles m) (gp_gpu p) = Some old" "gp_gpu old = key" "\<not> gp_created p \<le> gp_created old"
    and "map_of (mon_deployments m) key = Some d" "map_of (mon_deployments m) (gp_gpu p) = None" "\<not> mon_locked m"
  shows "\<exists>m'. update_profile p m = Some (m', Inl KeyError) \<and> mon_deployments m' = mon_deployments m \<and>
    mon_optimizer m' = mon_optimizer m"
  using assms by (simp add: update_profile_def Let_def)

lemma new_window_inv:
  assumes "storage \<noteq> []" "buffer_size \<noteq> 0"
  shows "window_inv [] (DataBuffer storage, MovingDBSCANClusterer start eps k buffer_size win)"
  using assms new_moving_holds by (simp add: window_inv_def DataBuffer_def buffer_ok_def datapoints_def)

lemma window_inv_recent:
  assumes "window_inv history (d, mc)"
  shows "datapoints d = db_points (current_clusterer mc)" "datapoints d = last_n (moving_length mc) history" "buffer_len d = moving_length mc"
proof -
  have inv: "buffer_ok d" "holds (datapoints d) mc" "suffix (datapoints d) history"
    using assms by (auto simp: window_inv_def)
  then show "datapoints d = db_points (current_clusterer mc)"
    by (simp add: holds_def)
  have len: "moving_length mc = length (datapoints d)" "buffer_len d = length (datapoints d)"
    using holds_length [OF inv(2)] inv(1) by (auto simp: buffer_len_def datapoints_def buffer_ok_def)
  then show "buffer_len d = moving_length mc"
    by simp
  show "datapoints d = last_n (moving_length mc) history"
    using inv(3) len by (auto simp: suffix_def last_n_def)
qed

subsection \<open>Properties\<close>



end
