(* ===== verification/Load_Reader.thy ===== *)
theory Load_Reader
  imports Load_Monitor Py_Values
begin

text \<open>
  The load readers over files (\<open>gpu_optimizer/load_monitor/load_reader.py\<close>): \<open>DatasetLoadReader\<close> hands
  out the rows of a table in batches of random size, \<open>WorkloadReader\<close> the requests of a time-stamped
  trace window by window. The contract the monitor loop needs from any reader is the locale
  \<open>load_source\<close>; it gives the monitor's window property for the reader's own records. The Poisson
  draws of NumPy and the parsed files are arguments.
\<close>

subsection \<open>Rounded logarithms\<close>

text \<open>\<open>np.round(x, k)\<close>: to \<open>k\<close> decimals, a tie to the even digit.\<close>

fun np_round :: "nat \<Rightarrow> flt \<Rightarrow> flt" where
  "np_round k (Fin x) = Fin (of_int (py_round (x * 10 ^ k)) / 10 ^ k)"
| "np_round k x = x"

definition log2_aggregate :: "nat \<Rightarrow> flt \<Rightarrow> flt" where
  "log2_aggregate precision x = np_round precision (flog2 x)"

subsection \<open>The dataset reader\<close>

record dataset_reader =
  ds_rows :: "(flt \<times> flt) list"
  ds_rps :: nat
  ds_interval :: nat
  ds_n_read :: nat
  ds_n :: nat

definition DatasetLoadReader :: "(flt \<times> flt) list \<Rightarrow> nat \<Rightarrow> flt \<Rightarrow> nat \<Rightarrow> dataset_reader" where
  "DatasetLoadReader rows rps scale interval =
     \<lparr>ds_rows = map (\<lambda>(i, out). (log2_aggregate 1 (i * scale), log2_aggregate 1 (out * scale))) rows,
      ds_rps = rps, ds_interval = interval, ds_n_read = 0, ds_n = 0\<rparr>"

text \<open>\<open>n_batch\<close> is the draw from the Poisson distribution.\<close>

definition dataset_read :: "nat \<Rightarrow> dataset_reader \<Rightarrow> dataset_reader \<times> load_record list \<times> flt" where
  "dataset_read n_batch s =
     (let stop = min (ds_n_read s + n_batch) (length (ds_rows s));
          chunk = take (stop - ds_n_read s) (drop (ds_n_read s) (ds_rows s));
          records = map (\<lambda>(i, out). (Fin (real (ds_n s * ds_interval s)), i, out, 1)) chunk
      in (s\<lparr>ds_n_read := stop, ds_n := Suc (ds_n s)\<rparr>, records,
          if records = [] then Fin 0 else Fin (real (ds_rps s))))"

subsection \<open>The workload reader\<close>

text \<open>A row of the trace: the time in milliseconds and the prompt and output lengths of its requests.\<close>

type_synonym trace = "(real \<times> (flt \<times> flt) list) list"

record workload_reader =
  wl_df :: trace
  wl_scale :: flt
  wl_interval :: real
  wl_n_read :: nat
  wl_n :: nat
  wl_tick :: real
  wl_tick_df :: "(flt \<times> flt) list option"
  wl_start :: real

definition read_next_tick :: "workload_reader \<Rightarrow> workload_reader" where
  "read_next_tick s =
     (if wl_n_read s \<ge> length (wl_df s) then s\<lparr>wl_tick := 0, wl_tick_df := None\<rparr>
      else let (t, reqs) = wl_df s ! wl_n_read s
           in s\<lparr>wl_n_read := Suc (wl_n_read s), wl_tick := t / 1000, wl_tick_df := Some reqs\<rparr>)"

definition WorkloadReader :: "trace \<Rightarrow> flt \<Rightarrow> real \<Rightarrow> workload_reader" where
  "WorkloadReader df scale interval =
     (let s = read_next_tick \<lparr>wl_df = df, wl_scale = scale, wl_interval = interval, wl_n_read = 0, wl_n = 0,
                wl_tick = 0, wl_tick_df = None, wl_start = 0\<rparr>
      in s\<lparr>wl_start := wl_tick s\<rparr>)"

text \<open>The records of one tick; a length of 0 has no logarithm and is skipped.\<close>

definition tick_records :: "flt \<Rightarrow> real \<Rightarrow> (flt \<times> flt) list \<Rightarrow> load_record list" where
  "tick_records scale ts reqs =
     concat (map (\<lambda>(prompt, out).
       let input_tokens = log2_aggregate 1 (prompt * scale); output_tokens = log2_aggregate 1 (out * scale)
       in if output_tokens \<in> {PInf, MInf} \<or> input_tokens \<in> {PInf, MInf} then []
          else [(Fin ts, input_tokens, output_tokens, 1)]) reqs)"

text \<open>The frame of a tick without requests has no columns, so selecting one raises.\<close>

function read_ticks :: "real \<Rightarrow> workload_reader \<Rightarrow> (workload_reader, load_record list) outcome" where
  "read_ticks tick_start s =
     (case wl_tick_df s of
        None \<Rightarrow> (s, Inr [])
      | Some reqs \<Rightarrow>
          if tick_start \<le> wl_tick s \<and> wl_tick s < tick_start + wl_interval s then
            if reqs = [] then (s, Inl KeyError)
            else obind (read_ticks tick_start (read_next_tick s)) (\<lambda>s1 records.
                   (s1, Inr (tick_records (wl_scale s) (wl_tick s - wl_start s) reqs @ records)))
          else (s, Inr []))"
  by pat_completeness auto
termination read_ticks
  by (relation "measure (\<lambda>(_, s). length (wl_df s) - wl_n_read s + (if wl_tick_df s = None then 0 else 1))")
    (auto simp: read_next_tick_def Let_def split: prod.split)

declare read_ticks.simps [simp del]

definition workload_read :: "workload_reader \<Rightarrow> (workload_reader, load_record list \<times> flt) outcome" where
  "workload_read s =
     (case wl_tick_df s of
        None \<Rightarrow> (s, Inr ([], Fin 0))
      | Some _ \<Rightarrow>
          obind (read_ticks (wl_start s + real (wl_n s) * wl_interval s) s) (\<lambda>s1 records.
            let s2 = s1\<lparr>wl_n := Suc (wl_n s1)\<rparr>
            in if wl_interval s2 = 0 then (s2, Inl ZeroDivisionError)
               else (s2, Inr (records, Fin (real (length records) / wl_interval s2)))))"

fun workload_reads :: "nat \<Rightarrow> workload_reader \<Rightarrow> (workload_reader, (load_record list \<times> flt) list) outcome" where
  "workload_reads 0 s = (s, Inr [])"
| "workload_reads (Suc k) s =
     obind (workload_read s) (\<lambda>s1 r. obind (workload_reads k s1) (\<lambda>s2 rs. (s2, Inr (r # rs))))"

subsection \<open>Batches of a dataset\<close>

fun dataset_reads :: "nat list \<Rightarrow> dataset_reader \<Rightarrow> dataset_reader \<times> (load_record list \<times> flt) list" where
  "dataset_reads [] s = (s, [])"
| "dataset_reads (n # ns) s =
     (let (s1, r) = dataset_read n s; (s2, rs) = dataset_reads ns s1 in (s2, r # rs))"

definition tokens_of :: "load_record \<Rightarrow> flt \<times> flt" where
  "tokens_of r = (case r of (ts, i, out, f) \<Rightarrow> (i, out))"

lemma dataset_reads_rows:
  "ds_n_read s \<le> length (ds_rows s) \<Longrightarrow>
   map tokens_of (concat (map fst (snd (dataset_reads ns s)))) = take (sum_list ns) (drop (ds_n_read s) (ds_rows s))"
proof (induction ns arbitrary: s)
  case (Cons n ns)
  obtain s1 recs cur_rate where r: "dataset_read n s = (s1, recs, cur_rate)"
    using prod_cases3 by blast
  let ?stop = "min (ds_n_read s + n) (length (ds_rows s))"
  have s1: "ds_n_read s1 = ?stop" "ds_rows s1 = ds_rows s"
    and recs: "map tokens_of recs = take n (drop (ds_n_read s) (ds_rows s))"
    using r Cons.prems by (auto simp: dataset_read_def Let_def tokens_of_def comp_def split_def min_def)
  have "map tokens_of (concat (map fst (snd (dataset_reads ns s1)))) = take (sum_list ns) (drop ?stop (ds_rows s))"
    using Cons.IH [of s1] s1 by simp
  also have "drop ?stop (ds_rows s) = drop n (drop (ds_n_read s) (ds_rows s))"
    by (cases "ds_n_read s + n \<le> length (ds_rows s)") (simp_all add: add.commute min_def)
  finally show ?case
    using r recs by (simp add: Let_def split_def take_add)
qed simp

subsection \<open>Windows of a trace\<close>

definition window_rows :: "real \<Rightarrow> real \<Rightarrow> nat \<Rightarrow> trace \<Rightarrow> trace" where
  "window_rows start interval k df =
     filter (\<lambda>(t, _). start + real k * interval \<le> t / 1000 \<and> t / 1000 < start + real (Suc k) * interval) df"

definition rows_records :: "flt \<Rightarrow> real \<Rightarrow> trace \<Rightarrow> load_record list" where
  "rows_records scale start rows = concat (map (\<lambda>(t, reqs). tick_records scale (t / 1000 - start) reqs) rows)"

text \<open>The reader stands before \<open>rows\<close>: the current tick is the first of them, the file position is behind it.\<close>

definition stands_before :: "trace \<Rightarrow> workload_reader \<Rightarrow> bool" where
  "stands_before rows s \<longleftrightarrow>
     (case rows of
        [] \<Rightarrow> wl_tick_df s = None \<and> length (wl_df s) \<le> wl_n_read s
      | (t, reqs) # rest \<Rightarrow> wl_tick s = t / 1000 \<and> wl_tick_df s = Some reqs \<and> drop (wl_n_read s) (wl_df s) = rest)"

definition same_setup :: "workload_reader \<Rightarrow> workload_reader \<Rightarrow> bool" where
  "same_setup s s1 \<longleftrightarrow> wl_df s1 = wl_df s \<and> wl_scale s1 = wl_scale s \<and> wl_interval s1 = wl_interval s \<and>
     wl_start s1 = wl_start s \<and> wl_n s1 = wl_n s"

lemma next_tick:
  "drop (wl_n_read s) (wl_df s) = rows \<Longrightarrow> stands_before rows (read_next_tick s) \<and> same_setup s (read_next_tick s)"
  by (cases rows)
    (auto simp: stands_before_def read_next_tick_def same_setup_def Let_def split: prod.split
      dest: arg_cong [where f = hd] arg_cong [where f = tl] simp: hd_drop_conv_nth drop_Suc tl_drop)

lemma read_ticks_rows:
  assumes "stands_before rows s" "\<forall>(t, reqs) \<in> set rows. reqs \<noteq> [] \<and> t0 \<le> t / 1000"
  shows "\<exists>s1. read_ticks t0 s = (s1, Inr (rows_records (wl_scale s) (wl_start s)
             (takeWhile (\<lambda>(t, _). t / 1000 < t0 + wl_interval s) rows))) \<and>
           stands_before (dropWhile (\<lambda>(t, _). t / 1000 < t0 + wl_interval s) rows) s1 \<and> same_setup s s1"
  using assms
proof (induction rows arbitrary: s)
  case Nil
  then show ?case
    by (simp add: read_ticks.simps [of t0 s] stands_before_def rows_records_def same_setup_def)
next
  case (Cons row rest)
  obtain t reqs where row: "row = (t, reqs)"
    by fastforce
  then have s: "wl_tick s = t / 1000" "wl_tick_df s = Some reqs" "drop (wl_n_read s) (wl_df s) = rest"
    and ok: "reqs \<noteq> []" "t0 \<le> t / 1000"
    using Cons.prems by (auto simp: stands_before_def)
  show ?case
  proof (cases "t / 1000 < t0 + wl_interval s")
    case True
    from next_tick [OF s(3)] have n: "stands_before rest (read_next_tick s)" "same_setup s (read_next_tick s)"
      by blast+
    then show ?thesis
      using Cons.IH [OF n(1)] Cons.prems(2) True s ok row
      by (auto simp: read_ticks.simps [of t0 s] same_setup_def rows_records_def)
  next
    case False
    then show ?thesis
      using Cons.prems(1) s row by (simp add: read_ticks.simps [of t0 s] rows_records_def same_setup_def)
  qed
qed

lemma sorted_split:
  assumes "sorted (map fst (rows :: trace))"
  shows "takeWhile (\<lambda>(t, _). t / 1000 < b) rows = filter (\<lambda>(t, _). t / 1000 < b) rows"
    "dropWhile (\<lambda>(t, _). t / 1000 < b) rows = filter (\<lambda>(t, _). b \<le> t / 1000) rows"
proof -
  have all: "\<forall>r \<in> set rest. b \<le> fst r / 1000" if "sorted (map fst (row # rest))" "b \<le> fst row / 1000" for row rest
    using that by force
  show "takeWhile (\<lambda>(t, _). t / 1000 < b) rows = filter (\<lambda>(t, _). t / 1000 < b) rows"
    using assms
  proof (induction rows)
    case (Cons row rest)
    then show ?case
      using all [of row rest] by (cases "fst row / 1000 < b") (auto simp: split_def filter_empty_conv not_less)
  qed simp
  show "dropWhile (\<lambda>(t, _). t / 1000 < b) rows = filter (\<lambda>(t, _). b \<le> t / 1000) rows"
    using assms
  proof (induction rows)
    case (Cons row rest)
    then show ?case
      using all [of row rest] by (cases "fst row / 1000 < b") (auto simp: split_def filter_id_conv not_less)
  qed simp
qed

text \<open>After \<open>k\<close> reads exactly the rows from window \<open>k\<close> on are left; at the end of the trace the count stops.\<close>

definition at_window :: "nat \<Rightarrow> workload_reader \<Rightarrow> bool" where
  "at_window k s \<longleftrightarrow>
     stands_before (filter (\<lambda>(t, _). wl_start s + real k * wl_interval s \<le> t / 1000) (wl_df s)) s \<and>
     (wl_tick_df s \<noteq> None \<longrightarrow> wl_n s = k)"

definition trace_ok :: "workload_reader \<Rightarrow> bool" where
  "trace_ok s \<longleftrightarrow> sorted (map fst (wl_df s)) \<and> (\<forall>(t, reqs) \<in> set (wl_df s). reqs \<noteq> []) \<and> 0 < wl_interval s"

lemma workload_read_window:
  assumes "at_window k s" "trace_ok s"
  defines "recs \<equiv> rows_records (wl_scale s) (wl_start s) (window_rows (wl_start s) (wl_interval s) k (wl_df s))"
  obtains s1 where "workload_read s = (s1, Inr (recs, Fin (real (length recs) / wl_interval s)))"
    "at_window (Suc k) s1" "wl_df s1 = wl_df s" "wl_scale s1 = wl_scale s" "wl_interval s1 = wl_interval s" "wl_start s1 = wl_start s"
proof -
  let ?t0 = "wl_start s + real k * wl_interval s"
  let ?rows = "filter (\<lambda>(t, _). ?t0 \<le> t / 1000) (wl_df s)"
  have ok: "\<forall>(t, reqs) \<in> set ?rows. reqs \<noteq> [] \<and> ?t0 \<le> t / 1000" "sorted (map fst ?rows)" "0 < wl_interval s"
    using assms(2) by (auto simp: trace_ok_def sorted_filter)
  have t1: "?t0 + wl_interval s = wl_start s + real (Suc k) * wl_interval s"
    by (simp add: algebra_simps)
  have take: "filter (\<lambda>(t, _). t / 1000 < ?t0 + wl_interval s) ?rows = window_rows (wl_start s) (wl_interval s) k (wl_df s)"
    unfolding t1 by (simp add: window_rows_def split_def conj_commute)
  have drop: "filter (\<lambda>(t, _). ?t0 + wl_interval s \<le> t / 1000) ?rows =
      filter (\<lambda>(t, _). wl_start s + real (Suc k) * wl_interval s \<le> t / 1000) (wl_df s)"
    unfolding t1 using ok(3) by (auto simp: algebra_simps split_def intro!: filter_cong)
  obtain s1 where r: "read_ticks ?t0 s = (s1, Inr recs)"
    "stands_before (filter (\<lambda>(t, _). wl_start s + real (Suc k) * wl_interval s \<le> t / 1000) (wl_df s)) s1" "same_setup s s1"
    using read_ticks_rows [of ?rows s ?t0] assms(1) ok(1) sorted_split [OF ok(2), of "?t0 + wl_interval s"]
    unfolding take drop recs_def by (auto simp: at_window_def)
  show ?thesis
  proof (cases "wl_tick_df s")
    case None
    then have rows: "?rows = []" "length (wl_df s) \<le> wl_n_read s"
      using assms(1) by (auto simp: at_window_def stands_before_def split: list.splits)
    then have "recs = []" "filter (\<lambda>(t, _). wl_start s + real (Suc k) * wl_interval s \<le> t / 1000) (wl_df s) = []"
      unfolding recs_def using take drop by (simp_all add: rows_records_def)
    then show ?thesis
      using that [of s] None rows(2) by (simp add: workload_read_def at_window_def stands_before_def)
  next
    case (Some reqs)
    let ?s2 = "s1\<lparr>wl_n := Suc (wl_n s1)\<rparr>"
    have "wl_n s = k"
      using assms(1) Some by (simp add: at_window_def)
    then have "workload_read s = (?s2, Inr (recs, Fin (real (length recs) / wl_interval s)))" "at_window (Suc k) ?s2"
      using r ok(3) Some by (auto simp: workload_read_def same_setup_def at_window_def stands_before_def split: list.splits)
    then show ?thesis
      using that [of ?s2] r(3) by (simp add: same_setup_def)
  qed
qed

lemma workload_reads_from:
  "at_window k s \<Longrightarrow> trace_ok s \<Longrightarrow>
   \<exists>s1. workload_reads n s = (s1, Inr (map (\<lambda>j.
     let recs = rows_records (wl_scale s) (wl_start s) (window_rows (wl_start s) (wl_interval s) j (wl_df s))
     in (recs, Fin (real (length recs) / wl_interval s))) [k..<k + n]))"
proof (induction n arbitrary: k s)
  case (Suc n)
  obtain s1 where s1: "workload_read s = (s1, Inr (let recs = rows_records (wl_scale s) (wl_start s) (window_rows (wl_start s) (wl_interval s) k (wl_df s))
     in (recs, Fin (real (length recs) / wl_interval s))))"
    "at_window (Suc k) s1" "wl_df s1 = wl_df s" "wl_scale s1 = wl_scale s" "wl_interval s1 = wl_interval s" "wl_start s1 = wl_start s"
    using workload_read_window [OF Suc.prems] by (metis (no_types, lifting))
  have "trace_ok s1"
    using Suc.prems(2) s1 by (simp add: trace_ok_def)
  from Suc.IH [OF s1(2) this] show ?case
    using s1 by (auto simp: upt_conv_Cons simp del: upt_Suc)
qed simp

lemma new_reader_at_window:
  assumes "sorted (map fst df)"
  shows "at_window 0 (WorkloadReader df scale interval)" "wl_df (WorkloadReader df scale interval) = df"
    "wl_scale (WorkloadReader df scale interval) = scale" "wl_interval (WorkloadReader df scale interval) = interval"
    "wl_start (WorkloadReader df scale interval) = (case df of [] \<Rightarrow> 0 | (t, _) # _ \<Rightarrow> t / 1000)"
proof -
  have "filter (\<lambda>(t, _). t0 / 1000 \<le> t / 1000) rest = rest" if "df = (t0, reqs) # rest" for t0 reqs rest
    using assms that by (force simp: filter_id_conv)
  then show "at_window 0 (WorkloadReader df scale interval)"
    by (cases df) (auto simp: at_window_def stands_before_def WorkloadReader_def read_next_tick_def Let_def)
qed (auto simp: WorkloadReader_def read_next_tick_def Let_def split: list.split prod.split)

subsection \<open>The contract of a load reader\<close>

text \<open>
  The part of the monitor loop that reads: the window is rotated, the reader is called and its
  records are taken into the window. What the outside supplies to one call of the reader (the clock,
  a random draw, the contents of the store) has type \<open>'t\<close>. The result holds all records read.
  Refreshing the window with no points is the rotation alone: it comes before the reader is called,
  so an exception of either is raised in the order of the code.
\<close>

fun feed_monitor ::
  "('t \<Rightarrow> 's \<Rightarrow> ('s, load_record list \<times> flt) outcome option) \<Rightarrow> (flt \<times> 't) list \<Rightarrow> 's \<Rightarrow>
   datapoint data_buffer \<times> moving_clusterer \<Rightarrow>
   ('s \<times> (datapoint data_buffer \<times> moving_clusterer), load_record list) outcome option" where
  "feed_monitor read [] s w = Some ((s, w), Inr [])"
| "feed_monitor read ((now, t) # rest) s w =
     (case refresh_window now [] w of
        None \<Rightarrow> None
      | Some (w1, Inl e) \<Rightarrow> Some ((s, w1), Inl e)
      | Some (w1, Inr _) \<Rightarrow>
          (case read t s of
             None \<Rightarrow> None
           | Some (s1, Inl e) \<Rightarrow> Some ((s1, w1), Inl e)
           | Some (s1, Inr (records, cur_rate)) \<Rightarrow>
               (case refresh_window now (expand_records records) w of
                  None \<Rightarrow> None
                | Some (w2, Inl e) \<Rightarrow> Some ((s1, w2), Inl e)
                | Some (w2, Inr _) \<Rightarrow>
                    map_option (\<lambda>(sw, r). (sw, ebind r (\<lambda>more. Inr (records @ more)))) (feed_monitor read rest s1 w2))))"

lemma expand_append: "expand_records (xs @ ys) = expand_records xs @ expand_records ys"
  by (simp add: expand_records_def)

locale load_source =
  fixes read :: "'t \<Rightarrow> 's \<Rightarrow> ('s, load_record list \<times> flt) outcome option"
    and ready :: "'s \<Rightarrow> bool"
  assumes read_returns: "ready s \<Longrightarrow> \<exists>s1 records cur_rate. read t s = Some (s1, Inr (records, cur_rate)) \<and> ready s1"
begin

lemma feed_window:
  "ready s \<Longrightarrow> window_inv history w \<Longrightarrow>
   \<exists>s1 w1 records. feed_monitor read calls s w = Some ((s1, w1), Inr records) \<and> ready s1 \<and>
     window_inv (history @ expand_records records) w1"
proof (induction calls arbitrary: s w history)
  case Nil
  then show ?case
    by (simp add: expand_records_def)
next
  case (Cons call rest)
  obtain now t where call: "call = (now, t)"
    by fastforce
  obtain w0 where w0: "refresh_window now [] w = Some (w0, Inr ())"
    using refresh_window_step [OF Cons.prems(2)] .
  obtain s1 records cur_rate where r: "read t s = Some (s1, Inr (records, cur_rate))" "ready s1"
    using read_returns [OF Cons.prems(1)] by blast
  obtain w2 where w2: "refresh_window now (expand_records records) w = Some (w2, Inr ())"
    "window_inv (history @ expand_records records) w2"
    using refresh_window_step [OF Cons.prems(2)] .
  obtain s3 w3 more where f: "feed_monitor read rest s1 w2 = Some ((s3, w3), Inr more)" "ready s3"
    "window_inv ((history @ expand_records records) @ expand_records more) w3"
    using Cons.IH [OF r(2) w2(2)] by blast
  then show ?case
    using w0 r(1) w2(1) call by (simp add: expand_append)
qed

end

definition dataset_source :: "nat \<Rightarrow> dataset_reader \<Rightarrow> (dataset_reader, load_record list \<times> flt) outcome option" where
  "dataset_source n s = (case dataset_read n s of (s1, r) \<Rightarrow> Some (s1, Inr r))"

interpretation dataset: load_source dataset_source "\<lambda>_. True"
  by unfold_locales (auto simp: dataset_source_def split: prod.split)

definition workload_source :: "unit \<Rightarrow> workload_reader \<Rightarrow> (workload_reader, load_record list \<times> flt) outcome option" where
  "workload_source _ s = Some (workload_read s)"

interpretation workload: load_source workload_source "\<lambda>s. trace_ok s \<and> (\<exists>k. at_window k s)"
proof
  fix s t assume s: "trace_ok s \<and> (\<exists>k. at_window k s)"
  then obtain k where k: "at_window k s"
    by blast
  obtain s1 where s1: "workload_read s = (s1, Inr (rows_records (wl_scale s) (wl_start s) (window_rows (wl_start s) (wl_interval s) k (wl_df s)),
      Fin (real (length (rows_records (wl_scale s) (wl_start s) (window_rows (wl_start s) (wl_interval s) k (wl_df s)))) / wl_interval s)))"
    "at_window (Suc k) s1" "wl_df s1 = wl_df s" "wl_interval s1 = wl_interval s"
    using workload_read_window [OF k] s by blast
  have "trace_ok s1"
    using s s1(3,4) by (simp add: trace_ok_def)
  with s1 show "\<exists>s1 records cur_rate. workload_source t s = Some (s1, Inr (records, cur_rate)) \<and> trace_ok s1 \<and> (\<exists>k. at_window k s1)"
    by (auto simp: workload_source_def)
qed

subsection \<open>Properties of the readers\<close>



text \<open>A tick that lies before the current window is never taken: every later read returns nothing.\<close>

lemma late_tick_blocks_reader:
  assumes "wl_tick_df s = Some reqs" "wl_tick s < wl_start s + real (wl_n s) * wl_interval s" "0 < wl_interval s"
  shows "\<exists>s1. workload_reads n s = (s1, Inr (replicate n ([], Fin 0)))"
  using assms
proof (induction n arbitrary: s)
  case (Suc n)
  let ?s = "s\<lparr>wl_n := Suc (wl_n s)\<rparr>"
  have "workload_read s = (?s, Inr ([], Fin 0))"
    using Suc.prems by (simp add: workload_read_def read_ticks.simps [of _ s])
  moreover have "\<exists>s1. workload_reads n ?s = (s1, Inr (replicate n ([], Fin 0)))"
    using Suc.prems by (intro Suc.IH) (simp_all add: algebra_simps)
  ultimately show ?case
    by auto
qed simp

text \<open>A tick without requests raises, and the reader stays before it: so does every later read.\<close>

lemma empty_tick_raises:
  assumes "wl_tick_df s = Some []" "wl_start s + real (wl_n s) * wl_interval s \<le> wl_tick s"
    "wl_tick s < wl_start s + real (wl_n s) * wl_interval s + wl_interval s"
  shows "workload_read s = (s, Inl KeyError)"
  using assms by (simp add: workload_read_def read_ticks.simps [of _ s])

end
