(* ===== verification/Gateway_Reader.thy ===== *)
theory Gateway_Reader
  imports Load_Reader
begin

text \<open>
  The load reader over the statistics the gateway keeps in Redis and the profile readers
  (\<open>gpu_optimizer/load_monitor/load_reader.py\<close>, class \<open>GatewayLoadReader\<close>, and \<open>profile_reader.py\<close>).
  Redis is two functions, one step of a scan and the lookup of a key, either of which may raise; a
  call sees the contents of the store at that time. The values of a profile are whatever JSON the
  gateway wrote, so arithmetic on them may raise. Log output is left out.
\<close>

subsection \<open>Arithmetic on values of a document\<close>

fun py_num :: "pyval \<Rightarrow> py_error + flt" where
  "py_num (PBool b) = Inr (Fin (if b then 1 else 0))"
| "py_num (PInt i) = Inr (Fin (of_int i))"
| "py_num (PFloat x) = Inr x"
| "py_num _ = Inl TypeError"

definition py_truediv :: "pyval \<Rightarrow> pyval \<Rightarrow> py_error + flt" where
  "py_truediv v w =
     ebind (py_num v) (\<lambda>x. ebind (py_num w) (\<lambda>y. if y = Fin 0 then Inl ZeroDivisionError else Inr (x / y)))"

text \<open>\<open>x % y\<close>: the result has the sign of \<open>y\<close>.\<close>

fun py_mod :: "real \<Rightarrow> flt \<Rightarrow> py_error + flt" where
  "py_mod x (Fin y) = (if y = 0 then Inl ZeroDivisionError else Inr (Fin (x - y * of_int \<lfloor>x / y\<rfloor>)))"
| "py_mod x PInf = Inr (if x \<ge> 0 then Fin x else PInf)"
| "py_mod x MInf = Inr (if x \<le> 0 then Fin x else MInf)"
| "py_mod x NaN = Inr NaN"

subsection \<open>Keys\<close>

text \<open>The end of the text in a regular expression may stand before a final newline.\<close>

definition chop_newline :: "string \<Rightarrow> string" where
  "chop_newline s = (if s \<noteq> [] \<and> last s = CHR ''\<newline>'' then butlast s else s)"

definition trace_key_ts :: "string \<Rightarrow> nat option" where
  "trace_key_ts key =
     (let s = chop_newline key; ds = rev (takeWhile is_digit (rev s)); front = take (length s - length ds) s
      in if ds \<noteq> [] \<and> front \<noteq> [] \<and> last front = CHR ''_'' then Some (nat_of ds) else None)"

definition colon_pair :: "string \<Rightarrow> (nat \<times> nat) option" where
  "colon_pair key =
     (case split_at (CHR '':'') (chop_newline key) of
        [a, b] \<Rightarrow>
          if a \<noteq> [] \<and> b \<noteq> [] \<and> list_all is_digit a \<and> list_all is_digit b then Some (nat_of a, nat_of b) else None
      | _ \<Rightarrow> None)"

subsection \<open>The reader\<close>

record gateway_reader =
  gw_start :: real
  gw_last_ts :: flt
  gw_prefix :: string
  gw_alignment :: pyval
  gw_ver :: nat

definition GatewayLoadReader :: "string \<Rightarrow> pyval \<Rightarrow> gateway_reader" where
  "GatewayLoadReader model_name key_ts_alignment =
     \<lparr>gw_start = 0, gw_last_ts = Fin 0, gw_prefix = ''aibrix:'' @ model_name @ ''_request_trace_'',
      gw_alignment = key_ts_alignment, gw_ver = 3\<rparr>"

type_synonym trace_record = "flt \<times> flt \<times> flt \<times> int"

record redis =
  scan :: "nat \<Rightarrow> py_error + nat \<times> string list"
  fetch :: "string \<Rightarrow> py_error + string option"

definition read_key :: "redis \<Rightarrow> string \<Rightarrow> py_error + (string \<times> pyval) list option" where
  "read_key rd key =
     (case fetch rd key of
        Inl e \<Rightarrow> Inl e
      | Inr None \<Rightarrow> Inr None
      | Inr (Some text) \<Rightarrow> (case loads text of Inr (PDict kvs) \<Rightarrow> Inr (Some kvs) | _ \<Rightarrow> Inl Exception))"

text \<open>
  The entries of a profile are appended to the caller's list one by one: an entry that raises leaves
  the ones before it there. A count of zero passes only as the text \<open>0\<close>.
\<close>

fun parse_entries :: "flt \<Rightarrow> pyval \<Rightarrow> (string \<times> pyval) list \<Rightarrow> int \<Rightarrow> trace_record list \<Rightarrow> (trace_record list, int) outcome" where
  "parse_entries ts precision [] tot out_records = (out_records, Inr tot)"
| "parse_entries ts precision ((k, v) # rest) tot out_records =
     (if starts_with ''meta_'' k then parse_entries ts precision rest tot out_records
      else case colon_pair k of
        None \<Rightarrow> (out_records, Inl Exception)
      | Some (a, b) \<Rightarrow>
          (case as_int v of
             Inl e \<Rightarrow> (out_records, Inl e)
           | Inr n \<Rightarrow>
               if n = 0 \<and> v \<noteq> PStr ''0'' then (out_records, Inl Exception)
               else
                 (case ebind (py_truediv (PInt (int a)) precision) (\<lambda>i.
                         ebind (py_truediv (PInt (int b)) precision) (\<lambda>out. Inr (i, out))) of
                    Inl e \<Rightarrow> (out_records, Inl e)
                  | Inr (i, out) \<Rightarrow> parse_entries ts precision rest (tot + n) (out_records @ [(ts, i, out, n)]))))"

definition meta_value :: "(string \<times> pyval) list \<Rightarrow> string \<Rightarrow> int \<Rightarrow> pyval" where
  "meta_value profiles k d = (case map_of profiles k of Some v \<Rightarrow> v | None \<Rightarrow> PInt d)"

definition parse_profiles ::
  "(string \<times> pyval) list \<Rightarrow> flt \<Rightarrow> gateway_reader \<times> trace_record list \<Rightarrow>
   (gateway_reader \<times> trace_record list, pyval \<times> pyval) outcome" where
  "parse_profiles profiles ts so =
     (case py_num (meta_value profiles ''meta_v'' 1) of
        Inl e \<Rightarrow> (so, Inl e)
      | Inr version \<Rightarrow>
          let s1 = (if Fin 2 \<le> version then (fst so)\<lparr>gw_alignment := meta_value profiles ''meta_interval_sec'' 10\<rparr> else fst so);
              (reported, pending) =
                (if Fin 3 \<le> version
                 then (meta_value profiles ''meta_total_reqs'' 0, meta_value profiles ''meta_pending_reqs'' 0)
                 else (PInt 0, PInt 0))
          in (case parse_entries ts (meta_value profiles ''meta_precision'' 1) profiles 0 (snd so) of
                (out, Inl e) \<Rightarrow> ((s1, out), Inl e)
              | (out, Inr tot) \<Rightarrow> ((s1, out), Inr (if version < Fin 3 then PInt tot else reported, pending))))"

definition get_rate :: "pyval \<Rightarrow> gateway_reader \<Rightarrow> py_error + flt" where
  "get_rate tot s = py_truediv tot (gw_alignment s)"

subsection \<open>The first read\<close>

partial_function (option) scan_keys :: "redis \<Rightarrow> nat \<Rightarrow> string list \<Rightarrow> (py_error + string list) option" where
  "scan_keys rd cursor found =
     (case scan rd cursor of
        Inl e \<Rightarrow> Some (Inl e)
      | Inr (next_cursor, keys) \<Rightarrow>
          if next_cursor = 0 then Some (Inr (found @ keys)) else scan_keys rd next_cursor (found @ keys))"

definition matching_keys :: "string list \<Rightarrow> (string \<times> nat) list" where
  "matching_keys keys =
     sort_key snd (concat (map (\<lambda>k. case trace_key_ts k of Some t \<Rightarrow> [(k, t)] | None \<Rightarrow> []) keys))"

fun read_traces :: "redis \<Rightarrow> (string \<times> nat) list \<Rightarrow> gateway_reader \<Rightarrow> trace_record list \<Rightarrow> flt \<Rightarrow> gateway_reader \<times> trace_record list \<times> flt" where
  "read_traces rd [] s records last_rate = (s, records, last_rate)"
| "read_traces rd ((key, ts) # rest) s records last_rate =
     (let s1 = s\<lparr>gw_last_ts := Fin (real ts)\<rparr> in
      case read_key rd key of
        Inr (Some (entry # entries)) \<Rightarrow>
          (case parse_profiles (entry # entries) (Fin (real ts)) (s1, records) of
             ((s2, out), Inl e) \<Rightarrow> read_traces rd rest s2 out last_rate
           | ((s2, out), Inr (tot, pending)) \<Rightarrow>
               read_traces rd rest s2 out (case get_rate tot s2 of Inr r \<Rightarrow> r | Inl e \<Rightarrow> last_rate))
      | _ \<Rightarrow> read_traces rd rest s1 records last_rate)"

definition read_first :: "redis \<Rightarrow> real \<Rightarrow> gateway_reader \<Rightarrow> (gateway_reader, trace_record list \<times> flt) outcome option" where
  "read_first rd now s =
     map_option (\<lambda>r.
       case r of
         Inl e \<Rightarrow> (s, Inl e)
       | Inr keys \<Rightarrow>
           (case matching_keys keys of
              [] \<Rightarrow> (s\<lparr>gw_last_ts := Fin now\<rparr>, Inr ([], Fin 0))
            | ks \<Rightarrow> (case read_traces rd ks s [] (Fin 0) of (s1, r1) \<Rightarrow> (s1, Inr r1))))
       (scan_keys rd 0 [])"

subsection \<open>Reading\<close>

text \<open>An old gateway writes the profile of a window late, so the window before it is read.\<close>

definition window_profiles :: "redis \<Rightarrow> flt \<Rightarrow> gateway_reader \<Rightarrow> py_error + (string \<times> pyval) list option" where
  "window_profiles rd aligned s =
     ebind (if gw_ver s < 3 then ebind (py_num (gw_alignment s)) (\<lambda>a. Inr (aligned - a)) else Inr aligned)
       (\<lambda>x. ebind (as_int (PFloat x)) (\<lambda>i. read_key rd (gw_prefix s @ int_str i)))"

definition read_aligned :: "redis \<Rightarrow> flt \<Rightarrow> gateway_reader \<Rightarrow> (gateway_reader, trace_record list \<times> flt) outcome" where
  "read_aligned rd aligned s =
     (if aligned \<le> gw_last_ts s then (s, Inr ([], Fin 0))
      else
        case window_profiles rd aligned s of
          Inl e \<Rightarrow> (s, Inl e)
        | Inr profiles \<Rightarrow>
            let s1 = s\<lparr>gw_last_ts := aligned\<rparr> in
            (case profiles of
               Some (entry # entries) \<Rightarrow>
                 (case parse_profiles (entry # entries) aligned (s1, []) of
                    ((s2, out), Inl e) \<Rightarrow> (s2, Inl e)
                  | ((s2, out), Inr (tot, pending)) \<Rightarrow> (s2, ebind (get_rate tot s2) (\<lambda>r. Inr (out, r))))
             | _ \<Rightarrow> (s1, Inr ([], Fin 0))))"

definition read_window :: "redis \<Rightarrow> real \<Rightarrow> gateway_reader \<Rightarrow> (gateway_reader, trace_record list \<times> flt) outcome" where
  "read_window rd ts s =
     (case ebind (py_num (gw_alignment s)) (py_mod ts) of
        Inl e \<Rightarrow> (s, Inl e)
      | Inr m \<Rightarrow> read_aligned rd (Fin ts - m) s)"

text \<open>Any exception is logged and gives no records; the scan of the first read may not return.\<close>

definition gateway_read :: "redis \<Rightarrow> real \<Rightarrow> real \<Rightarrow> gateway_reader \<Rightarrow> (gateway_reader \<times> trace_record list \<times> flt) option" where
  "gateway_read rd now ts s =
     map_option (\<lambda>(s1, r). (s1, case r of Inr x \<Rightarrow> x | Inl e \<Rightarrow> ([], Fin 0)))
       (if gw_start s = 0 then read_first rd now (s\<lparr>gw_start := ts\<rparr>) else Some (read_window rd ts s))"

definition gateway_next_available :: "gateway_reader \<Rightarrow> py_error + flt" where
  "gateway_next_available s = ebind (py_num (gw_alignment s)) (\<lambda>a. Inr (gw_last_ts s + a + Fin 2))"

subsection \<open>Profile readers\<close>

text \<open>A profile object takes its fields from the keywords it knows and refuses any other.\<close>

record raw_profile =
  raw_gpu :: pyval
  raw_cost :: pyval
  raw_tputs :: pyval
  raw_indexes :: pyval
  raw_created :: pyval

definition GPUProfile :: "pyval \<Rightarrow> py_error + raw_profile" where
  "GPUProfile v =
     (case v of
        PDict kvs \<Rightarrow>
          (let field = (\<lambda>k d. case map_of kvs k of Some w \<Rightarrow> w | None \<Rightarrow> d) in
           if set (map fst kvs) \<subseteq> {''gpu'', ''cost'', ''tputs'', ''indexes'', ''created''}
           then Inr \<lparr>raw_gpu = field ''gpu'' (PStr []), raw_cost = field ''cost'' (PFloat (Fin 0)),
                     raw_tputs = field ''tputs'' (PList []), raw_indexes = field ''indexes'' (PList []),
                     raw_created = field ''created'' (PFloat (Fin 0))\<rparr>
           else Inl TypeError)
      | _ \<Rightarrow> Inl TypeError)"

text \<open>The lines of a file from a position on; a line that does not parse ends the loop.\<close>

fun parse_json_lines :: "string list \<Rightarrow> pyval list" where
  "parse_json_lines [] = []"
| "parse_json_lines (line # lines) =
     (if strip line = [] then parse_json_lines lines
      else case loads line of Inr v \<Rightarrow> v # parse_json_lines lines | Inl e \<Rightarrow> [])"

definition rest_of_file :: "nat \<Rightarrow> string \<Rightarrow> string list" where
  "rest_of_file pos content = (let r = drop pos content in if r = [] then [] else split_at (CHR ''\<newline>'') r)"

text \<open>\<open>json.load(f)\<close> reads the file to its end before it parses, so that is where the loop over the lines starts.\<close>

definition file_profiles :: "string \<Rightarrow> pyval list" where
  "file_profiles content =
     (case loads content of Inr v \<Rightarrow> [v] | Inl e \<Rightarrow> parse_json_lines (rest_of_file (length content) content))"

definition file_profile_read :: "(string \<Rightarrow> string option) \<Rightarrow> string list \<Rightarrow> py_error + raw_profile list" where
  "file_profile_read files paths =
     ebind (traverse (\<lambda>p. case files p of Some c \<Rightarrow> Inr (file_profiles c) | None \<Rightarrow> Inl FileNotFoundError) paths)
       (\<lambda>vss. traverse GPUProfile (concat vss))"

definition redis_profile :: "redis \<Rightarrow> string \<Rightarrow> py_error + raw_profile" where
  "redis_profile rd key =
     (case fetch rd key of
        Inl e \<Rightarrow> Inl e
      | Inr None \<Rightarrow> Inl Exception
      | Inr (Some text) \<Rightarrow>
          ebind (loads text) (\<lambda>v. case v of PDict kvs \<Rightarrow> GPUProfile v | _ \<Rightarrow> Inl Exception))"

definition redis_profile_read :: "redis \<Rightarrow> (py_error + raw_profile list) option" where
  "redis_profile_read rd = map_option (\<lambda>r. ebind r (traverse (redis_profile rd))) (scan_keys rd 0 [])"

text \<open>A file with one profile per line, which the reader means to accept, gives no profile.\<close>

lemma json_lines_lost:
  assumes "loads content = Inl e" "files path = Some content"
  shows "file_profile_read files [path] = Inr []"
  using assms by (simp add: file_profile_read_def file_profiles_def rest_of_file_def)

subsection \<open>Records of a profile\<close>

lemma parse_entries_append:
  "parse_entries ts p kvs tot out = (out @ fst (parse_entries ts p kvs tot []), snd (parse_entries ts p kvs tot [])) \<and>
   (\<forall>x \<in> set (fst (parse_entries ts p kvs tot [])). fst x = ts)"
proof (induction kvs arbitrary: tot out)
  case (Cons kv kvs)
  obtain k v where kv: "kv = (k, v)"
    by fastforce
  have step: "parse_entries ts p kvs n (out @ [r]) = (out @ r # fst (parse_entries ts p kvs n []), snd (parse_entries ts p kvs n []))" for n r out
    using Cons.IH [of n "out @ [r]"] by simp
  have at: "fst x = ts" if "x \<in> set (fst (parse_entries ts p kvs n []))" for n x
    using Cons.IH that by blast
  show ?case
    unfolding kv using Cons.IH [of tot out] step [of _ "[]"]
    by (auto simp: step split: option.split sum.split dest!: at)
qed simp

text \<open>What one key contributes to the first read.\<close>

fun key_records :: "redis \<Rightarrow> string \<times> nat \<Rightarrow> trace_record list" where
  "key_records rd (key, ts) =
     (case read_key rd key of
        Inr (Some (entry # entries)) \<Rightarrow>
          (case py_num (meta_value (entry # entries) ''meta_v'' 1) of
             Inl e \<Rightarrow> []
           | Inr v \<Rightarrow> fst (parse_entries (Fin (real ts)) (meta_value (entry # entries) ''meta_precision'' 1) (entry # entries) 0 []))
      | _ \<Rightarrow> [])"

lemma parse_profiles_frame:
  assumes "parse_profiles kvs ts (s, out) = ((s1, out1), r)"
  shows "out1 = out @ (case py_num (meta_value kvs ''meta_v'' 1) of Inl e \<Rightarrow> []
      | Inr v \<Rightarrow> fst (parse_entries ts (meta_value kvs ''meta_precision'' 1) kvs 0 []))"
    and "gw_last_ts s1 = gw_last_ts s" "gw_start s1 = gw_start s" "gw_prefix s1 = gw_prefix s" "gw_ver s1 = gw_ver s"
  using assms parse_entries_append [of ts "meta_value kvs ''meta_precision'' 1" kvs 0 out]
  by (auto simp: parse_profiles_def Let_def split: sum.splits prod.splits if_splits)

lemma read_traces_spec:
  "read_traces rd ks s records r = (s1, records1, r1) \<Longrightarrow>
   records1 = records @ concat (map (key_records rd) ks) \<and>
   gw_last_ts s1 = (if ks = [] then gw_last_ts s else Fin (real (snd (last ks)))) \<and> gw_start s1 = gw_start s"
proof (induction ks arbitrary: s records r)
  case (Cons kt rest)
  obtain key ts where kt: "kt = (key, ts)"
    by fastforce
  let ?s = "s\<lparr>gw_last_ts := Fin (real ts)\<rparr>"
  obtain s2 out r2 where rest: "read_traces rd rest s2 out r2 = (s1, records1, r1)"
    "out = records @ key_records rd kt" "gw_last_ts s2 = Fin (real ts)" "gw_start s2 = gw_start s"
  proof (cases "\<exists>entry entries. read_key rd key = Inr (Some (entry # entries))")
    case True
    then obtain entry entries where key: "read_key rd key = Inr (Some (entry # entries))"
      by blast
    obtain s2 out res where p: "parse_profiles (entry # entries) (Fin (real ts)) (?s, records) = ((s2, out), res)"
      using prod_cases3 surj_pair by metis
    obtain r2 where "read_traces rd rest s2 out r2 = (s1, records1, r1)"
      using Cons.prems kt key p by (cases res) auto
    then show ?thesis
      using that [of s2 out r2] parse_profiles_frame [OF p] key kt by simp
  next
    case False
    then have "key_records rd kt = [] \<and> read_traces rd rest ?s records r = (s1, records1, r1)"
      using Cons.prems kt by (cases "read_key rd key") (auto simp: Let_def split: option.splits list.splits)
    then show ?thesis
      using that [of ?s records r] by simp
  qed
  then show ?case
    using Cons.IH [OF rest(1)] kt by simp
qed simp

declare key_records.simps [simp del] parse_entries.simps [simp del]

subsection \<open>Windows are read once\<close>

lemma as_int_finite: "as_int (PFloat x) = Inr i \<Longrightarrow> \<exists>y. x = Fin y"
  by (cases x) auto

lemma minus_finite: "x - y = Fin z \<Longrightarrow> \<exists>a. x = Fin a"
  by (cases x; cases y) (auto simp: minus_flt_def)

lemma as_int_minus_finite: "as_int (PFloat (x - y)) = Inr i \<Longrightarrow> \<exists>a. x = Fin a"
  using as_int_finite minus_finite by blast

lemma parsed_at:
  assumes "parse_profiles kvs ts (s, []) = ((s1, out), r)" "x \<in> set out"
  shows "fst x = ts"
proof -
  have "x \<in> set (fst (parse_entries ts (meta_value kvs ''meta_precision'' 1) kvs 0 []))"
    using parse_profiles_frame(1) [OF assms(1)] assms(2) by (auto split: sum.splits)
  then show ?thesis
    using parse_entries_append by blast
qed

text \<open>What a read may do to the last window: nothing, or move it on to the window of the returned records.\<close>

definition moves_on :: "gateway_reader \<Rightarrow> (gateway_reader, trace_record list \<times> flt) outcome \<Rightarrow> real \<Rightarrow> bool" where
  "moves_on s out l \<longleftrightarrow> gw_start (fst out) = gw_start s \<and> (\<exists>l1. gw_last_ts (fst out) = Fin l1 \<and> l \<le> l1 \<and>
     (\<forall>recs q. snd out = Inr (recs, q) \<longrightarrow> (recs \<noteq> [] \<longrightarrow> l < l1) \<and> (\<forall>x \<in> set recs. fst x = Fin l1)))"

lemma moves_on_idle: "gw_last_ts s = Fin l \<Longrightarrow> moves_on s (s, Inl e) l" "gw_last_ts s = Fin l \<Longrightarrow> moves_on s (s, Inr ([], q)) l"
  by (auto simp: moves_on_def)

lemma window_profiles_finite:
  assumes "window_profiles rd aligned s = Inr profiles"
  obtains a where "aligned = Fin a"
  using assms by (auto simp: window_profiles_def ebind_Inr_iff split: if_splits dest: as_int_finite as_int_minus_finite)

lemma read_aligned_step:
  assumes "gw_last_ts s = Fin l"
  shows "moves_on s (read_aligned rd aligned s) l"
proof (cases "aligned \<le> Fin l \<or> (\<exists>e. window_profiles rd aligned s = Inl e)")
  case True
  then have "\<exists>e. read_aligned rd aligned s = (s, Inl e) \<or> read_aligned rd aligned s = (s, Inr ([], Fin 0))"
    using assms by (elim disjE exE) (simp_all add: read_aligned_def)
  then show ?thesis
    using moves_on_idle [OF assms] by metis
next
  case False
  then obtain profiles where p: "window_profiles rd aligned s = Inr profiles" "\<not> aligned \<le> Fin l"
    by (cases "window_profiles rd aligned s") auto
  obtain a where a: "aligned = Fin a"
    using window_profiles_finite [OF p(1)] .
  have l: "l < a"
    using p(2) a by simp
  show ?thesis
  proof (cases "\<exists>entry entries. profiles = Some (entry # entries)")
    case True
    then obtain entry entries where e: "profiles = Some (entry # entries)"
      by blast
    let ?s = "s\<lparr>gw_last_ts := aligned\<rparr>"
    obtain s2 out r where pp: "parse_profiles (entry # entries) aligned (?s, []) = ((s2, out), r)"
      using surj_pair by metis
    define res where "res = (case r of Inl e \<Rightarrow> Inl e | Inr (tot, pending) \<Rightarrow> ebind (get_rate tot s2) (\<lambda>q. Inr (out, q)))"
    have "read_aligned rd aligned s = (s2, res)"
      using assms p e pp by (cases r) (simp_all add: read_aligned_def res_def split: prod.split)
    moreover have "recs = out" if "res = Inr (recs, q)" for recs q
      using that by (auto simp: res_def ebind_Inr_iff split: sum.splits)
    moreover have "gw_start s2 = gw_start s" "gw_last_ts s2 = Fin a"
      using parse_profiles_frame(2,3) [OF pp] a by simp_all
    moreover have "\<forall>x \<in> set out. fst x = Fin a"
      using parsed_at [OF pp] a by blast
    ultimately show ?thesis
      using l by (auto simp: moves_on_def)
  next
    case False
    then have "profiles = None \<or> profiles = Some []"
      by (metis list.exhaust option.exhaust)
    then have "read_aligned rd aligned s = (s\<lparr>gw_last_ts := aligned\<rparr>, Inr ([], Fin 0))"
      using assms p by (auto simp: read_aligned_def)
    then show ?thesis
      using a l by (simp add: moves_on_def)
  qed
qed

lemma read_window_step: "gw_last_ts s = Fin l \<Longrightarrow> moves_on s (read_window rd ts s) l"
  by (auto simp: read_window_def read_aligned_step moves_on_idle split: sum.split)

text \<open>A run of reads: the store and the two clock readings of each call.\<close>

fun gateway_reads :: "(redis \<times> real \<times> real) list \<Rightarrow> gateway_reader \<Rightarrow> (gateway_reader \<times> trace_record list list) option" where
  "gateway_reads [] s = Some (s, [])"
| "gateway_reads ((rd, now, ts) # calls) s =
     (case gateway_read rd now ts s of
        None \<Rightarrow> None
      | Some (s1, records, _) \<Rightarrow> map_option (\<lambda>(s2, bs). (s2, records # bs)) (gateway_reads calls s1))"

definition later :: "trace_record list \<Rightarrow> trace_record list \<Rightarrow> bool" where
  "later b c \<longleftrightarrow> (\<forall>x \<in> set b. \<forall>y \<in> set c. fst x < fst y)"

lemma gateway_read_started:
  assumes "gw_start s \<noteq> 0" "gw_last_ts s = Fin l"
  obtains s1 records q l1 where "gateway_read rd now ts s = Some (s1, records, q)" "gw_start s1 \<noteq> 0"
    "gw_last_ts s1 = Fin l1" "l \<le> l1" "records \<noteq> [] \<longrightarrow> l < l1" "\<forall>x \<in> set records. fst x = Fin l1"
proof -
  obtain s1 r where w: "read_window rd ts s = (s1, r)"
    by fastforce
  obtain records q where rq: "(case r of Inr x \<Rightarrow> x | Inl e \<Rightarrow> ([], Fin 0)) = (records, q)"
    by fastforce
  have "gateway_read rd now ts s = Some (s1, records, q)"
    using assms(1) w rq by (simp add: gateway_read_def)
  moreover have "records = [] \<or> r = Inr (records, q)"
    using rq by (cases r) auto
  ultimately show ?thesis
    using that [of s1 records q] read_window_step [OF assms(2), of rd ts] w assms(1) by (auto simp: moves_on_def)
qed

lemma gateway_reads_later:
  "gw_start s \<noteq> 0 \<Longrightarrow> gw_last_ts s = Fin l \<Longrightarrow>
   \<exists>s1 bs. gateway_reads calls s = Some (s1, bs) \<and> sorted_wrt later bs \<and> (\<forall>b \<in> set bs. \<forall>x \<in> set b. Fin l < fst x)"
proof (induction calls arbitrary: s l)
  case (Cons call calls)
  obtain rd now ts where call: "call = (rd, now, ts)"
    using prod_cases3 by blast
  obtain s1 records q l1 where r: "gateway_read rd now ts s = Some (s1, records, q)" "gw_start s1 \<noteq> 0"
    "gw_last_ts s1 = Fin l1" "l \<le> l1" "records \<noteq> [] \<longrightarrow> l < l1" "\<forall>x \<in> set records. fst x = Fin l1"
    using gateway_read_started [OF Cons.prems] .
  obtain s2 bs where rest: "gateway_reads calls s1 = Some (s2, bs)" "sorted_wrt later bs"
    "\<forall>b \<in> set bs. \<forall>x \<in> set b. Fin l1 < fst x"
    using Cons.IH [OF r(2,3)] by blast
  have "Fin l < fst x" if "b \<in> set bs" "x \<in> set b" for b x
  proof -
    have "Fin l1 < fst x"
      using rest(3) that by blast
    then show ?thesis
      using r(4) by (cases "fst x") auto
  qed
  moreover have "\<forall>b \<in> set bs. later records b"
    using r(6) rest(3) by (auto simp: later_def)
  moreover have "Fin l < fst x" if "x \<in> set records" for x
    using r(5,6) that by fastforce
  ultimately have "sorted_wrt later (records # bs)" "\<forall>b \<in> set (records # bs). \<forall>x \<in> set b. Fin l < fst x"
    using rest(2) by auto
  then show ?case
    using call r(1) rest(1) by auto
qed simp

lemma key_records_at:
  assumes "x \<in> set (key_records rd (k, t))"
  shows "fst x = Fin (real t)"
proof -
  obtain precision kvs where "x \<in> set (fst (parse_entries (Fin (real t)) precision kvs 0 []))"
    using assms unfolding key_records.simps
    by (auto simp del: parse_entries.simps split: sum.splits option.splits list.splits)
  then show ?thesis
    using parse_entries_append by blast
qed

lemma sorted_last_max: "sorted (map f xs) \<Longrightarrow> x \<in> set xs \<Longrightarrow> f x \<le> (f (last xs) :: nat)"
  by (induction xs) (auto split: if_splits)

lemma read_first_spec:
  assumes "read_first rd now s = Some (s1, r)" "gw_last_ts s = Fin l"
  shows "gw_start s1 = gw_start s \<and> (\<exists>l1. gw_last_ts s1 = Fin l1 \<and>
    (\<forall>recs q. r = Inr (recs, q) \<longrightarrow> (\<forall>x \<in> set recs. fst x \<le> Fin l1)))"
proof -
  obtain sr where scan: "scan_keys rd 0 [] = Some sr"
    using assms(1) by (auto simp: read_first_def)
  show ?thesis
  proof (cases sr)
    case (Inl e)
    then show ?thesis
      using assms scan by (auto simp: read_first_def)
  next
    case (Inr keys)
    let ?ks = "matching_keys keys"
    show ?thesis
    proof (cases "?ks = []")
      case True
      then show ?thesis
        using assms scan Inr by (auto simp: read_first_def)
    next
      case False
      obtain recs q where t: "read_traces rd ?ks s [] (Fin 0) = (s1, recs, q)" "r = Inr (recs, q)"
        using assms(1) scan Inr False by (auto simp: read_first_def split: list.splits prod.splits)
      note spec = read_traces_spec [OF t(1)]
      have "fst x \<le> Fin (real (snd (last ?ks)))" if x: "x \<in> set recs" for x
      proof -
        obtain k t where kt: "(k, t) \<in> set ?ks" "x \<in> set (key_records rd (k, t))"
          using spec x by auto
        have "sorted (map snd ?ks)"
          by (simp add: matching_keys_def)
        from sorted_last_max [OF this kt(1)] have "t \<le> snd (last ?ks)"
          by simp
        then show ?thesis
          using key_records_at [OF kt(2)] by simp
      qed
      moreover have "gw_start s1 = gw_start s" "gw_last_ts s1 = Fin (real (snd (last ?ks)))"
        using spec False by simp_all
      ultimately show ?thesis
        unfolding t(2) by blast
    qed
  qed
qed

subsection \<open>Entries as the gateway writes them\<close>

definition entry_key :: "nat \<Rightarrow> nat \<Rightarrow> string" where
  "entry_key i out = nat_str i @ CHR '':'' # nat_str out"

lemma digits_no_colon: "list_all is_digit s \<Longrightarrow> CHR '':'' \<notin> set s"
  by (auto simp: list_all_iff is_digit_def code_def)

lemma entry_key_props:
  "colon_pair (entry_key i out) = Some (i, out)" "\<not> starts_with ''meta_'' (entry_key i out)"
proof -
  have d: "list_all is_digit (nat_str n)" "nat_str n \<noteq> []" "nat_of (nat_str n) = n" for n
    using nat_str_props [of n] by auto
  have "is_digit (last (entry_key i out))"
    using d(1,2) [of out] by (simp add: entry_key_def list_all_iff)
  then have "chop_newline (entry_key i out) = entry_key i out"
    by (auto simp: chop_newline_def is_digit_def code_def)
  moreover have "split_at (CHR '':'') (entry_key i out) = [nat_str i, nat_str out]"
    using split_at_sep [OF digits_no_colon [OF d(1)], of i "nat_str out"] split_at_no [OF digits_no_colon [OF d(1)], of out]
    by (simp add: entry_key_def)
  ultimately show "colon_pair (entry_key i out) = Some (i, out)"
    using d by (simp add: colon_pair_def)
  obtain c t where "nat_str i = c # t" "is_digit c"
    using d(1,2) [of i] by (cases "nat_str i") auto
  then show "\<not> starts_with ''meta_'' (entry_key i out)"
    by (auto simp: entry_key_def is_digit_def code_def)
qed

type_synonym histogram = "((nat \<times> nat) \<times> int) list"

definition gateway_profile :: "nat \<Rightarrow> nat \<Rightarrow> int \<Rightarrow> histogram \<Rightarrow> json" where
  "gateway_profile precision interval_sec total_reqs hist =
     JObj ([(''meta_v'', JInt 3), (''meta_precision'', JInt (int precision)), (''meta_interval_sec'', JInt (int interval_sec)),
            (''meta_total_reqs'', JInt total_reqs)] @ map (\<lambda>((i, out), n). (entry_key i out, JInt n)) hist)"

lemma parse_histogram:
  assumes "0 < precision" "\<forall>h \<in> set hist. 0 < snd h"
  shows "parse_entries ts (PInt (int precision)) (map (\<lambda>((i, out), n). (entry_key i out, PInt n)) hist) tot [] =
    (map (\<lambda>((i, out), n). (ts, Fin (real i / real precision), Fin (real out / real precision), n)) hist,
     Inr (tot + sum_list (map snd hist)))"
  using assms(2)
proof (induction hist arbitrary: tot)
  case (Cons h hist)
  obtain i out n where h: "h = ((i, out), n)"
    using surj_pair by metis
  then have n: "0 < n"
    using Cons.prems by simp
  have div: "py_truediv (PInt (int k)) (PInt (int precision)) = Inr (Fin (real k / real precision))" for k
    using assms(1) by (simp add: py_truediv_def)
  let ?rest = "map (\<lambda>((i, out), n). (entry_key i out, PInt n)) hist"
  have "parse_entries ts (PInt (int precision)) ((entry_key i out, PInt n) # ?rest) tot [] =
      parse_entries ts (PInt (int precision)) ?rest (tot + n) [(ts, Fin (real i / real precision), Fin (real out / real precision), n)]"
    using n by (simp add: parse_entries.simps entry_key_props div)
  then show ?case
    using Cons.IH [of "tot + n"] Cons.prems h
      parse_entries_append [of ts "PInt (int precision)" ?rest "tot + n" "[(ts, Fin (real i / real precision), Fin (real out / real precision), n)]"]
    by simp
qed (simp add: parse_entries.simps)


lemma profile_loads:
  assumes "distinct (map fst hist)"
  shows "loads (json_dumps (gateway_profile precision interval_sec total_reqs hist)) =
    Inr (PDict ([(''meta_v'', PInt 3), (''meta_precision'', PInt (int precision)), (''meta_interval_sec'', PInt (int interval_sec)),
      (''meta_total_reqs'', PInt total_reqs)] @ map (\<lambda>((i, out), n). (entry_key i out, PInt n)) hist))"
proof -
  let ?key = "\<lambda>((i, out), n :: int). entry_key i out"
  have "inj_on ?key (set hist)"
  proof (rule inj_onI)
    fix g h :: "(nat \<times> nat) \<times> int" assume gh: "g \<in> set hist" "h \<in> set hist" "?key g = ?key h"
    have "colon_pair (?key h) = Some (fst h)" for h :: "(nat \<times> nat) \<times> int"
      by (simp add: entry_key_props split: prod.split)
    then have "fst g = fst h"
      using gh(3) by (metis option.inject)
    then show "g = h"
      using assms gh(1,2) by (auto simp: distinct_map inj_on_def)
  qed
  moreover have "distinct hist"
    using assms by (simp add: distinct_map)
  ultimately have "distinct (map ?key hist)"
    by (simp add: distinct_map)
  moreover have nk: "k \<notin> set (map ?key hist)" if "starts_with ''meta_'' k" for k
    using that entry_key_props(2) by (auto split: prod.splits)
  have "''meta_v'' \<notin> set (map ?key hist)" "''meta_precision'' \<notin> set (map ?key hist)"
    "''meta_interval_sec'' \<notin> set (map ?key hist)" "''meta_total_reqs'' \<notin> set (map ?key hist)"
    by (rule nk, simp)+
  ultimately have "distinct ([''meta_v'', ''meta_precision'', ''meta_interval_sec'', ''meta_total_reqs''] @ map ?key hist)"
    by (simp del: set_map)
  moreover obtain kvs where kvs: "gateway_profile precision interval_sec total_reqs hist = JObj kvs"
    "map fst kvs = [''meta_v'', ''meta_precision'', ''meta_interval_sec'', ''meta_total_reqs''] @ map ?key hist"
    "\<forall>kv \<in> set kvs. json_valid (snd kv)"
    by (auto simp: gateway_profile_def comp_def split_def)
  ultimately have "json_valid (gateway_profile precision interval_sec total_reqs hist)"
    by (simp only: kvs(1) json_valid.simps)
  from json_loads_dumps(1) [OF this] show ?thesis
    by (simp add: loads_def gateway_profile_def comp_def split_def)
qed


lemma parse_profile_read:
  assumes "0 < precision" "\<forall>h \<in> set hist. 0 < snd h"
  shows "parse_profiles ([(''meta_v'', PInt 3), (''meta_precision'', PInt (int precision)), (''meta_interval_sec'', PInt (int interval_sec)),
      (''meta_total_reqs'', PInt total_reqs)] @ map (\<lambda>((i, out), n). (entry_key i out, PInt n)) hist) ts (s, []) =
    ((s\<lparr>gw_alignment := PInt (int interval_sec)\<rparr>,
      map (\<lambda>((i, out), n). (ts, Fin (real i / real precision), Fin (real out / real precision), n)) hist),
     Inr (PInt total_reqs, case map_of (map (\<lambda>((i, out), n). (entry_key i out, PInt n)) hist) ''meta_pending_reqs'' of Some v \<Rightarrow> v | None \<Rightarrow> PInt 0))"
proof -
  have "parse_entries ts p ([(''meta_v'', PInt 3), (''meta_precision'', PInt (int precision)), (''meta_interval_sec'', PInt (int interval_sec)),
      (''meta_total_reqs'', PInt total_reqs)] @ kvs) 0 [] = parse_entries ts p kvs 0 []" for p kvs
    by (simp add: parse_entries.simps)
  then show ?thesis
    using parse_histogram [OF assms, of ts 0] by (simp add: parse_profiles_def meta_value_def)
qed

lemma trunc_of_int [simp]: "trunc (of_int i) = i"
  by (simp add: trunc_def flip: of_int_minus)

subsection \<open>The contract of a load reader\<close>

definition gateway_source :: "redis \<times> real \<times> real \<Rightarrow> gateway_reader \<Rightarrow> (gateway_reader, load_record list \<times> flt) outcome option" where
  "gateway_source call s =
     (case call of (rd, now, ts) \<Rightarrow>
        map_option (\<lambda>(s1, records, q). (s1, Inr (map (\<lambda>(t, i, out, n). (t, i, out, nat n)) records, q)))
          (gateway_read rd now ts s))"

interpretation gateway: load_source gateway_source "\<lambda>s. gw_start s \<noteq> 0 \<and> (\<exists>l. gw_last_ts s = Fin l)"
proof
  fix s :: gateway_reader and t :: "redis \<times> real \<times> real"
  assume s: "gw_start s \<noteq> 0 \<and> (\<exists>l. gw_last_ts s = Fin l)"
  obtain rd now ts where t: "t = (rd, now, ts)"
    using prod_cases3 by blast
  obtain l where "gw_last_ts s = Fin l"
    using s by blast
  then obtain s1 records q l1 where "gateway_read rd now ts s = Some (s1, records, q)" "gw_start s1 \<noteq> 0" "gw_last_ts s1 = Fin l1"
    using gateway_read_started [of s l rd now ts] s by metis
  then show "\<exists>s1 records cur_rate. gateway_source t s = Some (s1, Inr (records, cur_rate)) \<and> gw_start s1 \<noteq> 0 \<and> (\<exists>l. gw_last_ts s1 = Fin l)"
    using t by (simp add: gateway_source_def)
qed

lemma first_read:
  assumes "scan_keys rd 0 [] \<noteq> None"
  obtains s1 records q l where "gateway_read rd now ts (GatewayLoadReader model alignment) = Some (s1, records, q)"
    "gw_start s1 = ts" "gw_last_ts s1 = Fin l" "\<forall>x \<in> set records. fst x \<le> Fin l"
proof -
  let ?s = "(GatewayLoadReader model alignment)\<lparr>gw_start := ts\<rparr>"
  have "read_first rd now ?s \<noteq> None"
    using assms(1) by (auto simp: read_first_def)
  then obtain s1 r where f: "read_first rd now ?s = Some (s1, r)"
    by (cases "read_first rd now ?s") auto
  have "gw_last_ts ?s = Fin 0"
    by (simp add: GatewayLoadReader_def)
  from read_first_spec [OF f this] obtain l where l: "gw_start s1 = ts" "gw_last_ts s1 = Fin l"
    "\<forall>recs q. r = Inr (recs, q) \<longrightarrow> (\<forall>x \<in> set recs. fst x \<le> Fin l)"
    by auto
  obtain records q where rq: "(case r of Inr x \<Rightarrow> x | Inl e \<Rightarrow> ([], Fin 0)) = (records, q)"
    by fastforce
  have "gateway_read rd now ts (GatewayLoadReader model alignment) = Some (s1, records, q)"
    using f rq by (simp add: gateway_read_def GatewayLoadReader_def)
  moreover have "\<forall>x \<in> set records. fst x \<le> Fin l"
    using l(3) rq by (cases r) auto
  ultimately show ?thesis
    using that l by blast
qed

subsection \<open>Properties of the gateway reader\<close>

text \<open>
  C17. No traffic is counted twice: whatever the store holds at each call and whatever the clock says,
  every record of a later read is newer than every record of an earlier one, from the first read,
  which takes in all stored windows, on. Every read returns; only the scan of the first one is
  assumed to end.
\<close>

theorem gateway_windows_once:
  assumes "scan_keys rd 0 [] \<noteq> None" "ts \<noteq> 0"
  shows "\<exists>s1 batches. gateway_reads ((rd, now, ts) # calls) (GatewayLoadReader model alignment) = Some (s1, batches) \<and>
    sorted_wrt (\<lambda>b c. \<forall>x \<in> set b. \<forall>y \<in> set c. fst x < fst y) batches"
proof -
  obtain s1 records q l where first: "gateway_read rd now ts (GatewayLoadReader model alignment) = Some (s1, records, q)"
    and l: "gw_start s1 = ts" "gw_last_ts s1 = Fin l" and old: "\<forall>x \<in> set records. fst x \<le> Fin l"
    using first_read [OF assms(1)] .
  obtain s2 bs where rest: "gateway_reads calls s1 = Some (s2, bs)" "sorted_wrt later bs" "\<forall>b \<in> set bs. \<forall>x \<in> set b. Fin l < fst x"
    using gateway_reads_later [OF _ l(2)] l(1) assms(2) by blast
  have trans: "x \<le> Fin l \<Longrightarrow> Fin l < y \<Longrightarrow> x < y" for x y :: flt
    by (cases x; cases y) auto
  have "\<forall>b \<in> set bs. later records b"
    using old rest(3) trans unfolding later_def by blast
  then have "sorted_wrt later (records # bs)"
    using rest(2) by simp
  then show ?thesis
    using first rest(1) unfolding later_def [abs_def] by simp
qed

definition sample_redis :: redis where
  "sample_redis = \<lparr>scan = (\<lambda>c. Inr (if c = 0 then 7 else 0, [''aibrix:m_request_trace_'' @ nat_str (10 + c)])),
     fetch = (\<lambda>k. Inr (Some (json_dumps (gateway_profile 1 10 3 [((3, 2), 3)]))))\<rparr>"

theorem gateway_windows_once_witness:
  "\<exists>s1 batches. gateway_reads ((sample_redis, 30, 31) # [(sample_redis, 41, 41), (sample_redis, 52, 52)]) (GatewayLoadReader ''m'' (PInt 10)) = Some (s1, batches) \<and>
    sorted_wrt (\<lambda>b c. \<forall>x \<in> set b. \<forall>y \<in> set c. fst x < fst y) batches"
proof (rule gateway_windows_once)
  show "scan_keys sample_redis 0 [] \<noteq> None"
    by (simp add: scan_keys.simps [of _ 0] scan_keys.simps [of _ 7] sample_redis_def)
qed simp

text \<open>
  C18. What the gateway writes is what the optimizer reads: for a histogram of requests by logarithms of
  their input and output lengths, stored as JSON under the key of an unread window, the read returns
  exactly one record per class with its count, and the reported number of requests per second; the
  interval the gateway reports is the one the next windows are aligned to.
\<close>

theorem gateway_profile_read_back:
  assumes "distinct (map fst hist)" "\<forall>h \<in> set hist. 0 < snd h" "0 < precision" "0 < interval_sec"
    and "gw_start s \<noteq> 0" "gw_ver s = 3" "gw_alignment s = PInt a" "0 < a" "gw_last_ts s = Fin l"
    and "w = a * \<lfloor>ts / of_int a\<rfloor>" "l < of_int w"
    and "fetch rd (gw_prefix s @ int_str w) = Inr (Some (json_dumps (gateway_profile precision interval_sec total_reqs hist)))"
  shows "gateway_read rd now ts s =
    Some (s\<lparr>gw_last_ts := Fin (of_int w), gw_alignment := PInt (int interval_sec)\<rparr>,
          map (\<lambda>((i, out), n). (Fin (of_int w), Fin (real i / real precision), Fin (real out / real precision), n)) hist,
          Fin (of_int total_reqs / real interval_sec))"
proof -
  have al: "Fin ts - Fin (ts - of_int a * of_int \<lfloor>ts / of_int a\<rfloor>) = Fin (of_int w)"
    using assms(10) by simp
  have key: "window_profiles rd (Fin (of_int w)) s = Inr (Some ([(''meta_v'', PInt 3), (''meta_precision'', PInt (int precision)),
      (''meta_interval_sec'', PInt (int interval_sec)), (''meta_total_reqs'', PInt total_reqs)] @ map (\<lambda>((i, out), n). (entry_key i out, PInt n)) hist))"
    using assms(6,12) profile_loads [OF assms(1)] by (simp add: window_profiles_def read_key_def)
  have "read_window rd ts s = (s\<lparr>gw_last_ts := Fin (of_int w), gw_alignment := PInt (int interval_sec)\<rparr>,
      Inr (map (\<lambda>((i, out), n). (Fin (of_int w), Fin (real i / real precision), Fin (real out / real precision), n)) hist,
           Fin (of_int total_reqs / real interval_sec)))"
    using assms(4,7-9,11) al key parse_profile_read [OF assms(3,2), of interval_sec total_reqs "Fin (of_int w)" "s\<lparr>gw_last_ts := Fin (of_int w)\<rparr>"]
    by (simp add: read_window_def read_aligned_def get_rate_def py_truediv_def)
  then show ?thesis
    using assms(5) by (simp add: gateway_read_def)
qed


theorem gateway_profile_read_back_witness:
  "gateway_read sample_redis 50 41 ((GatewayLoadReader ''m'' (PInt 10))\<lparr>gw_start := 1\<rparr>) =
    Some ((GatewayLoadReader ''m'' (PInt 10))\<lparr>gw_start := 1, gw_last_ts := Fin (of_int 40), gw_alignment := PInt (int 10)\<rparr>,
      map (\<lambda>((i, out), n). (Fin (of_int 40), Fin (real i / real 1), Fin (real out / real 1), n)) [((3, 2), 3)],
      Fin (of_int 3 / real 10))"
proof -
  have w: "40 = (10 :: int) * \<lfloor>41 / of_int 10\<rfloor>"
    by (simp add: floor_eq_iff)
  show ?thesis
    by (rule gateway_profile_read_back [where a = 10 and l = 0, OF _ _ _ _ _ _ _ _ _ w])
      (simp_all add: GatewayLoadReader_def sample_redis_def)
qed

text \<open>
  Three ways a profile is misread. A class with the integer count 0 is refused as not being an
  integer; a key that a scan returns twice, as Redis allows, is counted twice; an interval that is
  not a number makes the monitor's question for the next reading time raise.
\<close>

lemma zero_count_refused: "parse_entries ts precision [(entry_key i out, PInt 0)] tot [] = ([], Inl Exception)"
  by (simp add: parse_entries.simps entry_key_props)

lemma repeated_key_counted_twice:
  "fst (snd (read_traces rd [(key, ts), (key, ts)] s [] q)) = key_records rd (key, ts) @ key_records rd (key, ts)"
proof -
  obtain s1 records q1 where "read_traces rd [(key, ts), (key, ts)] s [] q = (s1, records, q1)"
    using prod_cases3 by blast
  from read_traces_spec [OF this] show ?thesis
    using \<open>read_traces rd [(key, ts), (key, ts)] s [] q = (s1, records, q1)\<close> by simp
qed

lemma text_interval_raises: "gw_alignment s = PStr t \<Longrightarrow> gateway_next_available s = Inl TypeError"
  by (simp add: gateway_next_available_def)

end
