(* ===== verification/Optimizer_Service.thy ===== *)
theory Optimizer_Service
  imports Gateway_Reader
begin

text \<open>
  The GPU optimizer service (\<open>gpu_optimizer/app.py\<close>): the table of model monitors, the handlers of the
  deployment events of the cluster, the HTTP endpoints and one round of the watch loop. The
  Kubernetes client, the stored profiles and the debug flag are arguments. An operation that waits
  for a lock nobody will release does not return (\<open>None\<close>).
\<close>

subsection \<open>Deployments of the cluster\<close>

record k8s_deployment =
  kd_name :: string
  kd_namespace :: string
  kd_labels :: "(string \<times> string) list option"
  kd_replicas :: "int option"

record service =
  srv_monitors :: "(string \<times> monitor) list"
  srv_stopped :: "string list"

type_synonym 'a service_call = "(service, 'a) outcome option"

definition MODEL_LABEL :: string where
  "MODEL_LABEL = ''model.aibrix.ai/name''"

definition MIN_REPLICAS_LABEL :: string where
  "MIN_REPLICAS_LABEL = ''model.aibrix.ai/min_replicas''"

definition validate_model :: "k8s_deployment \<Rightarrow> service \<Rightarrow> py_error + string \<times> monitor option" where
  "validate_model d srv =
     (case kd_labels d of
        None \<Rightarrow> Inl Exception
      | Some labels \<Rightarrow>
          if labels = [] then Inl Exception
          else (case map_of labels MODEL_LABEL of
                  None \<Rightarrow> Inl Exception
                | Some model_name \<Rightarrow>
                    if model_name = [] then Inl Exception
                    else Inr (model_name, map_of (srv_monitors srv) model_name)))"

definition new_deployment :: "k8s_deployment \<Rightarrow> py_error + deployment" where
  "new_deployment d =
     ebind (case kd_labels d of
              None \<Rightarrow> Inr 0
            | Some labels \<Rightarrow>
                (case map_of labels MIN_REPLICAS_LABEL of
                   None \<Rightarrow> Inr 0
                 | Some label \<Rightarrow> if label = [] then Inr 0 else as_int (PStr label)))
       (\<lambda>min_replicas.
          Inr (DeploymentStates (kd_name d) (case kd_replicas d of Some n \<Rightarrow> n | None \<Rightarrow> 0) min_replicas))"

subsection \<open>Event handlers\<close>

definition put_monitor :: "string \<Rightarrow> monitor \<Rightarrow> service \<Rightarrow> service" where
  "put_monitor model_name m srv = srv\<lparr>srv_monitors := AList.update model_name m (srv_monitors srv)\<rparr>"

definition add_to_monitor :: "string option \<Rightarrow> k8s_deployment \<Rightarrow> string \<Rightarrow> monitor \<Rightarrow> service \<Rightarrow> bool service_call" where
  "add_to_monitor watch_ver d model_name m srv =
     map_option (\<lambda>(m1, r). (put_monitor model_name m1 srv, r))
       (add_deployment watch_ver (kd_name d) (Some (kd_namespace d)) (new_deployment d) m)"

text \<open>The result tells whether a new monitor was started.\<close>

definition start_serving_thread ::
  "(string \<Rightarrow> py_error + gpu_profile list) \<Rightarrow> bool \<Rightarrow> string option \<Rightarrow> k8s_deployment \<Rightarrow> service \<Rightarrow> bool service_call" where
  "start_serving_thread profiles debug watch_ver d srv =
     (case validate_model d srv of
        Inl e \<Rightarrow> Some (srv, Inl e)
      | Inr (model_name, Some m) \<Rightarrow>
          map_option (\<lambda>(srv1, r). (srv1, ebind r (\<lambda>_. Inr False))) (add_to_monitor watch_ver d model_name m srv)
      | Inr (model_name, None) \<Rightarrow>
          (case new_deployment d of
             Inl e \<Rightarrow> Some (srv, Inl e)
           | Inr dp \<Rightarrow>
               (case ModelMonitor watch_ver (Fin 100) (Some (profiles model_name)) debug (Some (kd_namespace d)) (Some dp) of
                  None \<Rightarrow> None
                | Some (m, Inl e) \<Rightarrow> Some (srv, Inl e)
                | Some (m, Inr _) \<Rightarrow> Some (put_monitor model_name m srv, Inr True))))"

definition service_update_deployment :: "string option \<Rightarrow> k8s_deployment \<Rightarrow> service \<Rightarrow> unit service_call" where
  "service_update_deployment watch_ver d srv =
     (case validate_model d srv of
        Inl e \<Rightarrow> Some (srv, Inl e)
      | Inr (model_name, None) \<Rightarrow> Some (srv, Inr ())
      | Inr (model_name, Some m) \<Rightarrow>
          map_option (\<lambda>(srv1, r). (srv1, ebind r (\<lambda>_. Inr ()))) (add_to_monitor watch_ver d model_name m srv))"

definition service_remove_deployment :: "k8s_deployment \<Rightarrow> service \<Rightarrow> unit service_call" where
  "service_remove_deployment d srv =
     (case validate_model d srv of
        Inl e \<Rightarrow> Some (srv, Inl e)
      | Inr (model_name, None) \<Rightarrow> Some (srv, Inr ())
      | Inr (model_name, Some m) \<Rightarrow>
          (case remove_deployment (kd_name d) (Some (kd_namespace d)) m of
             None \<Rightarrow> None
           | Some (m1, Inl e) \<Rightarrow> Some (put_monitor model_name m1 srv, Inl e)
           | Some (m1, Inr left) \<Rightarrow>
               Some (if left = 0
                     then srv\<lparr>srv_monitors := AList.delete model_name (srv_monitors srv),
                              srv_stopped := srv_stopped srv @ [model_name]\<rparr>
                     else put_monitor model_name m1 srv, Inr ())))"

subsection \<open>Endpoints\<close>

datatype response = Message string | Metrics string int | Error nat

type_synonym cluster = "string \<Rightarrow> string \<Rightarrow> py_error + k8s_deployment"

definition start_deployment_optimization ::
  "cluster \<Rightarrow> (string \<Rightarrow> py_error + gpu_profile list) \<Rightarrow> bool \<Rightarrow> string \<Rightarrow> string \<Rightarrow> service \<Rightarrow> (service \<times> response) option" where
  "start_deployment_optimization cluster profiles debug namespace name srv =
     (case cluster name namespace of
        Inl e \<Rightarrow> Some (srv, Error 500)
      | Inr d \<Rightarrow>
          map_option (\<lambda>(srv1, r). (srv1,
            case r of
              Inl e \<Rightarrow> Error 500
            | Inr started \<Rightarrow>
                Message (if started then ''Deployment optimization started'' else ''Deployment optimization already started'')))
            (start_serving_thread profiles debug None d srv))"

definition stop_deployment_optimization :: "cluster \<Rightarrow> string \<Rightarrow> string \<Rightarrow> service \<Rightarrow> (service \<times> response) option" where
  "stop_deployment_optimization cluster namespace name srv =
     (case cluster name namespace of
        Inl e \<Rightarrow> Some (srv, Error 500)
      | Inr d \<Rightarrow>
          map_option (\<lambda>(srv1, r). (srv1, case r of Inl e \<Rightarrow> Error 500 | Inr _ \<Rightarrow> Message ''Deployment optimization stopped''))
            (service_remove_deployment d srv))"

definition update_profile_endpoint :: "(string \<Rightarrow> py_error + gpu_profile list) \<Rightarrow> string \<Rightarrow> service \<Rightarrow> (service \<times> response) option" where
  "update_profile_endpoint profiles model_name srv =
     (case map_of (srv_monitors srv) model_name of
        None \<Rightarrow> Some (srv, Error 404)
      | Some m \<Rightarrow>
          map_option (\<lambda>(m1, ok). (put_monitor model_name m1 srv,
            if ok then Message (''workload profile of '' @ model_name @ '' updated'') else Error 500))
            (load_profiles (Some (profiles model_name)) m))"

text \<open>A replica number that is no number resets the override; a value \<open>int\<close> does not take at all raises.\<close>

definition requested_replicas :: "pyval \<Rightarrow> py_error + int" where
  "requested_replicas data =
     ebind (py_get data ''replicas'' (PInt (- 1))) (\<lambda>v.
       case as_int v of
         Inr n \<Rightarrow> Inr (if n < - 1 then - 1 else n)
       | Inl e \<Rightarrow> if e = ValueError then Inr (- 1) else Inl e)"

definition scale_deployment :: "cluster \<Rightarrow> string \<Rightarrow> string \<Rightarrow> pyval \<Rightarrow> service \<Rightarrow> (service, response) outcome" where
  "scale_deployment cluster namespace name data srv =
     (case requested_replicas data of
        Inl e \<Rightarrow> (srv, Inl e)
      | Inr replicas \<Rightarrow>
          (case ebind (cluster name namespace) (\<lambda>d. validate_model d srv) of
             Inl e \<Rightarrow> (srv, Inr (Error 500))
           | Inr (model_name, None) \<Rightarrow> (srv, Inr (Error 500))
           | Inr (model_name, Some m) \<Rightarrow>
               (case update_deployment_num_replicas name (Some namespace) replicas True m of
                  (m1, Inl e) \<Rightarrow> (put_monitor model_name m1 srv, Inr (Error 500))
                | (m1, Inr _) \<Rightarrow> (put_monitor model_name m1 srv, Inr (Message (''Scaled to '' @ int_str replicas))))))"

definition get_deployment_metrics :: "cluster \<Rightarrow> string \<Rightarrow> string \<Rightarrow> service \<Rightarrow> response" where
  "get_deployment_metrics cluster namespace name srv =
     (case ebind (cluster name namespace) (\<lambda>d. ebind (validate_model d srv) (\<lambda>(model_name, mo).
             case mo of
               None \<Rightarrow> Inl Exception
             | Some m \<Rightarrow> ebind (read_deployment_num_replicas name (Some namespace) m) (\<lambda>n. Inr (model_name, n)))) of
        Inl e \<Rightarrow> Error 404
      | Inr (model_name, n) \<Rightarrow> Metrics model_name n)"

subsection \<open>The watch loop\<close>

datatype event_type = ADDED | DELETED | MODIFIED | OTHER

text \<open>An exception of a handler is logged and the loop goes on.\<close>

definition handle_event ::
  "(string \<Rightarrow> py_error + gpu_profile list) \<Rightarrow> bool \<Rightarrow> string option \<Rightarrow> event_type \<times> k8s_deployment \<Rightarrow> service \<Rightarrow> service option" where
  "handle_event profiles debug watch_ver ev srv =
     (case fst ev of
        ADDED \<Rightarrow> map_option fst (start_serving_thread profiles debug watch_ver (snd ev) srv)
      | DELETED \<Rightarrow> map_option fst (service_remove_deployment (snd ev) srv)
      | MODIFIED \<Rightarrow> map_option fst (service_update_deployment watch_ver (snd ev) srv)
      | OTHER \<Rightarrow> Some srv)"

fun handle_events ::
  "(string \<Rightarrow> py_error + gpu_profile list) \<Rightarrow> bool \<Rightarrow> string option \<Rightarrow> (event_type \<times> k8s_deployment) list \<Rightarrow> service \<Rightarrow> service option" where
  "handle_events profiles debug watch_ver [] srv = Some srv"
| "handle_events profiles debug watch_ver (ev # evs) srv =
     Option.bind (handle_event profiles debug watch_ver ev srv) (handle_events profiles debug watch_ver evs)"

text \<open>
  The loop over the monitors that drops the deployments of the last round. Removing a monitor from
  the table the loop runs over makes its next step raise.
\<close>

fun clear_monitors :: "(string \<times> monitor) list \<Rightarrow> service \<Rightarrow> (service, unit) outcome" where
  "clear_monitors [] srv = (srv, Inr ())"
| "clear_monitors ((model_name, m) # rest) srv =
     (case clear_outdated_deployments m of
        (m1, Inl e) \<Rightarrow> (put_monitor model_name m1 srv, Inl e)
      | (m1, Inr left) \<Rightarrow>
          if left = 0
          then (srv\<lparr>srv_monitors := AList.delete model_name (srv_monitors srv), srv_stopped := srv_stopped srv @ [model_name]\<rparr>,
                Inl RuntimeError)
          else clear_monitors rest (put_monitor model_name m1 srv))"

definition watch_round ::
  "(string \<Rightarrow> py_error + gpu_profile list) \<Rightarrow> bool \<Rightarrow> string option \<Rightarrow> k8s_deployment list \<Rightarrow> (event_type \<times> k8s_deployment) list \<Rightarrow>
   service \<Rightarrow> unit service_call" where
  "watch_round profiles debug watch_version listed events srv =
     (let marked = srv\<lparr>srv_monitors := map (\<lambda>(n, m). (n, mark_deployments_outdated m)) (srv_monitors srv)\<rparr> in
      case handle_events profiles debug watch_version (map (Pair ADDED) listed) marked of
        None \<Rightarrow> None
      | Some srv1 \<Rightarrow>
          (case clear_monitors (srv_monitors srv1) srv1 of
             (srv2, Inl e) \<Rightarrow> Some (srv2, Inl e)
           | (srv2, Inr _) \<Rightarrow>
               map_option (\<lambda>srv3. (srv3, Inr ())) (handle_events profiles debug watch_version events srv2)))"

subsection \<open>The monitors of the service\<close>

abbreviation dep_keys :: "monitor \<Rightarrow> string set" where
  "dep_keys m \<equiv> fst ` set (mon_deployments m)"

text \<open>The lock is free, and no version of the watch is marked as outdated.\<close>

definition idle :: "monitor \<Rightarrow> bool" where
  "idle m \<longleftrightarrow> \<not> mon_locked m \<and> mon_last_watch m = None \<and> mon_outdated m = None"

definition versioned :: "(string \<times> deployment) list \<Rightarrow> bool" where
  "versioned ds \<longleftrightarrow> distinct (map fst ds) \<and> (\<forall>d \<in> snd ` set ds. dep_watch_ver d \<noteq> None)"

definition monitor_ok :: "monitor \<Rightarrow> bool" where
  "monitor_ok m \<longleftrightarrow> idle m \<and> mon_deployments m \<noteq> [] \<and> versioned (mon_deployments m)"

definition service_ok :: "service \<Rightarrow> bool" where
  "service_ok srv \<longleftrightarrow> distinct (map fst (srv_monitors srv)) \<and> (\<forall>m \<in> snd ` set (srv_monitors srv). monitor_ok m)"

lemma set_update_subset: "snd ` set (AList.update k v al) \<subseteq> insert v (snd ` set al)"
  by (induction al) auto

lemma versioned_update: "versioned ds \<Longrightarrow> dep_watch_ver d \<noteq> None \<Longrightarrow> versioned (AList.update k d ds)"
  unfolding versioned_def using set_update_subset [of k d ds] distinct_update [of ds k d] by blast

lemma versioned_delete: "versioned ds \<Longrightarrow> versioned (AList.delete k ds)"
  by (auto simp: versioned_def distinct_delete) (auto simp: AList.delete_eq)

lemma match_profile_frame: "match_profile key name m = (m1, p) \<Longrightarrow> mon_deployments m1 = mon_deployments m \<and> idle m1 = idle m"
  by (auto simp: match_profile_def Let_def idle_def split: option.splits)

lemma add_deployment_cases:
  fixes name :: string and ns :: "string option"
  assumes "idle m"
  defines "key \<equiv> deployment_entry_point name ns"
  obtains m1 b where "add_deployment ver name ns (Inr dp) m = Some (m1, Inr b)" "idle m1"
    "(\<exists>d. dep_watch_ver d = ver \<and> mon_deployments m1 = AList.update key d (mon_deployments m)) \<or>
     mon_deployments m1 = mon_deployments m \<and> map_of (mon_deployments m) key \<noteq> None"
proof -
  obtain m0 p where mp: "match_profile key name m = (m0, p)"
    by fastforce
  define m2 where "m2 = (case p of None \<Rightarrow> m0 | Some q \<Rightarrow> m0\<lparr>mon_optimizer := fst (set_profile q (mon_optimizer m0))\<rparr>)"
  have m2: "mon_deployments m2 = mon_deployments m" "idle m2"
    using match_profile_frame [OF mp] assms(1) by (simp_all add: m2_def idle_def split: option.split)
  have add: "add_deployment ver name ns (Inr dp) m =
    (let store = (\<lambda>d old_cost. m2\<lparr>mon_deployments := AList.update key (d\<lparr>dep_profile := p, dep_watch_ver := ver\<rparr>) (mon_deployments m),
            mon_cost := mon_cost m2 + (cost_of (d\<lparr>dep_profile := p, dep_watch_ver := ver\<rparr>) - old_cost), mon_last_resource := ver\<rparr>)
     in case map_of (mon_deployments m) key of
          None \<Rightarrow> Some (store dp (Fin 0), Inr True)
        | Some d \<Rightarrow> if is_modified d dp then Some (store (d\<lparr>dep_min_replicas := dep_min_replicas dp\<rparr>) (cost_of d), Inr True)
                   else Some (m2, Inr False))"
    using m2 mp unfolding idle_def
    by (cases "map_of (mon_deployments m) key") (simp_all add: add_deployment_def Let_def key_def [symmetric] m2_def [symmetric])
  show ?thesis
  proof (cases "\<exists>d. map_of (mon_deployments m) key = Some d \<and> \<not> is_modified d dp")
    case True
    then show ?thesis
      using that [of m2 False] add m2 by auto
  next
    case False
    then obtain e c where e: "add_deployment ver name ns (Inr dp) m = Some (m2\<lparr>mon_deployments :=
        AList.update key (e\<lparr>dep_profile := p, dep_watch_ver := ver\<rparr>) (mon_deployments m), mon_cost := c, mon_last_resource := ver\<rparr>, Inr True)"
      using add by (cases "map_of (mon_deployments m) key") auto
    let ?d = "e\<lparr>dep_profile := p, dep_watch_ver := ver\<rparr>"
    have "idle (m2\<lparr>mon_deployments := AList.update key ?d (mon_deployments m), mon_cost := c, mon_last_resource := ver\<rparr>)"
      using m2(2) by (simp add: idle_def)
    moreover have "\<exists>d. dep_watch_ver d = ver \<and> AList.update key ?d (mon_deployments m) = AList.update key d (mon_deployments m)"
      by (intro exI [of _ ?d]) simp
    ultimately show ?thesis
      using that [OF e] by simp
  qed
qed

lemma add_deployment_keys:
  assumes "idle m" "versioned (mon_deployments m)"
  obtains m1 b where "add_deployment (Some ver) name ns (Inr dp) m = Some (m1, Inr b)" "monitor_ok m1"
    "dep_keys m1 = insert (deployment_entry_point name ns) (dep_keys m)"
proof -
  let ?key = "deployment_entry_point name ns"
  obtain m1 b where m1: "add_deployment (Some ver) name ns (Inr dp) m = Some (m1, Inr b)" "idle m1"
    "(\<exists>d. dep_watch_ver d = Some ver \<and> mon_deployments m1 = AList.update ?key d (mon_deployments m)) \<or>
     mon_deployments m1 = mon_deployments m \<and> map_of (mon_deployments m) ?key \<noteq> None"
    using add_deployment_cases [OF assms(1)] .
  have "dep_keys m1 = insert ?key (dep_keys m)"
    using m1(3) by (elim disjE exE conjE) (simp_all add: dom_update insert_absorb map_of_eq_None_iff)
  moreover have "versioned (mon_deployments m1)"
    using m1(3) assms(2) by (elim disjE exE conjE) (simp_all add: versioned_update)
  moreover from calculation have "mon_deployments m1 \<noteq> []"
    by auto
  ultimately show ?thesis
    using that m1(1,2) by (simp add: monitor_ok_def)
qed

lemma update_profiles_fresh:
  "mon_deployments m = [] \<Longrightarrow> \<exists>m1. update_profiles ps m = Some (m1, Inr True) \<and> mon_deployments m1 = [] \<and> idle m1 = idle m"
proof (induction ps arbitrary: m)
  case (Cons p ps)
  let ?p = "p\<lparr>gp_cost := gp_cost p / mon_gpu_fraction m\<rparr>"
  have "\<exists>m1 b. update_profile ?p m = Some (m1, Inr b) \<and> mon_deployments m1 = [] \<and> idle m1 = idle m"
    using Cons.prems by (cases "map_of (mon_profiles m) (gp_gpu p)") (auto simp: update_profile_def Let_def idle_def)
  then obtain m1 b where "update_profile ?p m = Some (m1, Inr b)" "mon_deployments m1 = []" "idle m1 = idle m"
    by blast
  then show ?case
    using Cons.IH [of m1] by simp
qed simp

lemma new_monitor_keys:
  obtains m b where "ModelMonitor (Some ver) q (Some r) debug ns (Some d) = Some (m, Inr b)" "monitor_ok m"
    "dep_keys m = {deployment_entry_point (dep_name d) ns}"
proof -
  have n: "mon_deployments (new_monitor q) = []" "idle (new_monitor q)"
    by (simp_all add: new_monitor_def idle_def)
  have "\<exists>m b. load_profiles (Some r) (new_monitor q) = Some (m, b) \<and> mon_deployments m = [] \<and> idle m"
  proof (cases r)
    case (Inl e)
    then show ?thesis
      using n by (intro exI [of _ "new_monitor q"] exI [of _ False]) (simp add: load_profiles_def)
  next
    case (Inr ps)
    then show ?thesis
      using update_profiles_fresh [OF n(1), of ps] n(2) by (auto simp: load_profiles_def)
  qed
  then obtain m b where m: "load_profiles (Some r) (new_monitor q) = Some (m, b)" "mon_deployments m = []" "idle m"
    by blast
  obtain m1 c where "add_deployment (Some ver) (dep_name d) ns (Inr d) m = Some (m1, Inr c)" "monitor_ok m1"
    "dep_keys m1 = insert (deployment_entry_point (dep_name d) ns) (dep_keys m)"
    by (rule add_deployment_keys [OF m(3)]) (simp add: m(2) versioned_def)
  then show ?thesis
    using that [of m1 c] m by (simp add: ModelMonitor_def Let_def)
qed

lemma remove_deployment_keys:
  assumes "monitor_ok m" "deployment_entry_point name ns \<in> dep_keys m"
  obtains m1 where "remove_deployment name ns m = Some (m1, Inr (length (mon_deployments m1)))" "idle m1"
    "versioned (mon_deployments m1)" "dep_keys m1 = dep_keys m - {deployment_entry_point name ns}"
proof -
  let ?key = "deployment_entry_point name ns"
  obtain d where d: "map_of (mon_deployments m) ?key = Some d"
    using assms(2) by (metis map_of_eq_None_iff not_None_eq)
  let ?m = "m\<lparr>mon_optimizer := delete_profile ?key (mon_optimizer m), mon_deployments := AList.delete ?key (mon_deployments m)\<rparr>"
  have "remove_deployment name ns m = Some (?m, Inr (length (mon_deployments ?m)))"
    using d assms(1) by (simp add: remove_deployment_def Let_def monitor_ok_def idle_def)
  moreover have "dep_keys ?m = dep_keys m - {?key}"
    by (auto simp: AList.delete_eq)
  ultimately show ?thesis
    using that [of ?m] assms(1) by (simp add: monitor_ok_def idle_def versioned_delete)
qed

subsection \<open>What the service promises\<close>

text \<open>The deployments registered for each model, and how an event of the cluster should change them.\<close>

type_synonym registrations = "string \<Rightarrow> string set"

definition registered :: "service \<Rightarrow> registrations" where
  "registered srv model = (case map_of (srv_monitors srv) model of None \<Rightarrow> {} | Some m \<Rightarrow> dep_keys m)"

definition model_of :: "k8s_deployment \<Rightarrow> string" where
  "model_of d = (case kd_labels d of None \<Rightarrow> [] | Some ls \<Rightarrow> (case map_of ls MODEL_LABEL of None \<Rightarrow> [] | Some m \<Rightarrow> m))"

definition key_of :: "k8s_deployment \<Rightarrow> string" where
  "key_of d = deployment_entry_point (kd_name d) (Some (kd_namespace d))"

fun apply_event :: "event_type \<times> k8s_deployment \<Rightarrow> registrations \<Rightarrow> registrations" where
  "apply_event (ADDED, d) R = R(model_of d := insert (key_of d) (R (model_of d)))"
| "apply_event (MODIFIED, d) R = (if R (model_of d) = {} then R else R(model_of d := insert (key_of d) (R (model_of d))))"
| "apply_event (DELETED, d) R = R(model_of d := R (model_of d) - {key_of d})"
| "apply_event (OTHER, d) R = R"

text \<open>Labels that can be read, and no removal of a deployment that a monitored model does not have.\<close>

definition proper_event :: "event_type \<times> k8s_deployment \<Rightarrow> registrations \<Rightarrow> bool" where
  "proper_event ev R \<longleftrightarrow> model_of (snd ev) \<noteq> [] \<and> \<not> isl (new_deployment (snd ev)) \<and>
     (fst ev = DELETED \<longrightarrow> R (model_of (snd ev)) = {} \<or> key_of (snd ev) \<in> R (model_of (snd ev)))"

fun proper_events :: "(event_type \<times> k8s_deployment) list \<Rightarrow> registrations \<Rightarrow> bool" where
  "proper_events [] R = True"
| "proper_events (ev # evs) R = (proper_event ev R \<and> proper_events evs (apply_event ev R))"

lemma validate_labelled:
  assumes "model_of d \<noteq> []"
  shows "validate_model d srv = Inr (model_of d, map_of (srv_monitors srv) (model_of d))"
  using assms by (auto simp: model_of_def validate_model_def split: option.splits)

lemma put_monitor_ok:
  assumes "service_ok srv" "monitor_ok m"
  shows "service_ok (put_monitor model m srv)" "registered (put_monitor model m srv) = (registered srv)(model := dep_keys m)"
proof -
  have "\<forall>x \<in> snd ` set (AList.update model m (srv_monitors srv)). monitor_ok x"
    using assms set_update_subset [of model m "srv_monitors srv"] unfolding service_ok_def by blast
  then show "service_ok (put_monitor model m srv)"
    using assms(1) by (simp add: service_ok_def put_monitor_def distinct_update)
  show "registered (put_monitor model m srv) = (registered srv)(model := dep_keys m)"
    by (auto simp: registered_def put_monitor_def update_conv' fun_eq_iff)
qed

lemma registered_monitor:
  assumes "service_ok srv" "map_of (srv_monitors srv) model = Some m"
  shows "monitor_ok m" "registered srv model = dep_keys m" "dep_keys m \<noteq> {}"
proof -
  show "monitor_ok m"
    using assms map_of_SomeD [OF assms(2)] by (force simp: service_ok_def)
  then show "dep_keys m \<noteq> {}"
    by (auto simp: monitor_ok_def)
  show "registered srv model = dep_keys m"
    using assms(2) by (simp add: registered_def)
qed

lemma new_deployment_name: "new_deployment d = Inr dp \<Longrightarrow> dep_name dp = kd_name d"
  by (auto simp: new_deployment_def DeploymentStates_def ebind_Inr_iff)

lemma add_to_monitor_ok:
  assumes "service_ok srv" "map_of (srv_monitors srv) (model_of d) = Some m" "new_deployment d = Inr dp"
  obtains srv1 b where "add_to_monitor (Some ver) d (model_of d) m srv = Some (srv1, Inr b)" "service_ok srv1"
    "registered srv1 = (registered srv)(model_of d := insert (key_of d) (registered srv (model_of d)))"
proof -
  note m = registered_monitor [OF assms(1,2)]
  have "idle m" "versioned (mon_deployments m)"
    using m(1) by (auto simp: monitor_ok_def)
  then obtain m1 b where m1: "add_deployment (Some ver) (kd_name d) (Some (kd_namespace d)) (Inr dp) m = Some (m1, Inr b)" "monitor_ok m1"
    "dep_keys m1 = insert (key_of d) (dep_keys m)"
    using add_deployment_keys [of m] unfolding key_of_def by blast
  show ?thesis
    using that [of "put_monitor (model_of d) m1 srv" b] put_monitor_ok [OF assms(1) m1(2), of "model_of d"] m1 m(2) assms(3)
    by (simp add: add_to_monitor_def)
qed


lemma drop_monitor_ok:
  assumes "service_ok srv"
  shows "service_ok (srv\<lparr>srv_monitors := AList.delete model (srv_monitors srv), srv_stopped := st\<rparr>)"
    "registered (srv\<lparr>srv_monitors := AList.delete model (srv_monitors srv), srv_stopped := st\<rparr>) = (registered srv)(model := {})"
proof -
  have "\<forall>x \<in> snd ` set (AList.delete model (srv_monitors srv)). monitor_ok x"
    using assms by (auto simp: service_ok_def AList.delete_eq)
  then show "service_ok (srv\<lparr>srv_monitors := AList.delete model (srv_monitors srv), srv_stopped := st\<rparr>)"
    using assms by (simp add: service_ok_def distinct_delete)
  show "registered (srv\<lparr>srv_monitors := AList.delete model (srv_monitors srv), srv_stopped := st\<rparr>) = (registered srv)(model := {})"
    by (auto simp: registered_def AList.delete_conv' fun_eq_iff)
qed

lemma unmonitored: "map_of (srv_monitors srv) model = None \<Longrightarrow> registered srv model = {}"
  by (simp add: registered_def)

lemma start_ok:
  assumes "service_ok srv" "model_of d \<noteq> []" "new_deployment d = Inr dp"
  obtains srv1 b where "start_serving_thread profiles debug (Some ver) d srv = Some (srv1, Inr b)" "service_ok srv1"
    "registered srv1 = apply_event (ADDED, d) (registered srv)"
proof (cases "map_of (srv_monitors srv) (model_of d)")
  case (Some m)
  obtain srv1 b where "add_to_monitor (Some ver) d (model_of d) m srv = Some (srv1, Inr b)" "service_ok srv1"
    "registered srv1 = (registered srv)(model_of d := insert (key_of d) (registered srv (model_of d)))"
    using add_to_monitor_ok [OF assms(1) Some assms(3)] .
  then show ?thesis
    using that [of srv1 False] Some validate_labelled [OF assms(2)] by (simp add: start_serving_thread_def)
next
  case None
  obtain m b where m: "ModelMonitor (Some ver) (Fin 100) (Some (profiles (model_of d))) debug (Some (kd_namespace d)) (Some dp) = Some (m, Inr b)"
    "monitor_ok m" "dep_keys m = {deployment_entry_point (dep_name dp) (Some (kd_namespace d))}"
    using new_monitor_keys .
  then show ?thesis
    using that [of "put_monitor (model_of d) m srv" True] None validate_labelled [OF assms(2)] put_monitor_ok [OF assms(1) m(2)]
      unmonitored [OF None] new_deployment_name [OF assms(3)] assms(3)
    by (simp add: start_serving_thread_def key_of_def)
qed

lemma remove_ok:
  assumes "service_ok srv" "model_of d \<noteq> []"
    and "registered srv (model_of d) = {} \<or> key_of d \<in> registered srv (model_of d)"
  obtains srv1 where "service_remove_deployment d srv = Some (srv1, Inr ())" "service_ok srv1"
    "registered srv1 = apply_event (DELETED, d) (registered srv)"
proof (cases "map_of (srv_monitors srv) (model_of d)")
  case (Some m)
  note m = registered_monitor [OF assms(1) Some]
  have "deployment_entry_point (kd_name d) (Some (kd_namespace d)) \<in> dep_keys m"
    using assms(3) m(2,3) by (simp add: key_of_def)
  then obtain m1 where m1: "remove_deployment (kd_name d) (Some (kd_namespace d)) m = Some (m1, Inr (length (mon_deployments m1)))"
    "idle m1" "versioned (mon_deployments m1)" "dep_keys m1 = dep_keys m - {key_of d}"
    using remove_deployment_keys [OF m(1)] unfolding key_of_def by metis
  show ?thesis
  proof (cases "mon_deployments m1 = []")
    case True
    then have none: "dep_keys m - {key_of d} = {}"
      using m1(4) by simp
    have "(registered srv)(model_of d := {}) = apply_event (DELETED, d) (registered srv)"
      unfolding apply_event.simps m(2) none by (rule refl)
    then show ?thesis
      using that [OF _ drop_monitor_ok(1) [OF assms(1)], of "srv_stopped srv @ [model_of d]" "model_of d"] True Some m1(1)
        validate_labelled [OF assms(2)] drop_monitor_ok(2) [OF assms(1)]
      by (simp add: service_remove_deployment_def del: apply_event.simps)
  next
    case False
    then have "monitor_ok m1"
      using m1 by (simp add: monitor_ok_def)
    then show ?thesis
      using that [of "put_monitor (model_of d) m1 srv"] False Some m1 m(2) validate_labelled [OF assms(2)] put_monitor_ok [OF assms(1)]
      by (simp add: service_remove_deployment_def)
  qed
next
  case None
  then show ?thesis
    using that [of srv] assms(1,2) validate_labelled [OF assms(2)] unmonitored [OF None]
    by (simp add: service_remove_deployment_def fun_upd_idem)
qed

lemma update_ok:
  assumes "service_ok srv" "model_of d \<noteq> []" "new_deployment d = Inr dp"
  obtains srv1 where "service_update_deployment (Some ver) d srv = Some (srv1, Inr ())" "service_ok srv1"
    "registered srv1 = apply_event (MODIFIED, d) (registered srv)"
proof (cases "map_of (srv_monitors srv) (model_of d)")
  case (Some m)
  obtain srv1 b where "add_to_monitor (Some ver) d (model_of d) m srv = Some (srv1, Inr b)" "service_ok srv1"
    "registered srv1 = (registered srv)(model_of d := insert (key_of d) (registered srv (model_of d)))"
    using add_to_monitor_ok [OF assms(1) Some assms(3)] .
  then show ?thesis
    using that [of srv1] Some validate_labelled [OF assms(2)] registered_monitor [OF assms(1) Some]
    by (simp add: service_update_deployment_def)
next
  case None
  then show ?thesis
    using that [of srv] assms(1) validate_labelled [OF assms(2)] unmonitored [OF None] by (simp add: service_update_deployment_def)
qed

lemma event_ok:
  assumes "service_ok srv" "proper_event ev (registered srv)"
  shows "\<exists>srv1. handle_event profiles debug (Some ver) ev srv = Some srv1 \<and> service_ok srv1 \<and> registered srv1 = apply_event ev (registered srv)"
proof -
  obtain k d where ev: "ev = (k, d)"
    by fastforce
  obtain dp where d: "model_of d \<noteq> []" "new_deployment d = Inr dp"
    using assms(2) ev by (cases "new_deployment d") (auto simp: proper_event_def)
  show ?thesis
  proof (cases k)
    case ADDED
    then show ?thesis
      using start_ok [OF assms(1) d] ev by (simp add: handle_event_def) (metis fst_conv option.simps(9))
  next
    case DELETED
    then show ?thesis
      using remove_ok [OF assms(1) d(1)] assms(2) ev by (simp add: handle_event_def proper_event_def) (metis fst_conv option.simps(9))
  next
    case MODIFIED
    then show ?thesis
      using update_ok [OF assms(1) d] ev by (simp add: handle_event_def) (metis fst_conv option.simps(9))
  next
    case OTHER
    then show ?thesis
      using assms(1) ev by (simp add: handle_event_def)
  qed
qed

lemma events_ok:
  "service_ok srv \<Longrightarrow> proper_events evs (registered srv) \<Longrightarrow>
   \<exists>srv1. handle_events profiles debug (Some ver) evs srv = Some srv1 \<and> service_ok srv1 \<and> registered srv1 = fold apply_event evs (registered srv)"
proof (induction evs arbitrary: srv)
  case (Cons ev evs)
  obtain srv1 where "handle_event profiles debug (Some ver) ev srv = Some srv1" "service_ok srv1" "registered srv1 = apply_event ev (registered srv)"
    using event_ok [OF Cons.prems(1), of ev profiles debug ver] Cons.prems(2) by auto
  then show ?case
    using Cons.IH [of srv1] Cons.prems(2) by simp
qed simp


text \<open>Within a round nothing is marked as outdated, so the clearing pass keeps every monitor.\<close>

lemma clear_outdated_ok:
  assumes "monitor_ok m"
  shows "clear_outdated_deployments m = (m, Inr (length (mon_deployments m)))"
proof -
  have "find (\<lambda>(k, d). dep_watch_ver d = mon_outdated m) (mon_deployments m) = None"
    using assms by (auto simp: find_None_iff monitor_ok_def idle_def versioned_def)
  then show ?thesis
    by (simp add: clear_outdated_deployments_def)
qed

lemma clear_monitors_ok:
  assumes "service_ok srv" "set ms \<subseteq> set (srv_monitors srv)"
  shows "clear_monitors ms srv = (srv, Inr ())"
  using assms
proof (induction ms)
  case (Cons nm ms)
  obtain n m where nm: "nm = (n, m)"
    by fastforce
  have m: "map_of (srv_monitors srv) n = Some m"
    using Cons.prems nm by (auto simp: service_ok_def)
  then have "put_monitor n m srv = srv"
    by (simp add: put_monitor_def update_triv)
  moreover have "monitor_ok m"
    using registered_monitor(1) [OF Cons.prems(1) m] .
  ultimately show ?case
    using Cons nm clear_outdated_ok [of m] by (simp add: monitor_ok_def)
qed simp

lemma mark_ok:
  assumes "service_ok srv"
  shows "srv\<lparr>srv_monitors := map (\<lambda>(n, m). (n, mark_deployments_outdated m)) (srv_monitors srv)\<rparr> = srv"
proof -
  have "mark_deployments_outdated m = m" if "(n, m) \<in> set (srv_monitors srv)" for n m
  proof -
    have "idle m"
      using that assms by (force simp: service_ok_def monitor_ok_def)
    then show ?thesis
      by (cases m) (simp add: mark_deployments_outdated_def idle_def)
  qed
  then have "map (\<lambda>(n, m). (n, mark_deployments_outdated m)) (srv_monitors srv) = srv_monitors srv"
    by (intro map_idI) auto
  then show ?thesis
    by simp
qed

lemma proper_events_append: "proper_events (xs @ ys) R \<longleftrightarrow> proper_events xs R \<and> proper_events ys (fold apply_event xs R)"
  by (induction xs arbitrary: R) auto


definition sample_deployment :: "string \<Rightarrow> k8s_deployment" where
  "sample_deployment n = \<lparr>kd_name = n, kd_namespace = ''ns'', kd_labels = Some [(MODEL_LABEL, ''llama'')], kd_replicas = Some 1\<rparr>"

definition empty_service :: service where
  "empty_service = \<lparr>srv_monitors = [], srv_stopped = []\<rparr>"



subsection \<open>Removing a deployment that is not registered\<close>

lemma locked_blocks:
  assumes "mon_locked m"
  shows "add_deployment ver name ns (Inr dp) m = None" "remove_deployment name ns m = None"
proof -
  obtain m1 p where mp: "match_profile (deployment_entry_point name ns) name m = (m1, p)"
    by fastforce
  have "mon_locked m1"
    using mp assms by (auto simp: match_profile_def Let_def split: option.splits)
  then show "add_deployment ver name ns (Inr dp) m = None"
    using mp by (simp add: add_deployment_def Let_def split: option.split)
  show "remove_deployment name ns m = None"
    using assms by (simp add: remove_deployment_def)
qed

lemma locked_model_blocks:
  assumes "map_of (srv_monitors srv) (model_of d) = Some m" "mon_locked m" "model_of d \<noteq> []" "new_deployment d = Inr dp" "k \<noteq> OTHER"
  shows "handle_event profiles debug ver (k, d) srv = None"
  using assms validate_labelled [OF assms(3), of srv] locked_blocks [OF assms(2)]
  by (cases k) (simp_all add: handle_event_def start_serving_thread_def service_remove_deployment_def
      service_update_deployment_def add_to_monitor_def)

text \<open>
  C20. A removal that is not registered blocks its model for good: when the service monitors a model
  and a deployment is deleted that its monitor does not have (it was removed by the endpoint before,
  or its registration had failed), the lookup raises with the monitor's lock held. The loop logs the
  exception and goes on, and the next addition, change or removal of a deployment of this model
  waits for that lock and never returns.
\<close>

theorem unknown_removal_blocks_model:
  assumes "service_ok srv" "model_of d \<noteq> []" "registered srv (model_of d) \<noteq> {}" "key_of d \<notin> registered srv (model_of d)"
    and "model_of d2 = model_of d" "\<not> isl (new_deployment d2)" "k \<noteq> OTHER"
  shows "\<exists>srv1. handle_events profiles debug ver [(DELETED, d)] srv = Some srv1 \<and>
    handle_events profiles debug ver ((k, d2) # evs) srv1 = None"
proof -
  obtain m where m: "map_of (srv_monitors srv) (model_of d) = Some m"
    using assms(3) unmonitored by blast
  note r = registered_monitor [OF assms(1) m]
  have u: "map_of (mon_deployments m) (deployment_entry_point (kd_name d) (Some (kd_namespace d))) = None"
    using assms(4) r(2) by (simp add: key_of_def map_of_eq_None_iff)
  let ?m = "m\<lparr>mon_optimizer := delete_profile (key_of d) (mon_optimizer m), mon_locked := True\<rparr>"
  have "service_remove_deployment d srv = Some (put_monitor (model_of d) ?m srv, Inl KeyError)"
    using m u r(1) validate_labelled [OF assms(2), of srv]
    by (simp add: service_remove_deployment_def remove_deployment_def monitor_ok_def idle_def key_of_def)
  moreover obtain dp where "new_deployment d2 = Inr dp"
    using assms(6) by (cases "new_deployment d2") auto
  then have "handle_event profiles debug ver (k, d2) (put_monitor (model_of d) ?m srv) = None"
    using assms(2,5,7) by (intro locked_model_blocks [of _ _ ?m dp]) (simp_all add: put_monitor_def update_conv')
  ultimately show ?thesis
    by (simp add: handle_event_def)
qed

theorem unknown_removal_blocks_model_witness:
  "\<exists>srv srv1. registered srv ''llama'' = {''ns/b''} \<and>
     handle_events (\<lambda>_. Inr []) False (Some ''7'') [(DELETED, sample_deployment ''a'')] srv = Some srv1 \<and>
     handle_events (\<lambda>_. Inr []) False (Some ''7'') [(ADDED, sample_deployment ''c'')] srv1 = None"
proof -
  have e: "service_ok empty_service" "registered empty_service = (\<lambda>_. {})"
    by (simp_all add: service_ok_def registered_def empty_service_def fun_eq_iff)
  have d: "model_of (sample_deployment n) = ''llama''" "\<not> isl (new_deployment (sample_deployment n))" "key_of (sample_deployment n) = ''ns/'' @ n" for n
    by (simp_all add: new_deployment_def sample_deployment_def model_of_def key_of_def deployment_entry_point_def MIN_REPLICAS_LABEL_def MODEL_LABEL_def)
  obtain srv where srv: "service_ok srv" "registered srv = (\<lambda>_. {})(''llama'' := {''ns/b''})"
    using event_ok [OF e(1), of "(ADDED, sample_deployment ''b'')" "\<lambda>_. Inr []" False "''7''"] e(2) d by (auto simp: proper_event_def)
  then show ?thesis
    using unknown_removal_blocks_model [OF srv(1), of "sample_deployment ''a''" "sample_deployment ''c''" ADDED "\<lambda>_. Inr []" False "Some ''7''" "[]"] d
    by - (rule exI [of _ srv], simp del: handle_events.simps)
qed

text \<open>
  A deployment registered through the endpoint has no watch version, which is what the clearing pass
  takes for outdated: the next round raises outside every handler and the watch loop ends.
\<close>

lemma manual_registration_ends_watch:
  "(case start_deployment_optimization (\<lambda>n ns. Inr (sample_deployment n)) (\<lambda>_. Inr []) False ''ns'' ''a'' empty_service of
      None \<Rightarrow> None
    | Some (srv, _) \<Rightarrow> map_option snd (watch_round (\<lambda>_. Inr []) False (Some ''7'') [sample_deployment ''a''] [] srv)) = Some (Inl RuntimeError)"
  by (simp add: start_deployment_optimization_def start_serving_thread_def validate_model_def sample_deployment_def empty_service_def
      new_deployment_def MODEL_LABEL_def MIN_REPLICAS_LABEL_def ModelMonitor_def load_profiles_def add_deployment_def match_profile_def
      new_monitor_def DeploymentStates_def put_monitor_def add_to_monitor_def watch_round_def handle_event_def
      mark_deployments_outdated_def clear_outdated_deployments_def is_modified_def deployment_entry_point_def Let_def)

text \<open>A deployment that left the cluster while no watch was open stays registered: the next listing does not drop it.\<close>

lemma missed_removal_kept:
  assumes "service_ok srv" "proper_events (map (Pair ADDED) listed) (registered srv)" "key \<in> registered srv model"
  obtains srv1 where "watch_round profiles debug (Some ver) listed [] srv = Some (srv1, Inr ())" "key \<in> registered srv1 model"
proof -
  obtain srv1 where srv1: "handle_events profiles debug (Some ver) (map (Pair ADDED) listed) srv = Some srv1" "service_ok srv1"
    "registered srv1 = fold apply_event (map (Pair ADDED) listed) (registered srv)"
    using events_ok [OF assms(1,2)] by blast
  have "key \<in> fold apply_event (map (Pair ADDED) ds) R model" if "key \<in> R model" for ds R
    using that
  proof (induction ds arbitrary: R)
    case (Cons d ds)
    have "key \<in> apply_event (ADDED, d) R model"
      using Cons.prems by auto
    then show ?case
      using Cons.IH by simp
  qed simp
  then show ?thesis
    using that [of srv1] srv1 assms(3) clear_monitors_ok [OF srv1(2)] by (simp add: watch_round_def mark_ok [OF assms(1)])
qed

end
